(* ===== verification/Prelude.thy ===== *)
theory Prelude
  imports Main "HOL-Library.Word"
begin

text \<open>
  Shared vocabulary of the development: the machine types the Rust code uses, the crate's error
  type (\<open>Error\<close> in \<open>src/lib.rs\<close>), the result combinators, checked arithmetic, byte-slice
  helpers, and the generic list lemmas the component theories share.

  Conventions. An unsigned machine integer is a word (\<open>u8\<close>, \<open>u32\<close>, \<open>u64\<close>); a signed one
  (\<open>i32\<close>, \<open>i64\<close>) is an \<open>int\<close>, with the range written out where an operation can leave
  it; a \<open>usize\<close> that is a length, an index or a count of bytes in memory is a \<open>nat\<close>
  (64-bit targets, \<open>usize_limit\<close> written out where the code checks for overflow).
  \<open>Result<T, E>\<close> is \<open>E + T\<close> with \<open>Inl\<close> the error; a function that can panic returns an
  \<open>option\<close> with \<open>None\<close> the panic.
\<close>

unbundle bit_operations_syntax

section \<open>Collections of facts\<close>

named_theorems result_simps \<open>rewriting of results and early returns\<close>
named_theorems byte_simps \<open>bytes, slices and machine integers\<close>

section \<open>Machine types\<close>

type_synonym u8 = "8 word"
type_synonym u32 = "32 word"
type_synonym u64 = "64 word"
type_synonym i32 = int
type_synonym i64 = int
type_synonym bytes = "u8 list"

text \<open>Messages of third-party errors are carried for display only.\<close>

type_synonym io_error = string
type_synonym decode_error = string

section \<open>The crate's error type\<close>

datatype error =
    TooShort
  | TooLarge
  | UnsupportedVersion i32
  | UnsupportedSignatureVersion u8
  | MissingFileSignature
  | Gzip io_error
  | Decode decode_error
  | Key string
  | Proof string

type_synonym 'a result = "error + 'a"

section \<open>Results\<close>

text \<open>\<open>?\<close> and \<open>and_then\<close>: go on with the value, return the error at once.\<close>

definition and_then :: "'e + 'a \<Rightarrow> ('a \<Rightarrow> 'e + 'b) \<Rightarrow> 'e + 'b" where
  "and_then r f = (case r of Inl e \<Rightarrow> Inl e | Inr x \<Rightarrow> f x)"

definition map_err :: "('e \<Rightarrow> 'f) \<Rightarrow> 'e + 'a \<Rightarrow> 'f + 'a" where
  "map_err g r = (case r of Inl e \<Rightarrow> Inl (g e) | Inr x \<Rightarrow> Inr x)"

definition ok_or :: "'e \<Rightarrow> 'a option \<Rightarrow> 'e + 'a" where
  "ok_or e x = (case x of None \<Rightarrow> Inl e | Some y \<Rightarrow> Inr y)"

definition ok :: "'e + 'a \<Rightarrow> 'a option" where
  "ok r = (case r of Inl _ \<Rightarrow> None | Inr x \<Rightarrow> Some x)"

lemma and_then_simps [simp, result_simps]:
  "and_then (Inl e) f = Inl e"
  "and_then (Inr x) f = f x"
  by (simp_all add: and_then_def)

lemma and_then_eq_Inr_iff [result_simps]:
  "and_then r f = Inr y \<longleftrightarrow> (\<exists>x. r = Inr x \<and> f x = Inr y)"
  by (cases r) auto

lemma and_then_eq_Inl_iff [result_simps]:
  "and_then r f = Inl e \<longleftrightarrow> r = Inl e \<or> (\<exists>x. r = Inr x \<and> f x = Inl e)"
  by (cases r) auto

lemma and_then_cong [fundef_cong]:
  "r = r' \<Longrightarrow> (\<And>x. r' = Inr x \<Longrightarrow> f x = g x) \<Longrightarrow> and_then r f = and_then r' g"
  by (cases r') auto

lemma map_err_simps [simp, result_simps]:
  "map_err g (Inl e) = Inl (g e)"
  "map_err g (Inr x) = Inr x"
  by (simp_all add: map_err_def)

lemma map_err_eq_Inr_iff [result_simps]: "map_err g r = Inr x \<longleftrightarrow> r = Inr x"
  by (cases r) auto

lemma ok_or_simps [simp, result_simps]:
  "ok_or e None = Inl e"
  "ok_or e (Some y) = Inr y"
  by (simp_all add: ok_or_def)

lemma ok_or_eq_Inr_iff [result_simps]: "ok_or e x = Inr y \<longleftrightarrow> x = Some y"
  by (cases x) auto

lemma ok_simps [simp]: "ok (Inl e) = None" "ok (Inr x) = Some x"
  by (simp_all add: ok_def)

lemma ok_eq_Some_iff: "ok r = Some x \<longleftrightarrow> r = Inr x"
  by (cases r) auto

text \<open>\<open>?\<close> on a result of a function that can panic: a panic ends the caller too.\<close>

definition and_then_panic :: "('e + 'a) option \<Rightarrow> ('a \<Rightarrow> ('e + 'b) option) \<Rightarrow> ('e + 'b) option" where
  "and_then_panic r f = (case r of None \<Rightarrow> None | Some (Inl e) \<Rightarrow> Some (Inl e) | Some (Inr x) \<Rightarrow> f x)"

lemma and_then_panic_simps [simp, result_simps]:
  "and_then_panic None f = None"
  "and_then_panic (Some (Inl e)) f = Some (Inl e)"
  "and_then_panic (Some (Inr x)) f = f x"
  by (simp_all add: and_then_panic_def)

lemma and_then_panic_eq_Inr_iff [result_simps]:
  "and_then_panic r f = Some (Inr y) \<longleftrightarrow> (\<exists>x. r = Some (Inr x) \<and> f x = Some (Inr y))"
  by (auto simp: and_then_panic_def split: option.splits sum.splits)

lemma and_then_panic_eq_None_iff [result_simps]:
  "and_then_panic r f = None \<longleftrightarrow> r = None \<or> (\<exists>x. r = Some (Inr x) \<and> f x = None)"
  by (auto simp: and_then_panic_def split: option.splits sum.splits)

text \<open>\<open>collect::<Result<Vec<_>, _>>\<close>: the first error wins.\<close>

fun map_result :: "('a \<Rightarrow> 'e + 'b) \<Rightarrow> 'a list \<Rightarrow> 'e + 'b list" where
  "map_result f [] = Inr []"
| "map_result f (x # xs) =
     and_then (f x) (\<lambda>y. and_then (map_result f xs) (\<lambda>ys. Inr (y # ys)))"

lemma map_result_Inr_iff:
  "map_result f xs = Inr ys \<longleftrightarrow> list_all2 (\<lambda>x y. f x = Inr y) xs ys"
proof (induction xs arbitrary: ys)
  case Nil
  show ?case by (cases ys) auto
next
  case (Cons x xs)
  then show ?case by (cases ys) (auto simp: and_then_eq_Inr_iff)
qed

lemma map_result_append:
  "map_result f (xs @ ys) =
     and_then (map_result f xs) (\<lambda>us. and_then (map_result f ys) (\<lambda>vs. Inr (us @ vs)))"
proof (induction xs)
  case Nil
  show ?case by (cases "map_result f ys") auto
next
  case (Cons x xs)
  then show ?case
    by (cases "f x"; cases "map_result f xs"; cases "map_result f ys") auto
qed

lemma map_result_map_all:
  "(\<And>x. x \<in> set xs \<Longrightarrow> f (h x) = Inr (g x)) \<Longrightarrow> map_result f (map h xs) = Inr (map g xs)"
  by (induction xs) simp_all

section \<open>Checked arithmetic\<close>

definition usize_limit :: nat where
  "usize_limit = 2 ^ 64"

definition checked_add_usize :: "nat \<Rightarrow> nat \<Rightarrow> nat option" where
  "checked_add_usize a b = (if a + b < usize_limit then Some (a + b) else None)"

definition checked_add_u64 :: "u64 \<Rightarrow> u64 \<Rightarrow> u64 option" where
  "checked_add_u64 a b = (if unat a + unat b < 2 ^ 64 then Some (a + b) else None)"

definition in_i64 :: "int \<Rightarrow> bool" where
  "in_i64 n \<longleftrightarrow> - (2 ^ 63) \<le> n \<and> n < 2 ^ 63"

definition checked_add_i64 :: "i64 \<Rightarrow> i64 \<Rightarrow> i64 option" where
  "checked_add_i64 a b = (if in_i64 (a + b) then Some (a + b) else None)"

lemma checked_add_u64_Some:
  "checked_add_u64 a b = Some c \<longleftrightarrow> unat c = unat a + unat b"
proof
  assume "checked_add_u64 a b = Some c"
  then show "unat c = unat a + unat b"
    by (auto simp: checked_add_u64_def unat_word_ariths split: if_splits)
next
  assume eq: "unat c = unat a + unat b"
  moreover have "unat c < 2 ^ 64"
    using unsigned_less [of c] by simp
  ultimately have lt: "unat a + unat b < 2 ^ 64" by simp
  then have "unat (a + b) = unat a + unat b"
    by (simp add: unat_word_ariths)
  with eq have "c = a + b"
    by (simp add: word_unat_eq_iff)
  with lt show "checked_add_u64 a b = Some c"
    by (simp add: checked_add_u64_def)
qed

lemma checked_add_i64_Some:
  "checked_add_i64 a b = Some c \<longleftrightarrow> c = a + b \<and> in_i64 c"
  by (auto simp: checked_add_i64_def)

text \<open>\<open>div_ceil\<close> for a divisor that is not zero.\<close>

definition div_ceil :: "nat \<Rightarrow> nat \<Rightarrow> nat" where
  "div_ceil n d = (n + d - 1) div d"

text \<open>
  Arithmetic that the code leaves unchecked. With overflow checks (a development or test build, where
  \<open>checks\<close> is true) a result out of range is a panic; without them (a release build) it wraps.
\<close>

definition build_add :: "bool \<Rightarrow> u64 \<Rightarrow> u64 \<Rightarrow> u64 option" where
  "build_add checks a b = (if checks \<and> 2 ^ 64 \<le> unat a + unat b then None else Some (a + b))"

definition build_mul :: "bool \<Rightarrow> u64 \<Rightarrow> u64 \<Rightarrow> u64 option" where
  "build_mul checks a b = (if checks \<and> 2 ^ 64 \<le> unat a * unat b then None else Some (a * b))"

definition build_sub :: "bool \<Rightarrow> u64 \<Rightarrow> u64 \<Rightarrow> u64 option" where
  "build_sub checks a b = (if checks \<and> a < b then None else Some (a - b))"

lemma build_add_Some:
  "unat a + unat b < 2 ^ 64 \<Longrightarrow> build_add checks a b = Some (a + b) \<and> unat (a + b) = unat a + unat b"
  by (simp add: build_add_def unat_word_ariths)

lemma build_mul_Some:
  "unat a * unat b < 2 ^ 64 \<Longrightarrow> build_mul checks a b = Some (a * b) \<and> unat (a * b) = unat a * unat b"
  by (simp add: build_mul_def unat_word_ariths)

section \<open>Slices\<close>

text \<open>
  \<open>&xs[a..b]\<close>. Rust panics unless \<open>a \<le> b \<le> len\<close>; \<open>slice\<close> is only used where the
  code has checked that, and \<open>get_slice\<close> is the version with the panic as \<open>None\<close>.
\<close>

definition slice :: "nat \<Rightarrow> nat \<Rightarrow> 'a list \<Rightarrow> 'a list" where
  "slice a b xs = take (b - a) (drop a xs)"

definition get_slice :: "nat \<Rightarrow> nat \<Rightarrow> 'a list \<Rightarrow> 'a list option" where
  "get_slice a b xs = (if a \<le> b \<and> b \<le> length xs then Some (slice a b xs) else None)"

definition get_at :: "'a list \<Rightarrow> nat \<Rightarrow> 'a option" where
  "get_at xs i = (if i < length xs then Some (xs ! i) else None)"

lemma length_slice [byte_simps]: "a \<le> b \<Longrightarrow> b \<le> length xs \<Longrightarrow> length (slice a b xs) = b - a"
  by (simp add: slice_def)

lemma slice_split [byte_simps]:
  "a \<le> b \<Longrightarrow> b \<le> length xs \<Longrightarrow> xs = take a xs @ slice a b xs @ drop b xs"
  by (simp add: slice_def) (metis append_take_drop_id drop_drop le_add_diff_inverse2)

lemma slice_append_left: "a = length xs \<Longrightarrow> b = a + length ys \<Longrightarrow> slice a b (xs @ ys @ zs) = ys"
  by (simp add: slice_def)

lemma get_at_Some_iff: "get_at xs i = Some x \<longleftrightarrow> i < length xs \<and> xs ! i = x"
  by (auto simp: get_at_def)

lemma get_at_None_iff: "get_at xs i = None \<longleftrightarrow> length xs \<le> i"
  by (auto simp: get_at_def)

lemma get_at_append1: "i < length xs \<Longrightarrow> get_at (xs @ ys) i = get_at xs i"
  by (simp add: get_at_def nth_append)

lemma get_at_append_length: "get_at (xs @ x # ys) (length xs) = Some x"
  by (simp add: get_at_def)

text \<open>Two inputs with a common prefix look the same inside it.\<close>

lemma take_eq_mono: "take k xs = take k ys \<Longrightarrow> j \<le> k \<Longrightarrow> take j xs = take j ys"
  by (metis min.absorb1 take_take)

lemma get_at_take_eq:
  assumes "take k xs = take k ys" "n < k" "k \<le> length xs" "k \<le> length ys"
  shows "get_at xs n = get_at ys n"
proof -
  have "take k xs ! n = take k ys ! n" using assms(1) by simp
  with assms(2-4) show ?thesis by (simp add: get_at_def)
qed

section \<open>Lists\<close>

text \<open>\<open>slice::windows(2)\<close>: the adjacent pairs, in order.\<close>

fun windows2 :: "'a list \<Rightarrow> ('a \<times> 'a) list" where
  "windows2 (x # y # zs) = (x, y) # windows2 (y # zs)"
| "windows2 _ = []"

text \<open>\<open>slice::chunks(n)\<close> for \<open>n > 0\<close> (the code panics on \<open>n = 0\<close>).\<close>

function chunks :: "nat \<Rightarrow> 'a list \<Rightarrow> 'a list list" where
  "chunks n xs = (if xs = [] \<or> n = 0 then [] else take n xs # chunks n (drop n xs))"
  by pat_completeness auto
termination
  by (relation "measure (\<lambda>(n, xs). length xs)") auto

declare chunks.simps [simp del]

lemma concat_chunks: "n > 0 \<Longrightarrow> concat (chunks n xs) = xs"
proof (induction n xs rule: chunks.induct)
  case (1 n xs)
  then show ?case by (cases "xs = []") (simp_all add: chunks.simps [of n xs] chunks.simps [of n "[]"])
qed

lemma chunks_sizes: "c \<in> set (chunks n xs) \<Longrightarrow> c \<noteq> [] \<and> length c \<le> n"
proof (induction n xs rule: chunks.induct)
  case (1 n xs)
  then show ?case
    by (cases "xs = [] \<or> n = 0") (auto simp: chunks.simps [of n xs])
qed

lemma length_windows2: "length (windows2 xs) = length xs - 1"
  by (induction xs rule: windows2.induct) auto

lemma windows2_nth: "Suc i < length xs \<Longrightarrow> windows2 xs ! i = (xs ! i, xs ! Suc i)"
proof (induction xs arbitrary: i rule: windows2.induct)
  case (1 x y zs)
  then show ?case by (cases i) auto
qed auto

lemma set_windows2: "(a, b) \<in> set (windows2 xs) \<longleftrightarrow> (\<exists>i. Suc i < length xs \<and> a = xs ! i \<and> b = xs ! Suc i)"
proof -
  have "(a, b) \<in> set (windows2 xs) \<longleftrightarrow> (\<exists>i < length (windows2 xs). windows2 xs ! i = (a, b))"
    by (simp add: in_set_conv_nth)
  also have "\<dots> \<longleftrightarrow> (\<exists>i. Suc i < length xs \<and> a = xs ! i \<and> b = xs ! Suc i)"
    by (auto simp: length_windows2 windows2_nth less_diff_conv)
  finally show ?thesis .
qed

text \<open>
  The wrapped run of a stateful loop over a list that can stop with an error: \<open>for\<close> with
  \<open>return Err\<close> in its body.
\<close>

fun fold_result :: "('s \<Rightarrow> 'a \<Rightarrow> 'e + 's) \<Rightarrow> 's \<Rightarrow> 'a list \<Rightarrow> 'e + 's" where
  "fold_result f s [] = Inr s"
| "fold_result f s (x # xs) = and_then (f s x) (\<lambda>s'. fold_result f s' xs)"

lemma fold_result_append:
  "fold_result f s (xs @ ys) = and_then (fold_result f s xs) (\<lambda>s'. fold_result f s' ys)"
  by (induction xs arbitrary: s) (simp_all add: and_then_def split: sum.splits)

text \<open>An invariant of the loop body holds after the loop.\<close>

lemma fold_result_invariant:
  assumes "fold_result f s xs = Inr t" and "P [] s"
    and "\<And>ys x s s'. P ys s \<Longrightarrow> x \<in> set xs \<Longrightarrow> f s x = Inr s' \<Longrightarrow> P (ys @ [x]) s'"
  shows "P xs t"
proof -
  have "fold_result f s zs = Inr t \<Longrightarrow> P ys s \<Longrightarrow> set zs \<subseteq> set xs \<Longrightarrow> P (ys @ zs) t" for zs ys s
  proof (induction zs arbitrary: ys s)
    case Nil
    then show ?case by simp
  next
    case (Cons z zs)
    from Cons.prems(1) obtain s' where s': "f s z = Inr s'" "fold_result f s' zs = Inr t"
      by (auto simp: and_then_eq_Inr_iff)
    have "P (ys @ [z]) s'"
      using assms(3) Cons.prems s'(1) by auto
    with Cons.IH [OF s'(2), of "ys @ [z]"] Cons.prems(3) show ?case by simp
  qed
  from this [of s xs "[]"] assms(1,2) show ?thesis by simp
qed

lemma fold_result_Inl_split:
  "fold_result f s xs = Inl e \<Longrightarrow>
     \<exists>ys x zs s'. xs = ys @ x # zs \<and> fold_result f s ys = Inr s' \<and> f s' x = Inl e"
proof (induction xs arbitrary: s)
  case Nil
  then show ?case by simp
next
  case (Cons x xs)
  show ?case
  proof (cases "f s x")
    case (Inl a)
    with Cons.prems have "a = e" by simp
    with Inl have "x # xs = [] @ x # xs \<and> fold_result f s [] = Inr s \<and> f s x = Inl e"
      by simp
    then show ?thesis by blast
  next
    case (Inr s1)
    with Cons.prems have "fold_result f s1 xs = Inl e" by simp
    from Cons.IH [OF this] obtain ys y zs s' where
      "xs = ys @ y # zs" "fold_result f s1 ys = Inr s'" "f s' y = Inl e" by blast
    with Inr have "x # xs = (x # ys) @ y # zs \<and> fold_result f s (x # ys) = Inr s' \<and> f s' y = Inl e"
      by simp
    then show ?thesis by blast
  qed
qed

text \<open>
  The same loop with a body that can also panic: the outer \<open>None\<close> ends the run.
\<close>

fun fold_panic :: "('s \<Rightarrow> 'a \<Rightarrow> ('e + 's) option) \<Rightarrow> 's \<Rightarrow> 'a list \<Rightarrow> ('e + 's) option" where
  "fold_panic f s [] = Some (Inr s)"
| "fold_panic f s (x # xs) =
     (case f s x of
        None \<Rightarrow> None
      | Some (Inl e) \<Rightarrow> Some (Inl e)
      | Some (Inr s') \<Rightarrow> fold_panic f s' xs)"

text \<open>A body that never panics under an invariant it keeps: the run does not panic, and the invariant
  holds of everything consumed when it ends well.\<close>

lemma fold_panic_invariant:
  assumes "P pre s" and "length (pre @ xs) < n"
    and "\<And>ys x s. P ys s \<Longrightarrow> x \<in> set xs \<Longrightarrow> Suc (length ys) < n \<Longrightarrow>
      \<exists>r. f s x = Some r \<and> (\<forall>s'. r = Inr s' \<longrightarrow> P (ys @ [x]) s')"
  shows "\<exists>r. fold_panic f s xs = Some r \<and> (\<forall>t. r = Inr t \<longrightarrow> P (pre @ xs) t)"
proof -
  have "P ys s \<Longrightarrow> length (ys @ zs) < n \<Longrightarrow> set zs \<subseteq> set xs \<Longrightarrow>
      \<exists>r. fold_panic f s zs = Some r \<and> (\<forall>t. r = Inr t \<longrightarrow> P (ys @ zs) t)" for ys zs s
  proof (induction zs arbitrary: ys s)
    case Nil
    then show ?case by simp
  next
    case (Cons z zs)
    then obtain r where r: "f s z = Some r" "\<forall>s'. r = Inr s' \<longrightarrow> P (ys @ [z]) s'"
      using assms(3) [of ys s z] by auto
    show ?case
    proof (cases r)
      case (Inl e)
      with r(1) show ?thesis by simp
    next
      case (Inr s1)
      with r(2) have "P (ys @ [z]) s1" by simp
      moreover have "length ((ys @ [z]) @ zs) < n" "set zs \<subseteq> set xs" using Cons.prems by simp_all
      ultimately obtain t where "fold_panic f s1 zs = Some t" "\<forall>u. t = Inr u \<longrightarrow> P ((ys @ [z]) @ zs) u"
        using Cons.IH by blast
      with r(1) Inr show ?thesis by simp
    qed
  qed
  from this [of pre s xs] assms(1,2) show ?thesis by simp
qed

lemma fold_panic_Inl:
  "fold_panic f s xs = Some (Inl e) \<Longrightarrow> \<exists>x \<in> set xs. \<exists>s'. f s' x = Some (Inl e)"
  by (induction f s xs rule: fold_panic.induct) (auto split: option.splits sum.splits)

end
