(* ===== verification/Fmt.thy ===== *)
theory Fmt
  imports Prelude "HOL-Library.Sublist"
begin

text \<open>
  The pieces of the Rust standard library's text handling that the crate uses: \<open>format!\<close> of
  integers (\<open>{}\<close> and the zero-padded \<open>{:0w}\<close>), \<open>str::parse\<close> for \<open>i64\<close> and the unsigned
  types, and the byte-wise string operations. A Rust \<open>str\<close> is the list of its UTF-8 bytes,
  a \<open>string\<close> here. The lemmas give the print/parse round trips and the shape of the printed
  digits; the component theories use them for timestamps, entity ids and file names.
\<close>

section \<open>Printing integers\<close>

definition digit_char :: "nat \<Rightarrow> char" where
  "digit_char d = char_of (48 + d)"

definition digit_val :: "char \<Rightarrow> nat option" where
  "digit_val c = (let n = of_char c :: nat in if 48 \<le> n \<and> n \<le> 57 then Some (n - 48) else None)"

fun show_nat :: "nat \<Rightarrow> string" where
  "show_nat n = (if n < 10 then [digit_char n] else show_nat (n div 10) @ [digit_char (n mod 10)])"

declare show_nat.simps [simp del]

definition show_int :: "int \<Rightarrow> string" where
  "show_int i = (if i < 0 then CHR ''-'' # show_nat (nat (- i)) else show_nat (nat i))"

definition show_u64 :: "u64 \<Rightarrow> string" where
  "show_u64 w = show_nat (unat w)"

text \<open>\<open>{:0w}\<close> is sign-aware: the sign comes first and counts toward the width.\<close>

definition show_nat_pad :: "nat \<Rightarrow> nat \<Rightarrow> string" where
  "show_nat_pad w n = (let s = show_nat n in replicate (w - length s) CHR ''0'' @ s)"

definition show_int_pad :: "nat \<Rightarrow> int \<Rightarrow> string" where
  "show_int_pad w i =
     (if i < 0 then CHR ''-'' # show_nat_pad (w - 1) (nat (- i)) else show_nat_pad w (nat i))"

section \<open>Parsing integers\<close>

text \<open>\<open>parse_digits\<close> reads a whole string of decimal digits; the empty string is an error.\<close>

fun parse_digits_from :: "nat \<Rightarrow> string \<Rightarrow> nat option" where
  "parse_digits_from acc [] = Some acc"
| "parse_digits_from acc (c # cs) =
     (case digit_val c of None \<Rightarrow> None | Some d \<Rightarrow> parse_digits_from (10 * acc + d) cs)"

definition parse_digits :: "string \<Rightarrow> nat option" where
  "parse_digits s = (if s = [] then None else parse_digits_from 0 s)"

text \<open>
  \<open>str::parse::<i64>\<close>: an optional sign, then digits; a value outside the type is an error.
  The unsigned types take no minus sign.
\<close>

definition parse_i64 :: "string \<Rightarrow> i64 option" where
  "parse_i64 s =
     (case s of
        [] \<Rightarrow> None
      | c # cs \<Rightarrow>
          let (neg, ds) = (if c = CHR ''-'' then (True, cs)
                           else if c = CHR ''+'' then (False, cs) else (False, s))
          in case parse_digits ds of
               None \<Rightarrow> None
             | Some n \<Rightarrow> (let i = (if neg then - int n else int n) in if in_i64 i then Some i else None))"

definition parse_u64 :: "string \<Rightarrow> u64 option" where
  "parse_u64 s =
     (case s of
        [] \<Rightarrow> None
      | c # cs \<Rightarrow>
          (case parse_digits (if c = CHR ''+'' then cs else s) of
             None \<Rightarrow> None
           | Some n \<Rightarrow> if n < 2 ^ 64 then Some (of_nat n) else None))"

section \<open>Byte-wise string operations\<close>

text \<open>\<open>s.split(c).next()\<close>: the part before the first \<open>c\<close>, the whole string if there is none.\<close>

definition split_first :: "char \<Rightarrow> string \<Rightarrow> string" where
  "split_first c s = takeWhile (\<lambda>x. x \<noteq> c) s"

definition starts_with :: "string \<Rightarrow> string \<Rightarrow> bool" where
  "starts_with s p = prefix p s"

definition ends_with :: "string \<Rightarrow> string \<Rightarrow> bool" where
  "ends_with s p = suffix p s"

definition strip_suffix :: "string \<Rightarrow> string \<Rightarrow> string option" where
  "strip_suffix s p = (if suffix p s then Some (take (length s - length p) s) else None)"

text \<open>
  \<open>s.get(..n)\<close> is \<open>None\<close> when the string is shorter or \<open>n\<close> is not a character boundary:
  a UTF-8 continuation byte (binary \<open>10xxxxxx\<close>) is not the start of a character.
\<close>

definition is_char_boundary :: "string \<Rightarrow> nat \<Rightarrow> bool" where
  "is_char_boundary s n =
     (n = length s \<or> (n < length s \<and> \<not> (128 \<le> (of_char (s ! n) :: nat) \<and> (of_char (s ! n) :: nat) < 192)))"

definition get_prefix :: "nat \<Rightarrow> string \<Rightarrow> string option" where
  "get_prefix n s = (if is_char_boundary s n then Some (take n s) else None)"

definition hex_digit :: "nat \<Rightarrow> char" where
  "hex_digit d = (if d < 10 then char_of (48 + d) else char_of (87 + d))"

text \<open>\<open>hex::encode\<close>: two lowercase digits for a byte.\<close>

definition hex_encode :: "bytes \<Rightarrow> string" where
  "hex_encode bs = concat (map (\<lambda>b. [hex_digit (unat b div 16), hex_digit (unat b mod 16)]) bs)"

section \<open>Round trips\<close>

lemma digit_val_digit_char [simp]: "d < 10 \<Longrightarrow> digit_val (digit_char d) = Some d"
  by (simp add: digit_val_def digit_char_def)

lemma digit_chars [simp]:
  "digit_char 0 = CHR ''0''" "digit_char (Suc 0) = CHR ''1''" "digit_char 2 = CHR ''2''"
  "digit_char 3 = CHR ''3''" "digit_char 4 = CHR ''4''" "digit_char 5 = CHR ''5''"
  "digit_char 6 = CHR ''6''" "digit_char 7 = CHR ''7''" "digit_char 8 = CHR ''8''"
  "digit_char 9 = CHR ''9''"
  by (simp_all add: digit_char_def char_of_def bit_0)

lemma digit_val_seps [simp]:
  "digit_val CHR ''-'' = None" "digit_val CHR ''+'' = None"
  "digit_val CHR ''.'' = None" "digit_val CHR ''@'' = None"
  by (simp_all add: digit_val_def)

lemma digit_char_neqI: "digit_val c = None \<Longrightarrow> d < 10 \<Longrightarrow> digit_char d \<noteq> c"
  by (metis digit_val_digit_char option.distinct(1))

lemmas digit_char_neq [simp] =
  digit_char_neqI [of "CHR ''-''", OF digit_val_seps(1)]
  digit_char_neqI [of "CHR ''+''", OF digit_val_seps(2)]
  digit_char_neqI [of "CHR ''.''", OF digit_val_seps(3)]
  digit_char_neqI [of "CHR ''@''", OF digit_val_seps(4)]

lemma parse_digits_from_append:
  "parse_digits_from acc (xs @ ys) =
     (case parse_digits_from acc xs of None \<Rightarrow> None | Some m \<Rightarrow> parse_digits_from m ys)"
  by (induction xs arbitrary: acc) (auto split: option.splits)

lemma show_nat_not_Nil [simp]: "show_nat n \<noteq> []"
  by (subst show_nat.simps) simp

lemma parse_digits_from_show_nat: "parse_digits_from 0 (show_nat n) = Some n"
proof (induction n rule: show_nat.induct)
  case (1 n)
  show ?case
  proof (cases "n < 10")
    case True
    then show ?thesis by (simp add: show_nat.simps [of n])
  next
    case False
    with 1 have "parse_digits_from 0 (show_nat (n div 10)) = Some (n div 10)" by simp
    with False show ?thesis
      by (simp add: show_nat.simps [of n] parse_digits_from_append)
  qed
qed

lemma parse_digits_show_nat [simp]: "parse_digits (show_nat n) = Some n"
  by (simp add: parse_digits_def parse_digits_from_show_nat)

lemma show_nat_inject [simp]: "show_nat m = show_nat n \<longleftrightarrow> m = n"
  by (metis parse_digits_show_nat option.inject)

lemma show_nat_digits: "\<forall>c \<in> set (show_nat n). \<exists>d < 10. c = digit_char d"
proof (induction n rule: show_nat.induct)
  case (1 n)
  show ?case
  proof (cases "n < 10")
    case True
    then show ?thesis by (auto simp: show_nat.simps [of n])
  next
    case False
    then have "show_nat n = show_nat (n div 10) @ [digit_char (n mod 10)]"
      by (simp add: show_nat.simps [of n])
    moreover have "\<exists>d < 10. digit_char (n mod 10) = digit_char d"
      by (rule exI [of _ "n mod 10"]) simp
    ultimately show ?thesis using 1 False by auto
  qed
qed

lemma show_nat_no_sep:
  "CHR ''-'' \<notin> set (show_nat n)" "CHR ''+'' \<notin> set (show_nat n)"
  "CHR ''.'' \<notin> set (show_nat n)" "CHR ''@'' \<notin> set (show_nat n)"
  using show_nat_digits [of n] by (auto dest!: bspec) (metis digit_char_neq)+

lemma hd_show_nat: "hd (show_nat n) \<noteq> CHR ''-''" "hd (show_nat n) \<noteq> CHR ''+''"
  using show_nat_no_sep [of n] by (metis hd_in_set show_nat_not_Nil)+

lemma parse_i64_show_int: "in_i64 i \<Longrightarrow> parse_i64 (show_int i) = Some i"
proof (cases "i < 0")
  case True
  moreover assume "in_i64 i"
  ultimately show ?thesis
    by (simp add: parse_i64_def show_int_def)
next
  case False
  assume "in_i64 i"
  moreover obtain c cs where "show_nat (nat i) = c # cs"
    by (meson neq_Nil_conv show_nat_not_Nil)
  ultimately show ?thesis
    using False hd_show_nat [of "nat i"] parse_digits_show_nat [of "nat i"]
    by (simp add: parse_i64_def show_int_def)
qed

lemma parse_u64_show_u64: "parse_u64 (show_u64 w) = Some w"
proof -
  obtain c cs where s: "show_nat (unat w) = c # cs"
    by (meson neq_Nil_conv show_nat_not_Nil)
  moreover have "unat w < 2 ^ 64"
    using unsigned_less [of w] by simp
  ultimately show ?thesis
    using hd_show_nat [of "unat w"] parse_digits_show_nat [of "unat w"]
    by (simp add: parse_u64_def show_u64_def)
qed

lemma show_int_no_sep: "CHR ''.'' \<notin> set (show_int i)" "CHR ''@'' \<notin> set (show_int i)"
  using show_nat_no_sep by (auto simp: show_int_def)

lemma digit_char_not_hash: "d < 10 \<Longrightarrow> digit_char d \<noteq> CHR ''#''"
  by (rule digit_char_neqI) (simp_all add: digit_val_def)

lemma show_int_no_hash: "CHR ''#'' \<notin> set (show_int i)"
proof -
  have "CHR ''#'' \<notin> set (show_nat n)" for n
    using show_nat_digits [of n] by (auto dest!: bspec) (metis digit_char_not_hash)
  then show ?thesis by (simp add: show_int_def)
qed

lemma show_int_inject [simp]: "show_int i = show_int j \<longleftrightarrow> i = j"
proof
  assume eq: "show_int i = show_int j"
  have "i < 0 \<longleftrightarrow> j < 0"
    using eq hd_show_nat by (metis list.sel(1) show_int_def)
  with eq show "i = j"
    by (auto simp: show_int_def split: if_splits)
qed simp

lemma split_first_append: "c \<notin> set xs \<Longrightarrow> split_first c (xs @ c # ys) = xs"
  by (induction xs) (auto simp: split_first_def)

lemma split_first_none: "c \<notin> set xs \<Longrightarrow> split_first c xs = xs"
  by (induction xs) (auto simp: split_first_def)

text \<open>Strings cut at a separator that neither left part contains are cut at the same place.\<close>

lemma split_at_sep_eq:
  fixes c :: char
  assumes "xs @ c # ys = us @ c # vs" and "c \<notin> set xs" and "c \<notin> set us"
  shows "xs = us \<and> ys = vs"
proof -
  have "split_first c (xs @ c # ys) = split_first c (us @ c # vs)"
    using assms(1) by simp
  then have "xs = us"
    using assms(2,3) by (simp add: split_first_append)
  with assms(1) show ?thesis by simp
qed

section \<open>Widths\<close>

lemma length_show_nat: "k > 0 \<Longrightarrow> n < 10 ^ k \<Longrightarrow> length (show_nat n) \<le> k"
proof (induction k arbitrary: n)
  case 0
  then show ?case by simp
next
  case (Suc k)
  show ?case
  proof (cases "n < 10")
    case True
    then show ?thesis by (simp add: show_nat.simps [of n])
  next
    case False
    then have "k > 0" using Suc.prems by (cases k) auto
    moreover have "n div 10 < 10 ^ k"
      using Suc.prems by (simp add: less_mult_imp_div_less mult.commute)
    ultimately have "length (show_nat (n div 10)) \<le> k"
      using Suc.IH by blast
    with False show ?thesis by (simp add: show_nat.simps [of n])
  qed
qed

lemma length_show_nat_pad: "w > 0 \<Longrightarrow> n < 10 ^ w \<Longrightarrow> length (show_nat_pad w n) = w"
  using length_show_nat [of w n] by (simp add: show_nat_pad_def Let_def)

lemma parse_digits_from_zeros:
  "parse_digits_from 0 (replicate k CHR ''0'' @ s) = parse_digits_from 0 s"
  by (induction k) (simp_all add: digit_val_def)

lemma parse_digits_show_nat_pad: "parse_digits (show_nat_pad w n) = Some n"
  by (simp add: show_nat_pad_def Let_def parse_digits_def parse_digits_from_zeros
      parse_digits_from_show_nat)

lemma show_nat_pad_inject [simp]: "show_nat_pad w m = show_nat_pad w n \<longleftrightarrow> m = n"
  by (metis parse_digits_show_nat_pad option.inject)

lemma show_nat_pad_no_sep: "CHR ''-'' \<notin> set (show_nat_pad w n)" "CHR ''@'' \<notin> set (show_nat_pad w n)"
  using show_nat_no_sep [of n] by (auto simp: show_nat_pad_def Let_def)

lemma show_int_pad_no_sep: "CHR ''@'' \<notin> set (show_int_pad w i)"
  using show_nat_pad_no_sep(2) by (auto simp: show_int_pad_def)

lemma show_int_pad_inject [simp]: "show_int_pad w i = show_int_pad w j \<longleftrightarrow> i = j"
proof
  assume eq: "show_int_pad w i = show_int_pad w j"
  have minus: "CHR ''-'' \<in> set (show_int_pad w k) \<longleftrightarrow> k < 0" for k
    using show_nat_pad_no_sep(1) by (auto simp: show_int_pad_def)
  have "i < 0 \<longleftrightarrow> j < 0" using eq minus by metis
  with eq show "i = j" by (auto simp: show_int_pad_def split: if_splits)
qed simp

section \<open>Characters outside ASCII, by their bytes\<close>

definition em_dash :: string where
  "em_dash = map char_of [0xe2 :: nat, 0x80, 0x94]"

definition right_arrow :: string where
  "right_arrow = map char_of [0xe2 :: nat, 0x86, 0x92]"

definition section_sign :: string where
  "section_sign = map char_of [0xc2 :: nat, 0xa7]"

end
