(* ===== verification/Cli_Args.thy ===== *)
theory Cli_Args
  imports Fmt
begin

text \<open>
  What the commands share (\<open>src/cli/mod.rs\<close>): the lookup of a named argument and the exit codes, which are
  the tool's contract. Printed text is not modelled, except where it is the value a command computes.
\<close>

text \<open>\<open>flag\<close>: the argument after the first occurrence of the name.\<close>

fun flag :: "string list \<Rightarrow> string \<Rightarrow> string option" where
  "flag [] name = None"
| "flag (a # args) name = (if a = name then get_at args 0 else flag args name)"

datatype exit_code = SUCCESS | FAILURE | USAGE

end
