(* ===== verification/Chain.thy ===== *)
theory Chain
  imports Prelude
begin

text \<open>
  What the three continuity checks of the crate have in common: the running-hash chain of record
  files, the block chain of the ETL pipeline and the sentinel's block-by-block check. Each compares
  neighbours only. The locale \<open>linked\<close> takes the neighbour test and the number it is supposed to
  step, and shows what the test means for a whole sequence: the numbers are consecutive, so the
  sequence has no gap, no repetition and one possible order, and sequences checked separately are
  one checked sequence exactly when the seam between them is.
\<close>

fun chained :: "('a \<Rightarrow> 'a \<Rightarrow> bool) \<Rightarrow> 'a list \<Rightarrow> bool" where
  "chained link (x # y # zs) \<longleftrightarrow> link x y \<and> chained link (y # zs)"
| "chained link _ \<longleftrightarrow> True"

lemma chained_windows2: "chained link xs \<longleftrightarrow> list_all (\<lambda>(p, n). link p n) (windows2 xs)"
  by (induction link xs rule: chained.induct) simp_all

lemma chained_Cons: "chained link (x # ys) \<longleftrightarrow> (ys = [] \<or> link x (hd ys)) \<and> chained link ys"
  by (cases ys) simp_all

lemma chained_append:
  "chained link (xs @ ys) \<longleftrightarrow>
     chained link xs \<and> chained link ys \<and> (xs = [] \<or> ys = [] \<or> link (last xs) (hd ys))"
proof (induction xs)
  case Nil
  then show ?case by simp
next
  case (Cons x xs)
  show ?case
  proof (cases xs)
    case Nil
    then show ?thesis by (auto simp: chained_Cons)
  next
    case (Cons y zs)
    with Cons.IH show ?thesis by auto
  qed
qed

lemma chained_nth: "chained link xs \<Longrightarrow> Suc i < length xs \<Longrightarrow> link (xs ! i) (xs ! Suc i)"
proof -
  assume "chained link xs" and "Suc i < length xs"
  moreover from \<open>Suc i < length xs\<close> have "(xs ! i, xs ! Suc i) \<in> set (windows2 xs)"
    by (auto simp: set_windows2)
  ultimately show ?thesis by (auto simp: chained_windows2 list_all_iff)
qed

locale linked =
  fixes link :: "'a \<Rightarrow> 'a \<Rightarrow> bool"
    and number :: "'a \<Rightarrow> int"
  assumes link_number: "link p n \<Longrightarrow> number n = number p + 1"
begin

lemma chained_numbers: "chained link xs \<Longrightarrow> i < length xs \<Longrightarrow> number (xs ! i) = number (hd xs) + int i"
proof (induction i)
  case 0
  then show ?case by (simp add: hd_conv_nth)
next
  case (Suc i)
  then have "number (xs ! i) = number (hd xs) + int i" by simp
  moreover have "number (xs ! Suc i) = number (xs ! i) + 1"
    using chained_nth [OF Suc.prems] by (rule link_number)
  ultimately show ?case by simp
qed

text \<open>No gap, no repetition: the numbers are those from the first on.\<close>

lemma chained_numbers_list: "chained link (x # xs) \<Longrightarrow>
  map number (x # xs) = map (\<lambda>i. number x + int i) [0..<length (x # xs)]"
proof (rule nth_equalityI)
  fix i
  assume ch: "chained link (x # xs)" and i: "i < length (map number (x # xs))"
  then have "map number (x # xs) ! i = number ((x # xs) ! i)" by (intro nth_map) simp
  also have "\<dots> = number x + int i" using chained_numbers [OF ch, of i] i by simp
  also have "\<dots> = map (\<lambda>i. number x + int i) [0..<length (x # xs)] ! i"
    using i by (simp del: upt_Suc)
  finally show "map number (x # xs) ! i = map (\<lambda>i. number x + int i) [0..<length (x # xs)] ! i" .
qed simp

lemma chained_distinct: "chained link xs \<Longrightarrow> distinct (map number xs)"
  by (simp add: distinct_conv_nth chained_numbers)

text \<open>One order: of all the arrangements of the same files, at most one passes.\<close>

lemma chained_arrangement_unique:
  assumes "chained link xs" "chained link ys" "set xs = set ys"
  shows "xs = ys"
proof (cases xs)
  case Nil
  with assms(3) show ?thesis by simp
next
  case (Cons x xs')
  then have ne: "xs \<noteq> []" "ys \<noteq> []" using assms(3) by auto
  have card: "length zs = card (number ` set zs)" if "chained link zs" for zs
    using distinct_card [OF chained_distinct [OF that]] by simp
  then have len: "length xs = length ys" using assms by simp
  have le: "number (hd us) \<le> number (hd vs)" if "chained link us" "us \<noteq> []" "vs \<noteq> []" "set us = set vs" for us vs
  proof -
    have "hd vs \<in> set us" using that by simp
    then obtain i where "i < length us" "us ! i = hd vs" by (auto simp: in_set_conv_nth)
    with chained_numbers [OF that(1), of i] show ?thesis by simp
  qed
  have hd: "number (hd xs) = number (hd ys)"
    using le [of xs ys] le [of ys xs] assms ne by simp
  show ?thesis
  proof (rule nth_equalityI [OF len])
    fix i assume i: "i < length xs"
    then have "xs ! i \<in> set ys" using assms(3) by (metis nth_mem)
    then obtain j where j: "j < length ys" "ys ! j = xs ! i" by (auto simp: in_set_conv_nth)
    then have "i = j"
      using chained_numbers [OF assms(1) i] chained_numbers [OF assms(2) j(1)] hd by simp
    with j show "xs ! i = ys ! i" by simp
  qed
qed

end

end
