(* ===== verification/Transaction.thy ===== *)
theory Transaction
  imports Fmt "HOL-Library.Product_Lexorder"
begin

text \<open>
  The transaction vocabulary of both eras, \<open>src/transaction.rs\<close>: entity ids with their derived
  order and their \<open>shard.realm.num\<close> text, transfer legs, the canonical \<open>ParsedTransaction\<close>, and
  the epoch-to-date conversion. \<open>day_from_seconds\<close> is checked against the Gregorian calendar:
  \<open>next_day\<close> is the calendar written from its rules, and the conversion steps through it day by
  day from 1970-01-01.
\<close>

section \<open>Entity ids\<close>

datatype account_id = Account_Id (shard_num: i64) (realm_num: i64) (account_num: i64)

datatype token_id = Token_Id (token_shard_num: i64) (token_realm_num: i64) (token_num: i64)

text \<open>\<open>derive(PartialOrd, Ord)\<close>: the fields in order.\<close>

instantiation account_id :: linorder
begin

definition less_eq_account_id :: "account_id \<Rightarrow> account_id \<Rightarrow> bool" where
  "less_eq_account_id a b \<longleftrightarrow>
     (shard_num a, realm_num a, account_num a) \<le> (shard_num b, realm_num b, account_num b)"

definition less_account_id :: "account_id \<Rightarrow> account_id \<Rightarrow> bool" where
  "less_account_id a b \<longleftrightarrow>
     (shard_num a, realm_num a, account_num a) < (shard_num b, realm_num b, account_num b)"

instance
  by standard (auto simp: less_eq_account_id_def less_account_id_def intro: account_id.expand)

end

instantiation token_id :: linorder
begin

definition less_eq_token_id :: "token_id \<Rightarrow> token_id \<Rightarrow> bool" where
  "less_eq_token_id a b \<longleftrightarrow>
     (token_shard_num a, token_realm_num a, token_num a) \<le> (token_shard_num b, token_realm_num b, token_num b)"

definition less_token_id :: "token_id \<Rightarrow> token_id \<Rightarrow> bool" where
  "less_token_id a b \<longleftrightarrow>
     (token_shard_num a, token_realm_num a, token_num a) < (token_shard_num b, token_realm_num b, token_num b)"

instance
  by standard (auto simp: less_eq_token_id_def less_token_id_def intro: token_id.expand)

end

text \<open>\<open>Display\<close>: the same text for accounts and for tokens.\<close>

definition dotted :: "int \<Rightarrow> int \<Rightarrow> int \<Rightarrow> string" where
  "dotted a b c = show_int a @ CHR ''.'' # show_int b @ CHR ''.'' # show_int c"

definition fmt_account_id :: "account_id \<Rightarrow> string" where
  "fmt_account_id a = dotted (shard_num a) (realm_num a) (account_num a)"

definition fmt_token_id :: "token_id \<Rightarrow> string" where
  "fmt_token_id t = dotted (token_shard_num t) (token_realm_num t) (token_num t)"

section \<open>Transfers and transactions\<close>

record transfer_leg =
  leg_account :: string
  leg_amount :: i64

record token_transfer_leg =
  ttleg_token :: string
  ttleg_account :: string
  ttleg_amount :: i64

record nft_transfer =
  sender :: "account_id option"
  receiver :: "account_id option"
  token :: token_id
  serial_number :: i64
  is_approval :: bool

record parsed_transaction =
  consensus_timestamp :: string
  day :: string
  payer :: string
  transaction_id :: string
  tx_type :: string
  result_code :: i32
  result_name :: string
  charged_fee_tinybar :: u64
  transfers :: "transfer_leg list"
  token_transfers :: "token_transfer_leg list"
  nft_transfers :: "nft_transfer list"

section \<open>Epoch seconds to a date\<close>

text \<open>
  The year of an era and the day of the year from the day of the era, month and day from the day
  of the year, as the code computes them. All its divisions here have non-negative operands, and
  its two Euclidean divisions have positive divisors, so each is \<open>div\<close> and \<open>mod\<close>.
\<close>

definition yoe_of :: "int \<Rightarrow> int" where
  "yoe_of doe = (doe - doe div 1460 + doe div 36524 - doe div 146096) div 365"

definition doy_of :: "int \<Rightarrow> int" where
  "doy_of doe = (let yoe = yoe_of doe in doe - (365 * yoe + yoe div 4 - yoe div 100))"

definition month_day :: "int \<Rightarrow> int \<times> int" where
  "month_day doy =
     (let mp = (5 * doy + 2) div 153;
          d = doy - (153 * mp + 2) div 5 + 1;
          m = (if mp < 10 then mp + 3 else mp - 9)
      in (m, d))"

definition civil_from_days :: "int \<Rightarrow> int \<times> int \<times> int" where
  "civil_from_days days =
     (let z = days + 719468;
          era = z div 146097;
          doe = z mod 146097;
          y = yoe_of doe + era * 400;
          (m, d) = month_day (doy_of doe)
      in (if m \<le> 2 then y + 1 else y, m, d))"

definition day_from_seconds :: "i64 \<Rightarrow> string" where
  "day_from_seconds seconds =
     (case civil_from_days (seconds div 86400) of
        (y, m, d) \<Rightarrow> show_int_pad 4 y @ CHR ''-'' # show_int_pad 2 m @ CHR ''-'' # show_int_pad 2 d)"

definition day_of :: "string \<Rightarrow> string" where
  "day_of ts =
     (let seconds = (case parse_i64 (split_first CHR ''.'' ts) of Some s \<Rightarrow> s | None \<Rightarrow> 0)
      in day_from_seconds seconds)"

section \<open>The Gregorian calendar\<close>

definition leap :: "int \<Rightarrow> bool" where
  "leap y \<longleftrightarrow> y mod 4 = 0 \<and> (y mod 100 \<noteq> 0 \<or> y mod 400 = 0)"

definition month_length :: "int \<Rightarrow> int \<Rightarrow> int" where
  "month_length y m =
     (if m = 2 then (if leap y then 29 else 28) else if m \<in> {4, 6, 9, 11} then 30 else 31)"

fun next_day :: "int \<times> int \<times> int \<Rightarrow> int \<times> int \<times> int" where
  "next_day (y, m, d) =
     (if d < month_length y m then (y, m, d + 1) else if m < 12 then (y, m + 1, 1) else (y + 1, 1, 1))"

definition valid_date :: "int \<times> int \<times> int \<Rightarrow> bool" where
  "valid_date ymd = (case ymd of (y, m, d) \<Rightarrow> 1 \<le> m \<and> m \<le> 12 \<and> 1 \<le> d \<and> d \<le> month_length y m)"

text \<open>The first day, within an era, of the year that begins in March.\<close>

definition year_start :: "int \<Rightarrow> int" where
  "year_start y = 365 * y + y div 4 - y div 100 + y div 400"

definition year_index :: "int \<Rightarrow> int" where
  "year_index doe = doe - doe div 1460 + doe div 36524 - doe div 146096"

lemma diff_div_mono:
  fixes d e n :: int
  assumes "d \<le> e" "0 < n"
  shows "d - d div n \<le> e - e div n"
proof -
  have "e \<le> d + (e - d) * n"
    using mult_mono [of 1 n "e - d" "e - d"] assms by (simp add: mult.commute)
  then have "e div n \<le> (d + (e - d) * n) div n"
    using assms by (intro zdiv_mono1) simp_all
  then show ?thesis using assms by simp
qed

lemma year_index_mono: "d \<le> e \<Longrightarrow> year_index d \<le> year_index e"
proof -
  assume le: "d \<le> e"
  have q: "x div 146096 = x div 36524 div 4" for x :: int
    using zdiv_zmult2_eq [of 4 x 36524] by simp
  have "d div 36524 \<le> e div 36524" using le by (intro zdiv_mono1) simp_all
  then have "d div 36524 - d div 36524 div 4 \<le> e div 36524 - e div 36524 div 4"
    by (rule diff_div_mono) simp
  moreover have "d - d div 1460 \<le> e - e div 1460"
    using le by (rule diff_div_mono) simp
  ultimately have "(d - d div 1460) + (d div 36524 - d div 36524 div 4) \<le>
      (e - e div 1460) + (e div 36524 - e div 36524 div 4)" by (rule add_mono [rotated])
  then show ?thesis by (simp only: year_index_def q add_diff_eq)
qed

text \<open>The quotients in the index of a day that lies in the year \<open>y\<close> of the era.\<close>

lemma div_between: "k * n \<le> x \<Longrightarrow> x < (k + 1) * n \<Longrightarrow> x div n = k" for k n x :: int
  by (intro int_div_pos_eq [of x n k "x - k * n"]) (auto simp: algebra_simps)

lemma div_succ:
  fixes y n :: int
  assumes "0 < n"
  shows "(y + 1) div n = y div n + (if (y + 1) mod n = 0 then 1 else 0)"
proof -
  have y: "y = y div n * n + y mod n" by simp
  have m: "0 \<le> y mod n" "y mod n < n" using assms by simp_all
  show ?thesis
  proof (cases "y mod n = n - 1")
    case True
    then have e: "y + 1 = (y div n + 1) * n" using y by (simp only: distrib_right)
    have "(y + 1) div n = y div n + 1" unfolding e using assms by simp
    moreover have "(y + 1) mod n = 0" unfolding e by simp
    ultimately show ?thesis by simp
  next
    case False
    with m have lt: "y mod n + 1 < n" by simp
    have "(y + 1) mod n = (y mod n + 1) mod n" by (simp add: mod_simps)
    also have "\<dots> = y mod n + 1" using m lt by (intro mod_pos_pos_trivial) simp_all
    finally have "(y + 1) mod n \<noteq> 0" using m by simp
    moreover have "(y + 1) div n = y div n"
    proof (rule div_between)
      show "y div n * n \<le> y + 1" using y m by linarith
      have "(y div n + 1) * n = y div n * n + n" by (simp add: distrib_right)
      then show "y + 1 < (y div n + 1) * n" using y lt by linarith
    qed
    ultimately show ?thesis by simp
  qed
qed

lemma year_length: "year_start (y + 1) = year_start y + (if leap (y + 1) then 366 else 365)"
proof -
  let ?b = "\<lambda>P. if P then 1 else (0 :: int)"
  have shape: "365 * (y + 1) + (a + u) - (b + v) + (c + w) = 365 * y + a - b + c + (365 + u - v + w)"
    for a b c u v w :: int by simp
  have "year_start (y + 1) = year_start y +
      (365 + ?b ((y + 1) mod 4 = 0) - ?b ((y + 1) mod 100 = 0) + ?b ((y + 1) mod 400 = 0))"
    unfolding year_start_def div_succ [of 4 y, simplified] div_succ [of 100 y, simplified]
      div_succ [of 400 y, simplified] shape by (rule refl)
  moreover have "(y + 1) mod 100 = 0 \<Longrightarrow> (y + 1) mod 4 = 0" "(y + 1) mod 400 = 0 \<Longrightarrow> (y + 1) mod 100 = 0"
    using mod_mod_cancel [of 4 100 "y + 1"] mod_mod_cancel [of 100 400 "y + 1"] by simp_all
  ultimately show ?thesis
    by (cases "(y + 1) mod 4 = 0"; cases "(y + 1) mod 100 = 0"; cases "(y + 1) mod 400 = 0")
      (simp_all only: leap_def if_True if_False simp_thms)
qed

lemma year_index_first:
  fixes a b c r y d :: int
  assumes "y = 4 * a + b" "0 \<le> b" "b \<le> 3" "y = 100 * c + r" "0 \<le> r" "r \<le> 99" "0 \<le> c" "c \<le> 3"
    and "365 * y + a - c \<le> d" "d < 365 * y + a - c + 365 + (if r \<le> 98 then 1 else 0)"
  shows "d div 36524 = c" "d div 146096 = 0" "a \<le> d div 1460" "b = 3 \<Longrightarrow> 365 * y + a - c + 365 \<le> d \<Longrightarrow> a + 1 \<le> d div 1460"
    "d = 365 * y + a - c \<Longrightarrow> d div 1460 = a"
proof -
  have e: "4 * a + b = 100 * c + r" using assms(1,4) by simp
  have r: "4 * a - 100 * c \<le> r" using e assms(2) by linarith
  have ac: "25 * c \<le> a" "a \<le> 99" using e assms(2,3,5-8) by linarith+
  have "a \<le> 25 * c + 24" using r assms(6) by linarith
  note r = r ac this
  have "r \<le> 98 \<and> d < 365 * y + a - c + 366 \<or> r = 99 \<and> d < 365 * y + a - c + 365"
    using assms(6,10) by (cases "r \<le> 98") simp_all
  then have "d < 36524 * c + 36524 \<and> d < 146096"
    using assms(4-9) r by (elim disjE; elim conjE; intro conjI; linarith)
  then have ub: "d < 36524 * c + 36524" "d < 146096" by blast+
  have lb: "36524 * c \<le> d" "0 \<le> d" using assms(4-9) r by linarith+
  show "d div 36524 = c"
    using ub lb by (intro div_between) simp_all
  show "d div 146096 = 0"
    using ub lb by (intro div_between) simp_all
  have "a * 1460 \<le> d" using assms r by linarith
  then show "a \<le> d div 1460" using zdiv_mono1 [of "a * 1460" d 1460] by simp
  show "a + 1 \<le> d div 1460" if "b = 3" "365 * y + a - c + 365 \<le> d"
  proof -
    have "1460 * a + 1460 \<le> d" using that assms(1,7,8) r by linarith
    then have "(a + 1) * 1460 \<le> d" by simp
    then show ?thesis using zdiv_mono1 [of "(a + 1) * 1460" d 1460] by simp
  qed
  show "d div 1460 = a" if "d = 365 * y + a - c"
  proof (rule div_between)
    show "a * 1460 \<le> d" using that assms r by linarith
    have "d < 1460 * a + 1460" using that assms(1-4,7,8) r by linarith
    then show "d < (a + 1) * 1460" by simp
  qed
qed

lemma year_index_bounds:
  assumes "0 \<le> y" "y \<le> 399"
  shows "365 * y \<le> year_index (year_start y)" "year_index (year_start (y + 1) - 1) < 365 * (y + 1)"
proof -
  have split: "\<exists>q s. q = y div n \<and> y = n * q + s \<and> 0 \<le> s \<and> s \<le> n - 1" if "0 < n" for n :: int
    using that by (intro exI [of _ "y div n"] exI [of _ "y mod n"]) simp
  obtain a b where ab: "a = y div 4" "y = 4 * a + b" "0 \<le> b" "b \<le> 3"
    using split [of 4] by auto
  obtain c r where cr: "c = y div 100" "y = 100 * c + r" "0 \<le> r" "r \<le> 99"
    using split [of 100] by auto
  have c: "0 \<le> c" "c \<le> 3" using cr(2,3,4) assms by linarith+
  have "y div 400 = 0" using assms by simp
  then have s: "year_start y = 365 * y + a - c" by (simp add: year_start_def ab(1) cr(1))
  note idx = year_index_first [OF ab(2,3,4) cr(2,3,4) c]
  have "year_index (365 * y + a - c) = 365 * y"
    using idx(1,2,5) [of "365 * y + a - c"] by (simp add: year_index_def)
  then show "365 * y \<le> year_index (year_start y)" by (simp add: s)
  show "year_index (year_start (y + 1) - 1) < 365 * (y + 1)"
  proof (cases "leap (y + 1)")
    case False
    have "year_index (365 * y + a - c + 364) < 365 * (y + 1)"
      using idx(1,2,3) [of "365 * y + a - c + 364"] by (cases "r \<le> 98") (simp_all add: year_index_def)
    moreover have "year_start (y + 1) - 1 = 365 * y + a - c + 364"
      using False by (simp add: year_length s)
    ultimately show ?thesis by (simp only:)
  next
    case leap: True
    show ?thesis
    proof (cases "y = 399")
      case True
      then show ?thesis by (simp add: year_start_def year_index_def)
    next
      case False
      have "r \<noteq> 99"
      proof
        assume "r = 99"
        then have "y + 1 = 100 * (c + 1)" using cr(2) by simp
        moreover have "c = 0 \<or> c = 1 \<or> c = 2" using False c cr(2) \<open>r = 99\<close> by auto
        ultimately show False using leap by (auto simp: leap_def)
      qed
      then have r: "r \<le> 98" using cr(4) by simp
      have "(4 * a + b + 1) mod 4 = 0" using leap by (simp add: leap_def ab(2) [symmetric])
      then have b: "b = 3" using ab(3,4) by presburger
      have "year_index (365 * y + a - c + 365) < 365 * (y + 1)"
        using idx(1,2,4) [of "365 * y + a - c + 365"] r b by (simp add: year_index_def)
      moreover have "year_start (y + 1) - 1 = 365 * y + a - c + 365"
        using leap by (simp add: year_length s)
      ultimately show ?thesis by (simp only:)
    qed
  qed
qed

lemma year_cases:
  assumes "0 \<le> doe" "doe < 146097"
  shows "\<exists>y. 0 \<le> y \<and> y \<le> 399 \<and> year_start y \<le> doe \<and> doe < year_start (y + 1)"
proof -
  have "doe < year_start (int n) \<Longrightarrow>
      \<exists>y. 0 \<le> y \<and> y < int n \<and> year_start y \<le> doe \<and> doe < year_start (y + 1)" for n
  proof (induction n)
    case 0
    then show ?case using assms by (simp add: year_start_def)
  next
    case (Suc n)
    show ?case
    proof (cases "doe < year_start (int n)")
      case True
      with Suc.IH obtain y where "0 \<le> y" "y < int n" "year_start y \<le> doe" "doe < year_start (y + 1)"
        by blast
      then show ?thesis by (intro exI [of _ y]) simp
    next
      case False
      with Suc.prems show ?thesis by (intro exI [of _ "int n"]) (simp add: add.commute)
    qed
  qed
  moreover have "doe < year_start (int 400)" using assms by (simp add: year_start_def)
  ultimately obtain y where "0 \<le> y" "y < 400" "year_start y \<le> doe" "doe < year_start (y + 1)"
    by (metis of_nat_numeral)
  then show ?thesis by (intro exI [of _ y]) simp
qed

lemma yoe_doy:
  assumes "0 \<le> y" "y \<le> 399" "year_start y \<le> doe" "doe < year_start (y + 1)"
  shows "yoe_of doe = y" "doy_of doe = doe - year_start y"
proof -
  have "365 * y \<le> year_index doe"
    using year_index_bounds(1) [OF assms(1,2)] year_index_mono [OF assms(3)] by linarith
  moreover have "year_index doe < 365 * (y + 1)"
    using year_index_bounds(2) [OF assms(1,2)] year_index_mono [of doe "year_start (y + 1) - 1"] assms(4) by linarith
  ultimately show yoe: "yoe_of doe = y"
    unfolding yoe_of_def year_index_def by (intro div_between) (simp_all add: mult.commute)
  show "doy_of doe = doe - year_start y"
    using assms(1,2) by (simp add: doy_of_def yoe year_start_def)
qed

text \<open>The days of a year that begins in March.\<close>

definition march_date :: "int \<Rightarrow> int \<Rightarrow> int \<times> int \<times> int" where
  "march_date y doy = (case month_day doy of (m, d) \<Rightarrow> (if m \<le> 2 then y + 1 else y, m, d))"

lemma month_day_step:
  assumes "0 \<le> doy" "doy < 364" "month_day doy = (m, d)" "month_day (doy + 1) = (m', d')"
  shows "1 \<le> m" "m \<le> 12" "1 \<le> d" "d \<le> month_length 1 m" "m = 2 \<longrightarrow> d < 28"
    "if d < month_length 1 m then m' = m \<and> d' = d + 1
       else if m < 12 then m' = m + 1 \<and> d' = 1 \<and> (m' \<le> 2 \<longleftrightarrow> m \<le> 2) else m' = 1 \<and> d' = 1"
proof -
  define k where "k = (5 * doy + 2) div 153"
  have k: "153 * k \<le> 5 * doy + 2" "5 * doy + 2 < 153 * k + 153" by (simp_all add: k_def)
  have nxt: "(5 * (doy + 1) + 2) div 153 = (if 5 * doy + 7 < 153 * k + 153 then k else k + 1)"
    using k by (auto intro!: div_between)
  have "0 \<le> k" "k \<le> 11" using k assms(1,2) by linarith+
  then have "k = 0 \<or> k = 1 \<or> k = 2 \<or> k = 3 \<or> k = 4 \<or> k = 5 \<or> k = 6 \<or> k = 7 \<or> k = 8 \<or> k = 9 \<or> k = 10 \<or> k = 11"
    by presburger
  then have "1 \<le> m \<and> m \<le> 12 \<and> 1 \<le> d \<and> d \<le> month_length 1 m \<and> (m = 2 \<longrightarrow> d < 28) \<and>
    (if d < month_length 1 m then m' = m \<and> d' = d + 1
       else if m < 12 then m' = m + 1 \<and> d' = 1 \<and> (m' \<le> 2 \<longleftrightarrow> m \<le> 2) else m' = 1 \<and> d' = 1)"
    using assms k unfolding month_day_def nxt k_def [symmetric] Let_def
    by (elim disjE) (auto simp: month_length_def leap_def)
  then show "1 \<le> m" "m \<le> 12" "1 \<le> d" "d \<le> month_length 1 m" "m = 2 \<longrightarrow> d < 28"
    "if d < month_length 1 m then m' = m \<and> d' = d + 1
       else if m < 12 then m' = m + 1 \<and> d' = 1 \<and> (m' \<le> 2 \<longleftrightarrow> m \<le> 2) else m' = 1 \<and> d' = 1"
    by blast+
qed

lemma month_length_common: "m \<noteq> 2 \<Longrightarrow> month_length y m = month_length 1 m"
  by (simp add: month_length_def)

lemma march_date_step:
  assumes "0 \<le> doy" "doy < 364"
  shows "next_day (march_date y doy) = march_date y (doy + 1) \<and> valid_date (march_date y doy)"
proof -
  obtain m d m' d' where md: "month_day doy = (m, d)" "month_day (doy + 1) = (m', d')"
    by (cases "month_day doy"; cases "month_day (doy + 1)")
  note t = month_day_step [OF assms md]
  have ml: "28 \<le> month_length Y 2" for Y by (simp add: month_length_def)
  show ?thesis
  proof (cases "m = 2")
    case True
    with t(5) have "d < 28" by simp
    then have "d < month_length 1 m" "d < month_length (y + 1) 2"
      using True ml [of 1] ml [of "y + 1"] by simp_all
    with True t show ?thesis by (simp add: march_date_def md valid_date_def)
  next
    case False
    then have ml: "month_length Y m = month_length 1 m" for Y by (rule month_length_common)
    show ?thesis
    proof (cases "d < month_length 1 m")
      case True
      then have "d < month_length y m" "d < month_length (y + 1) m"
        using ml [of y] ml [of "y + 1"] by simp_all
      with True t show ?thesis by (auto simp: march_date_def md valid_date_def)
    next
      case False
      then have "d = month_length y m" "d = month_length (y + 1) m"
        using ml [of y] ml [of "y + 1"] t(4) by simp_all
      with False t show ?thesis by (auto simp: march_date_def md valid_date_def split: if_splits)
    qed
  qed
qed

lemma march_date_end:
  "march_date y 364 = (y + 1, 2, 28)" "march_date y 365 = (y + 1, 2, 29)" "march_date y 0 = (y, 3, 1)"
  by (simp_all add: march_date_def month_day_def)

text \<open>One step of the conversion, from one year and day of the year to the next.\<close>

lemma leap_period: "leap (y + era * 400) = leap y"
proof -
  have "(y + era * 400) mod 4 = y mod 4" using mod_mult_self1 [of y "era * 100" 4] by (simp add: mult.commute)
  moreover have "(y + era * 400) mod 100 = y mod 100" using mod_mult_self1 [of y "era * 4" 100] by (simp add: mult.commute)
  ultimately show ?thesis by (simp add: leap_def)
qed

lemma march_year_step:
  assumes "0 \<le> doy" "doy < (if leap (y + 1) then 366 else 365)"
  shows "valid_date (march_date y doy) \<and> next_day (march_date y doy) =
    (if doy + 1 < (if leap (y + 1) then 366 else 365) then march_date y (doy + 1) else march_date (y + 1) 0)"
proof -
  consider "doy < 364" | "doy = 364" | "doy = 365" "leap (y + 1)"
    using assms(2) by (cases "leap (y + 1)"; simp; linarith)
  then show ?thesis
  proof cases
    case 1
    with march_date_step [OF assms(1) 1] show ?thesis by auto
  qed (simp_all add: march_date_end valid_date_def month_length_def)
qed

lemma civil_from_days_march:
  assumes "0 \<le> y" "y \<le> 399" "year_start y \<le> doe" "doe < year_start (y + 1)" "days + 719468 = doe + era * 146097"
    and "0 \<le> doe" "doe < 146097"
  shows "civil_from_days days = march_date (y + era * 400) (doe - year_start y)"
proof -
  have "(days + 719468) div 146097 = era" "(days + 719468) mod 146097 = doe"
    using assms(5-7) by simp_all
  then show ?thesis
    using yoe_doy [OF assms(1-4)]
    by (cases "month_day (doe - year_start y)") (simp add: civil_from_days_def march_date_def Let_def)
qed

lemma civil_from_days_step:
  "valid_date (civil_from_days n) \<and> civil_from_days (n + 1) = next_day (civil_from_days n)"
proof -
  define era doe where "era = (n + 719468) div 146097" and "doe = (n + 719468) mod 146097"
  have doe: "0 \<le> doe" "doe < 146097" "n + 719468 = doe + era * 146097"
    by (simp_all add: era_def doe_def)
  obtain y where y: "0 \<le> y" "y \<le> 399" "year_start y \<le> doe" "doe < year_start (y + 1)"
    using year_cases [OF doe(1,2)] by blast
  let ?Y = "y + era * 400" and ?doy = "doe - year_start y"
  have now: "civil_from_days n = march_date ?Y ?doy"
    by (rule civil_from_days_march [OF y doe(3,1,2)])
  have len: "year_start (y + 1) = year_start y + (if leap (?Y + 1) then 366 else 365)"
    using year_length [of y] leap_period [of "y + 1" era] by (simp add: ac_simps)
  have step: "valid_date (march_date ?Y ?doy) \<and> next_day (march_date ?Y ?doy) =
      (if ?doy + 1 < (if leap (?Y + 1) then 366 else 365) then march_date ?Y (?doy + 1) else march_date (?Y + 1) 0)"
    using y len by (intro march_year_step) linarith+
  have "civil_from_days (n + 1) =
      (if ?doy + 1 < (if leap (?Y + 1) then 366 else 365) then march_date ?Y (?doy + 1) else march_date (?Y + 1) 0)"
  proof (cases "doe + 1 < year_start (y + 1)")
    case True
    have "doe + 1 < 146097"
    proof -
      have "year_start (y + 1) \<le> 146097"
        using y(2) zdiv_mono1 [of "y + 1" 400 4] zdiv_mono1 [of "y + 1" 400 400]
          diff_div_mono [of "y + 1" 400 100]
        by (simp add: year_start_def)
      with True show ?thesis by linarith
    qed
    then have "civil_from_days (n + 1) = march_date ?Y (doe + 1 - year_start y)"
      using y True doe by (intro civil_from_days_march) simp_all
    with True len show ?thesis by (simp add: algebra_simps)
  next
    case False
    then have last: "doe + 1 = year_start (y + 1)" using y(4) by linarith
    have "civil_from_days (n + 1) = march_date (?Y + 1) 0"
    proof (cases "y = 399")
      case True
      then have "doe + 1 = 146097" using last by (simp add: year_start_def)
      then have "civil_from_days (n + 1) = march_date (0 + (era + 1) * 400) (0 - year_start 0)"
        using doe(3) by (intro civil_from_days_march) (simp_all add: year_start_def algebra_simps)
      with True show ?thesis by (simp add: year_start_def algebra_simps)
    next
      case False
      have "year_start (y + 1 + 1) = year_start (y + 1) + (if leap (y + 1 + 1) then 366 else 365)"
        by (rule year_length)
      moreover have "doe + 1 < 146097"
      proof -
        have "year_start (y + 1) \<le> year_start 399"
          using y(2) False zdiv_mono1 [of "y + 1" 399 4] zdiv_mono1 [of "y + 1" 399 400]
            diff_div_mono [of "y + 1" 399 100]
          by (simp add: year_start_def)
        with last show ?thesis by (simp add: year_start_def)
      qed
      ultimately have "civil_from_days (n + 1) = march_date (y + 1 + era * 400) (doe + 1 - year_start (y + 1))"
        using y False doe last by (intro civil_from_days_march) simp_all
      with last show ?thesis by (simp add: algebra_simps)
    qed
    moreover have "\<not> ?doy + 1 < (if leap (?Y + 1) then 366 else 365)" using last len by linarith
    ultimately show ?thesis by simp
  qed
  with step show ?thesis by (simp add: now)
qed

section \<open>Timestamps and days\<close>

text \<open>No arithmetic of the conversion leaves \<open>i64\<close>.\<close>

lemma day_from_seconds_in_i64:
  assumes "in_i64 seconds"
  defines "z \<equiv> seconds div 86400 + 719468"
  shows "in_i64 (z div 146097 * 400 + 401)" "in_i64 (z div 146097 * 400)" "in_i64 z"
proof -
  have s: "- 9223372036854775808 \<le> seconds" "seconds < 9223372036854775808"
    using assms(1) by (simp_all add: in_i64_def)
  have "- 106751991167301 \<le> seconds div 86400"
    using zdiv_mono1 [OF s(1), of 86400] by simp
  moreover have "seconds div 86400 \<le> 106751991167300"
    using zdiv_mono1 [of seconds 9223372036854775807 86400] s(2) by simp
  ultimately have z: "- 106751990447833 \<le> z" "z \<le> 106751991886768"
    by (simp_all add: z_def)
  then show "in_i64 z" by (simp add: in_i64_def)
  have "- 730692557 \<le> z div 146097" using zdiv_mono1 [OF z(1), of 146097] by simp
  moreover have "z div 146097 \<le> 730692566" using zdiv_mono1 [OF z(2), of 146097] by simp
  ultimately show "in_i64 (z div 146097 * 400 + 401)" "in_i64 (z div 146097 * 400)"
    by (simp_all add: in_i64_def)
qed

lemma fmt_account_id_inject: "fmt_account_id a = fmt_account_id b \<longleftrightarrow> a = b"
proof
  assume "fmt_account_id a = fmt_account_id b"
  then have e: "show_int (shard_num a) @ CHR ''.'' # (show_int (realm_num a) @ CHR ''.'' # show_int (account_num a)) =
      show_int (shard_num b) @ CHR ''.'' # (show_int (realm_num b) @ CHR ''.'' # show_int (account_num b))"
    by (simp add: fmt_account_id_def dotted_def)
  note one = split_at_sep_eq [OF e show_int_no_sep(1) show_int_no_sep(1)]
  from split_at_sep_eq [OF conjunct2 [OF one] show_int_no_sep(1) show_int_no_sep(1)] one
  show "a = b" by (auto intro: account_id.expand)
qed simp

section \<open>The theorems\<close>

text \<open>C37. Day by day through the calendar: day 0 of the epoch is 1970-01-01, every day is a valid
  Gregorian date, and the day after any day, before or after the epoch, is the calendar's next
  day (months of 28 to 31 days, leap years by the 4, 100 and 400 rules).\<close>

theorem civil_from_days_calendar:
  "civil_from_days 0 = (1970, 1, 1) \<and>
   (\<forall>n. valid_date (civil_from_days n) \<and> civil_from_days (n + 1) = next_day (civil_from_days n))"
proof -
  have "civil_from_days 0 = (1970, 1, 1)" by code_simp
  with civil_from_days_step show ?thesis by blast
qed

text \<open>The public \<open>day_of\<close>, which parses the timestamp string again, gives the day the parsers
  compute from the seconds they already hold, for every timestamp they print.\<close>

theorem day_of_printed_timestamp:
  assumes "in_i64 seconds"
  shows "day_of (show_int seconds @ CHR ''.'' # nanos) = day_from_seconds seconds"
  using parse_i64_show_int [OF assms] show_int_no_sep(1) [of seconds]
  by (simp add: day_of_def split_first_append)

lemma day_of_printed_timestamp_witness: "day_of ''1709164800.000000000'' = ''2024-02-29''"
proof -
  have "show_int 1709164800 = ''1709164800''" by (simp add: show_int_def show_nat.simps)
  moreover have "civil_from_days 19782 = (2024, 2, 29)" by code_simp
  then have "day_from_seconds 1709164800 = ''2024-02-29''"
    by (simp add: day_from_seconds_def show_int_pad_def show_nat_pad_def show_nat.simps)
  ultimately show ?thesis
    using day_of_printed_timestamp [of 1709164800 "''000000000''"] by (simp add: in_i64_def)
qed

text \<open>Entity ids print without loss: two accounts have the same text only when they are equal.\<close>

theorem account_id_text_injective: "fmt_account_id a = fmt_account_id b \<longleftrightarrow> a = b"
  by (rule fmt_account_id_inject)

end
