(* ===== verification/Proto.thy ===== *)
theory Proto
  imports Prelude
begin

text \<open>
  What the crate takes from outside its own sources. The protobuf messages are Rust structs that
  prost generates from \<open>proto/\<close> (record era) and \<open>proto-hapi/\<close> (block era) at build time; the
  records below have the fields the crate reads, under the message's name as a prefix. The two
  vendored trees agree on these fields, so one record serves both eras; the decoders are separate.

  The record \<open>externals\<close> holds every third-party function the modelled code calls: gzip
  (\<open>flate2\<close>), SHA-384 (\<open>sha2\<close>), the generated decoders and \<open>Debug\<close> renderings, the response-code
  names, hex and RSA. Nothing is assumed of them here. What a theorem needs of one of them is a
  named predicate in its hypotheses, and \<open>demo\<close> is a concrete instance that satisfies them all.
\<close>

section \<open>Messages of both eras\<close>

record timestamp =
  ts_seconds :: i64
  ts_nanos :: i32

datatype account_oneof = AccountNum i64 | Alias bytes

record account_message =
  acc_shard_num :: i64
  acc_realm_num :: i64
  acc_account :: "account_oneof option"

record token_message =
  tok_shard_num :: i64
  tok_realm_num :: i64
  tok_token_num :: i64

record transaction_id_message =
  txid_account_id :: "account_message option"
  txid_valid_start :: "timestamp option"

record account_amount =
  aa_account_id :: "account_message option"
  aa_amount :: i64

record nft_transfer_message =
  nft_sender :: "account_message option"
  nft_receiver :: "account_message option"
  nft_serial :: i64
  nft_approval :: bool

record token_transfer_list =
  ttl_token :: "token_message option"
  ttl_transfers :: "account_amount list"
  ttl_nft_transfers :: "nft_transfer_message list"

type_synonym transfer_list = "account_amount list"

record semantic_version =
  sv_major :: i32
  sv_minor :: i32
  sv_patch :: i32

record node_contribution_message =
  ncm_node_id :: u64
  ncm_weight :: u64
  ncm_history_proof_key :: bytes

record ledger_id_publication =
  pub_ledger_id :: bytes
  pub_history_proof_verification_key :: bytes
  pub_node_contributions :: "node_contribution_message list"

text \<open>The \<open>data\<close> oneof of a body: the one case the crate looks into, and the other cases by the
  name of their Rust variant and their encoded message.\<close>

datatype body_data = LedgerIdPublication ledger_id_publication | Other_Data string bytes

record transaction_body =
  tb_transaction_id :: "transaction_id_message option"
  tb_data :: "body_data option"

section \<open>Record-era messages\<close>

record transaction_message =
  tx_body :: "transaction_body option"
  tx_body_bytes :: bytes
  tx_signed_transaction_bytes :: bytes

record transaction_record =
  rec_receipt_status :: "i32 option"
  rec_consensus_timestamp :: "timestamp option"
  rec_transaction_id :: "transaction_id_message option"
  rec_transaction_fee :: u64
  rec_transfer_list :: "transfer_list option"
  rec_token_transfer_lists :: "token_transfer_list list"

record record_stream_item =
  rsi_transaction :: "transaction_message option"
  rsi_record :: "transaction_record option"

text \<open>A \<open>HashObject\<close> is its \<open>hash\<close> bytes.\<close>

record record_stream_file =
  rsf_hapi_proto_version :: "semantic_version option"
  rsf_start_object_running_hash :: "bytes option"
  rsf_record_stream_items :: "record_stream_item list"
  rsf_end_object_running_hash :: "bytes option"
  rsf_block_number :: i64

record signature_object =
  so_signature :: bytes
  so_hash_object :: "bytes option"

record signature_file_message =
  sf_file_signature :: "signature_object option"
  sf_metadata_signature :: "signature_object option"

record node_address =
  na_node_account_id :: "account_message option"
  na_rsa_pub_key :: string

section \<open>Block-era messages\<close>

record transaction_result =
  tr_status :: i32
  tr_consensus_timestamp :: "timestamp option"
  tr_transaction_fee_charged :: u64
  tr_transfer_list :: "transfer_list option"
  tr_token_transfer_lists :: "token_transfer_list list"

record block_header =
  bh_number :: u64
  bh_hapi_proto_version :: "semantic_version option"
  bh_block_timestamp :: "timestamp option"

record block_footer =
  bf_previous_block_root_hash :: bytes
  bf_root_hash_of_all_block_hashes_tree :: bytes
  bf_start_of_block_state_root_hash :: bytes

text \<open>\<open>SignedBlockProof\<close> carries the packed \<open>block_signature\<close>; the other proofs are not read. An
  \<open>EventHeader\<close> is the creator of its event core, when it has one.\<close>

datatype block_proof = SignedBlockProof bytes | Other_Proof

datatype item =
    BlockHeader block_header
  | EventHeader "i64 option"
  | RoundHeader u64
  | SignedTransaction bytes
  | TransactionResult transaction_result
  | BlockProof "block_proof option"
  | BlockFooter block_footer
  | Other_Item

section \<open>Third-party functions\<close>

text \<open>
  \<open>gz_take b n\<close> is \<open>GzDecoder::new(b).take(n).read_to_end\<close>, \<open>gz_exact b n\<close> is \<open>read_exact\<close> into
  a buffer of \<open>n\<close> bytes. A \<open>Block\<close> is the list of its items' oneofs. \<open>debug_data\<close> is the
  sequence of strings the derived \<open>Debug\<close> writes. An RSA key is its DER encoding.
\<close>

record externals =
  gz_take :: "bytes \<Rightarrow> nat \<Rightarrow> io_error + bytes"
  gz_exact :: "bytes \<Rightarrow> nat \<Rightarrow> io_error + bytes"
  sha384 :: "bytes \<Rightarrow> bytes"
  dec_record_stream_file :: "bytes \<Rightarrow> decode_error + record_stream_file"
  dec_signature_file :: "bytes \<Rightarrow> decode_error + signature_file_message"
  dec_node_address_book :: "bytes \<Rightarrow> decode_error + node_address list"
  dec_signed_transaction :: "bytes \<Rightarrow> decode_error + bytes"
  dec_transaction_body :: "bytes \<Rightarrow> decode_error + transaction_body"
  dec_hapi_signed_transaction :: "bytes \<Rightarrow> decode_error + bytes"
  dec_hapi_transaction_body :: "bytes \<Rightarrow> decode_error + transaction_body"
  dec_block :: "bytes \<Rightarrow> decode_error + item option list"
  dec_block_item :: "bytes \<Rightarrow> decode_error + item option"
  enc_timestamp :: "timestamp \<Rightarrow> bytes"
  debug_data :: "body_data \<Rightarrow> string list"
  debug_hapi_data :: "body_data \<Rightarrow> string list"
  response_code :: "i32 \<Rightarrow> string option"
  hapi_response_code :: "i32 \<Rightarrow> string option"
  hex_decode :: "string \<Rightarrow> string + bytes"
  rsa_key_from_der :: "bytes \<Rightarrow> string + bytes"
  rsa_signature_from :: "bytes \<Rightarrow> bytes option"
  rsa_verify :: "bytes \<Rightarrow> bytes \<Rightarrow> bytes \<Rightarrow> bool"

section \<open>What the code relies on\<close>

text \<open>A limited read never gives more than its limit, and every reader of one gzip stream sees the
  same bytes: \<open>read_exact\<close> gives the first bytes of what \<open>read_to_end\<close> gives, and fails when the
  whole stream is shorter than its buffer.\<close>

definition gzip_laws :: "externals \<Rightarrow> bool" where
  "gzip_laws E \<longleftrightarrow>
     (\<forall>b n out. gz_take E b n = Inr out \<longrightarrow> length out \<le> n) \<and>
     (\<forall>b n k out. gz_take E b n = Inr out \<longrightarrow> k \<le> length out \<longrightarrow> gz_exact E b k = Inr (take k out)) \<and>
     (\<forall>b n k out. gz_take E b n = Inr out \<longrightarrow> length out < n \<longrightarrow> length out < k \<longrightarrow>
        (\<exists>e. gz_exact E b k = Inl e))"

text \<open>The derived \<open>Debug\<close> of a tuple variant writes its name and then a parenthesis; the names are
  Rust identifiers, so they have none of the delimiters.\<close>

fun variant_name :: "body_data \<Rightarrow> string" where
  "variant_name (LedgerIdPublication _) = ''LedgerIdPublication''"
| "variant_name (Other_Data v _) = v"

definition is_delimiter :: "char \<Rightarrow> bool" where
  "is_delimiter c \<longleftrightarrow> c = CHR ''('' \<or> c = CHR '' '' \<or> c = CHR ''{''"

definition derived_debug :: "(body_data \<Rightarrow> string list) \<Rightarrow> body_data \<Rightarrow> bool" where
  "derived_debug dbg d \<longleftrightarrow>
     variant_name d \<noteq> [] \<and> list_all (\<lambda>c. \<not> is_delimiter c) (variant_name d) \<and>
     (\<exists>payload. concat (dbg d) = variant_name d @ CHR ''('' # payload)"

section \<open>A concrete instance\<close>

text \<open>
  \<open>demo\<close> is a small total instance for evaluating the model: gzip payloads are stored after a
  ten-byte header, the hash pads or cuts its input to 48 bytes, the decoders read nothing, and a
  signature verifies when it is the key followed by the hash. It shows that the laws above can
  hold together; it is not meant to describe the real functions.
\<close>

definition demo_hash :: "bytes \<Rightarrow> bytes" where
  "demo_hash b = take 48 (b @ replicate 48 0)"

definition demo :: externals where
  "demo = \<lparr>
     gz_take = (\<lambda>b n. Inr (take n (drop 10 b))),
     gz_exact = (\<lambda>b k. if k \<le> length (drop 10 b) then Inr (take k (drop 10 b)) else Inl ''failed to fill whole buffer''),
     sha384 = demo_hash,
     dec_record_stream_file = (\<lambda>_. Inr \<lparr>rsf_hapi_proto_version = None, rsf_start_object_running_hash = None,
        rsf_record_stream_items = [], rsf_end_object_running_hash = None, rsf_block_number = 0\<rparr>),
     dec_signature_file = (\<lambda>b. Inr \<lparr>sf_file_signature = Some \<lparr>so_signature = b, so_hash_object = Some b\<rparr>,
        sf_metadata_signature = None\<rparr>),
     dec_node_address_book = (\<lambda>_. Inr []),
     dec_signed_transaction = (\<lambda>b. Inr b),
     dec_transaction_body = (\<lambda>_. Inl ''invalid wire type''),
     dec_hapi_signed_transaction = (\<lambda>b. Inr b),
     dec_hapi_transaction_body = (\<lambda>_. Inl ''invalid wire type''),
     dec_block = (\<lambda>_. Inr []),
     dec_block_item = (\<lambda>_. Inr None),
     enc_timestamp = (\<lambda>_. []),
     debug_data = (\<lambda>d. [variant_name d, ''('', '')'']),
     debug_hapi_data = (\<lambda>d. [variant_name d, ''('', '')'']),
     response_code = (\<lambda>n. if n = 22 then Some ''SUCCESS'' else None),
     hapi_response_code = (\<lambda>n. if n = 22 then Some ''SUCCESS'' else None),
     hex_decode = (\<lambda>s. Inr (map (\<lambda>c. of_nat (of_char c)) s)),
     rsa_key_from_der = (\<lambda>b. Inr b),
     rsa_signature_from = (\<lambda>b. Some b),
     rsa_verify = (\<lambda>key h sig. sig = key @ h)\<rparr>"

lemma gzip_laws_demo: "gzip_laws demo"
  by (auto simp: gzip_laws_def demo_def)

lemma length_demo_hash [simp]: "length (demo_hash b) = 48"
  by (simp add: demo_hash_def)

end
