(* ===== verification/Wire.thy ===== *)
theory Wire
  imports Fmt
begin

text \<open>
  \<open>src/block/wire.rs\<close>: the shallow protobuf scan of a \<open>Block\<close> message. The scan walks the
  wire format just far enough to slice out the exact bytes of every \<open>BlockItem\<close> and to tell
  which oneof field each one carries; payloads are not decoded. Offsets into the input are
  \<open>nat\<close>s; a length read from the input is a \<open>u64\<close>.

  The locale \<open>reader\<close> is the contract between the two primitive reads and the scanning loops:
  a read that succeeds advances, stays inside the input, and depends only on the bytes it
  consumed. The loops terminate because of it, and the lemmas about them use nothing else.
\<close>

section \<open>Field numbers (\<open>block_item.proto\<close>)\<close>

abbreviation (input) F_BLOCK_HEADER :: u64 where "F_BLOCK_HEADER \<equiv> 1"
abbreviation (input) F_EVENT_HEADER :: u64 where "F_EVENT_HEADER \<equiv> 2"
abbreviation (input) F_ROUND_HEADER :: u64 where "F_ROUND_HEADER \<equiv> 3"
abbreviation (input) F_SIGNED_TRANSACTION :: u64 where "F_SIGNED_TRANSACTION \<equiv> 4"
abbreviation (input) F_TRANSACTION_RESULT :: u64 where "F_TRANSACTION_RESULT \<equiv> 5"
abbreviation (input) F_TRANSACTION_OUTPUT :: u64 where "F_TRANSACTION_OUTPUT \<equiv> 6"
abbreviation (input) F_STATE_CHANGES :: u64 where "F_STATE_CHANGES \<equiv> 7"
abbreviation (input) F_FILTERED_SINGLE_ITEM :: u64 where "F_FILTERED_SINGLE_ITEM \<equiv> 8"
abbreviation (input) F_BLOCK_PROOF :: u64 where "F_BLOCK_PROOF \<equiv> 9"
abbreviation (input) F_RECORD_FILE :: u64 where "F_RECORD_FILE \<equiv> 10"
abbreviation (input) F_TRACE_DATA :: u64 where "F_TRACE_DATA \<equiv> 11"
abbreviation (input) F_BLOCK_FOOTER :: u64 where "F_BLOCK_FOOTER \<equiv> 12"
abbreviation (input) F_REDACTED_ITEM :: u64 where "F_REDACTED_ITEM \<equiv> 19"

record scanned_item =
  field_number :: u64
  item_bytes :: bytes

section \<open>The primitive reads\<close>

text \<open>
  One iteration of the loop of \<open>read_varint\<close> per call: \<open>shift\<close> is the \<open>u32\<close> of the source
  (it only ever holds 0, 7, ..., 70) and \<open>value\<close> the accumulator. \<open>push_bit\<close> on a word drops
  the bits that leave it, as Rust's \<open><<\<close> does.
\<close>

function read_varint_loop :: "bytes \<Rightarrow> nat \<Rightarrow> nat \<Rightarrow> u64 \<Rightarrow> (u64 \<times> nat) result" where
  "read_varint_loop bytes offset shift value =
     (case get_at bytes offset of
        None \<Rightarrow> Inl (Proof ''truncated varint'')
      | Some byte \<Rightarrow>
          let value' = value OR push_bit shift (ucast (byte AND 0x7f));
              offset' = offset + 1
          in if byte AND 0x80 = 0 then Inr (value', offset')
             else if shift + 7 > 63 then Inl (Proof ''varint exceeds 64 bits'')
             else read_varint_loop bytes offset' (shift + 7) value')"
  by pat_completeness auto
termination
  by (relation "measure (\<lambda>(bytes, offset, shift, value). 64 - shift)") auto

declare read_varint_loop.simps [simp del]

definition read_varint :: "bytes \<Rightarrow> nat \<Rightarrow> (u64 \<times> nat) result" where
  "read_varint bytes offset = read_varint_loop bytes offset 0 0"

text \<open>\<open>usize::try_from(length)\<close> cannot fail on a 64-bit target.\<close>

definition read_length_delimited :: "bytes \<Rightarrow> nat \<Rightarrow> (bytes \<times> nat) result" where
  "read_length_delimited bytes offset =
     and_then (read_varint bytes offset) (\<lambda>(length, start).
     and_then (ok_or (Proof ''length overflow'') (checked_add_usize start (unat length))) (\<lambda>end.
       if end > List.length bytes
       then Inl (Proof ''length-delimited field exceeds available bytes'')
       else Inr (slice start end bytes, end)))"

section \<open>The contract of a read\<close>

text \<open>
  What the scanning loops rely on: a successful read moves forward inside the input
  (\<open>progress\<close>), reads nothing beyond the position it returns (\<open>prefix_only\<close>), and does
  not depend on where in memory its input starts (\<open>relocate\<close>; the limit is the address
  space, which \<open>checked_add\<close> guards).
\<close>

locale reader =
  fixes rd :: "bytes \<Rightarrow> nat \<Rightarrow> ('v \<times> nat) result"
  assumes progress: "rd bs i = Inr (v, j) \<Longrightarrow> i < j \<and> j \<le> length bs"
    and prefix_only: "rd bs i = Inr (v, j) \<Longrightarrow> j \<le> length cs \<Longrightarrow> take j cs = take j bs \<Longrightarrow>
      rd cs i = Inr (v, j)"
    and relocate: "rd bs i = Inr (v, j) \<Longrightarrow> length ps + j < usize_limit \<Longrightarrow>
      rd (ps @ bs) (length ps + i) = Inr (v, length ps + j)"

text \<open>Reading values back to back until the end of the input: the abstract scanning loop.\<close>

inductive reads :: "(bytes \<Rightarrow> nat \<Rightarrow> ('v \<times> nat) result) \<Rightarrow> bytes \<Rightarrow> nat \<Rightarrow> 'v list \<Rightarrow> bool"
  for rd bs where
  reads_done: "length bs \<le> i \<Longrightarrow> reads rd bs i []"
| reads_step: "i < length bs \<Longrightarrow> rd bs i = Inr (v, j) \<Longrightarrow> reads rd bs j vs \<Longrightarrow> reads rd bs i (v # vs)"

inductive_cases reads_NilE: "reads rd bs i []"
inductive_cases reads_ConsE: "reads rd bs i (v # vs)"
inductive_simps reads_Nil_iff: "reads rd bs i []"
inductive_simps reads_Cons_iff: "reads rd bs i (v # vs)"

context reader
begin

lemma extend: "rd bs i = Inr (v, j) \<Longrightarrow> rd (bs @ zs) i = Inr (v, j)"
  by (rule prefix_only [of bs]) (auto dest: progress)

lemma consumed_prefix: "rd bs i = Inr (v, j) \<Longrightarrow> rd (take j bs) i = Inr (v, j)"
  by (rule prefix_only [of bs]) (auto dest: progress)

lemma reads_det: "reads rd bs i vs \<Longrightarrow> reads rd bs i ws \<Longrightarrow> ws = vs"
proof (induction arbitrary: ws rule: reads.induct)
  case (reads_done i)
  from reads_done.prems reads_done.hyps show ?case
    by (cases rule: reads.cases) auto
next
  case (reads_step i v j vs)
  from reads_step.prems obtain us where "ws = v # us" "reads rd bs j us"
    using reads_step.hyps(1,2) by (cases rule: reads.cases) auto
  then show ?case using reads_step.IH by simp
qed

text \<open>Every value read takes at least one byte.\<close>

lemma reads_length: "reads rd bs i vs \<Longrightarrow> i \<le> length bs \<Longrightarrow> length vs + i \<le> length bs"
proof (induction rule: reads.induct)
  case (reads_done i)
  then show ?case by simp
next
  case (reads_step i v j vs)
  then show ?case using progress [OF reads_step.hyps(2)] by simp
qed

lemma reads_extend:
  "reads rd bs i vs \<Longrightarrow> i \<le> length bs \<Longrightarrow> reads rd (bs @ zs) (length bs) ws \<Longrightarrow>
     reads rd (bs @ zs) i (vs @ ws)"
proof (induction rule: reads.induct)
  case (reads_done i)
  then show ?case by simp
next
  case (reads_step i v j vs)
  have "j \<le> length bs" using progress [OF reads_step.hyps(2)] by simp
  then show ?case
    using reads_step extend [OF reads_step.hyps(2)] by (auto intro!: reads.reads_step)
qed

lemma reads_relocate:
  "reads rd bs i vs \<Longrightarrow> length ps + length bs < usize_limit \<Longrightarrow> reads rd (ps @ bs) (length ps + i) vs"
proof (induction rule: reads.induct)
  case (reads_done i)
  then show ?case by (auto intro: reads.reads_done)
next
  case (reads_step i v j vs)
  have "length ps + j < usize_limit"
    using progress [OF reads_step.hyps(2)] reads_step.prems by simp
  then show ?case
    using reads_step relocate [OF reads_step.hyps(2)] by (auto intro!: reads.reads_step)
qed

text \<open>The reads of a concatenation are the concatenated reads.\<close>

lemma reads_append:
  assumes "reads rd bs 0 vs" and "reads rd cs 0 ws" and "length bs + length cs < usize_limit"
  shows "reads rd (bs @ cs) 0 (vs @ ws)"
proof -
  have "reads rd (bs @ cs) (length bs) ws"
    using reads_relocate [OF assms(2,3)] by simp
  then show ?thesis using reads_extend [OF assms(1)] by simp
qed

end

text \<open>Two reads one after the other are again a read with the same laws.\<close>

definition then_read :: "(bytes \<Rightarrow> nat \<Rightarrow> ('v \<times> nat) result) \<Rightarrow> (bytes \<Rightarrow> nat \<Rightarrow> ('w \<times> nat) result) \<Rightarrow>
    bytes \<Rightarrow> nat \<Rightarrow> (('v \<times> 'w) \<times> nat) result" where
  "then_read rd1 rd2 bs i =
     and_then (rd1 bs i) (\<lambda>(v, j). and_then (rd2 bs j) (\<lambda>(w, k). Inr ((v, w), k)))"

lemma then_read_Inr_iff:
  "then_read rd1 rd2 bs i = Inr (x, k) \<longleftrightarrow>
     (\<exists>j. rd1 bs i = Inr (fst x, j) \<and> rd2 bs j = Inr (snd x, k))"
  by (cases x) (force simp: then_read_def and_then_eq_Inr_iff)

locale reader_pair = first: reader rd1 + second: reader rd2 for rd1 rd2
begin

sublocale both: reader "then_read rd1 rd2"
proof
  fix bs i x k
  assume "then_read rd1 rd2 bs i = Inr (x, k)"
  then obtain j where j: "rd1 bs i = Inr (fst x, j)" "rd2 bs j = Inr (snd x, k)"
    by (auto simp: then_read_Inr_iff)
  note p = first.progress [OF j(1)] second.progress [OF j(2)]
  then show "i < k \<and> k \<le> length bs" by simp
  show "then_read rd1 rd2 cs i = Inr (x, k)"
    if "k \<le> length cs" "take k cs = take k bs" for cs
  proof -
    have "take j cs = take j bs"
      using take_eq_mono [OF that(2), of j] p by simp
    then have "rd1 cs i = Inr (fst x, j)"
      using first.prefix_only [OF j(1), of cs] that(1) p by simp
    moreover have "rd2 cs j = Inr (snd x, k)"
      by (rule second.prefix_only [OF j(2) that])
    ultimately show ?thesis by (auto simp: then_read_Inr_iff)
  qed
  show "then_read rd1 rd2 (ps @ bs) (length ps + i) = Inr (x, length ps + k)"
    if "length ps + k < usize_limit" for ps
    using first.relocate [OF j(1), of ps] second.relocate [OF j(2), of ps] p that
    by (auto simp: then_read_Inr_iff)
qed

end

section \<open>The varint reader\<close>

text \<open>One unfolding with the byte at hand; the loop equation is not a rewrite rule.\<close>

lemma read_varint_loop_at:
  assumes "get_at bs i = Some b"
  shows "read_varint_loop bs i s a =
    (let a' = a OR push_bit s (ucast (b AND 0x7f)) in
     if b AND 0x80 = 0 then Inr (a', i + 1)
     else if s + 7 > 63 then Inl (Proof ''varint exceeds 64 bits'')
     else read_varint_loop bs (i + 1) (s + 7) a')"
  using assms by (simp add: read_varint_loop.simps [of bs i s a] Let_def)

lemma read_varint_loop_Inr_cases:
  assumes "read_varint_loop bs i s a = Inr (v, j)"
  obtains (last) b where "get_at bs i = Some b" "b AND 0x80 = 0" "j = i + 1"
      "v = a OR push_bit s (ucast (b AND 0x7f))"
  | (more) b where "get_at bs i = Some b" "b AND 0x80 \<noteq> 0" "s + 7 \<le> 63"
      "read_varint_loop bs (i + 1) (s + 7) (a OR push_bit s (ucast (b AND 0x7f))) = Inr (v, j)"
proof (cases "get_at bs i")
  case None
  with assms show thesis by (simp add: read_varint_loop.simps [of bs i s a])
next
  case (Some b)
  with assms show thesis
    using that by (auto simp: read_varint_loop_at Let_def split: if_splits)
qed

lemma read_varint_loop_progress:
  "read_varint_loop bs i s a = Inr (v, j) \<Longrightarrow> s \<le> 63 \<Longrightarrow>
     i < j \<and> j \<le> length bs \<and> 7 * (j - i) + s \<le> 70"
proof (induction bs i s a rule: read_varint_loop.induct)
  case (1 bs i s a)
  from "1.prems"(1) show ?case
  proof (cases rule: read_varint_loop_Inr_cases)
    case (last b)
    then show ?thesis using "1.prems"(2) by (auto simp: get_at_Some_iff)
  next
    case (more b)
    then have "i + 1 < j \<and> j \<le> length bs \<and> 7 * (j - (i + 1)) + (s + 7) \<le> 70"
      using "1.IH" [OF more(1) refl refl more(2)] by auto
    then show ?thesis by auto
  qed
qed

lemma read_varint_loop_frame:
  "read_varint_loop bs i s a = Inr (v, j) \<Longrightarrow> s \<le> 63 \<Longrightarrow>
     (\<And>n. i \<le> n \<Longrightarrow> n < j \<Longrightarrow> get_at cs (m + n) = get_at bs n) \<Longrightarrow>
     read_varint_loop cs (m + i) s a = Inr (v, m + j)"
proof (induction bs i s a rule: read_varint_loop.induct)
  case (1 bs i s a)
  have pos: "i < j" using read_varint_loop_progress [OF "1.prems"(1,2)] by simp
  from "1.prems"(1) show ?case
  proof (cases rule: read_varint_loop_Inr_cases)
    case (last b)
    then have "get_at cs (m + i) = Some b" using "1.prems"(3) [of i] pos by simp
    with last show ?thesis by (simp add: read_varint_loop_at)
  next
    case (more b)
    have "get_at cs (m + i) = Some b" using "1.prems"(3) [of i] pos more(1) by simp
    moreover have "read_varint_loop cs (m + (i + 1)) (s + 7)
        (a OR push_bit s (ucast (b AND 0x7f))) = Inr (v, m + j)"
      using "1.IH" [OF more(1) refl refl more(2)] more(3,4) "1.prems"(3) by simp
    ultimately show ?thesis using more(2,3) by (simp add: read_varint_loop_at)
  qed
qed

interpretation varint: reader read_varint
proof
  fix bs i v j
  assume r: "read_varint bs i = Inr (v, j)"
  note loop = r [unfolded read_varint_def]
  show p: "i < j \<and> j \<le> length bs"
    using read_varint_loop_progress [OF loop] by simp
  show "read_varint cs i = Inr (v, j)" if "j \<le> length cs" "take j cs = take j bs" for cs
  proof -
    have "get_at cs (0 + n) = get_at bs n" if "n < j" for n
      using get_at_take_eq [of j cs bs n] that p \<open>j \<le> length cs\<close> \<open>take j cs = take j bs\<close> by simp
    then show ?thesis
      using read_varint_loop_frame [OF loop, of cs 0] by (simp add: read_varint_def)
  qed
  show "read_varint (ps @ bs) (length ps + i) = Inr (v, length ps + j)"
    if "length ps + j < usize_limit" for ps
    using read_varint_loop_frame [OF loop, of "ps @ bs" "length ps"]
    by (simp add: read_varint_def get_at_def nth_append)
qed

lemma read_varint_at_most_10: "read_varint bs i = Inr (v, j) \<Longrightarrow> j \<le> i + 10"
  using read_varint_loop_progress [of bs i 0 0 v j] by (auto simp: read_varint_def)

section \<open>The length-delimited reader\<close>

lemma read_length_delimited_Inr_iff:
  "read_length_delimited bs i = Inr (p, k) \<longleftrightarrow>
     (\<exists>n j. read_varint bs i = Inr (n, j) \<and> k = j + unat n \<and> k < usize_limit \<and> k \<le> length bs \<and>
        p = slice j k bs)"
  by (auto simp: read_length_delimited_def and_then_eq_Inr_iff checked_add_usize_def ok_or_eq_Inr_iff
      split: if_splits) (force simp: checked_add_usize_def)+

lemma slice_cong: "take k cs = take k bs \<Longrightarrow> slice j k cs = slice j k bs"
  by (metis slice_def take_drop drop_take)

lemma slice_relocate: "slice (length ps + j) (length ps + k) (ps @ bs) = slice j k bs"
  by (simp add: slice_def)

interpretation delimited: reader read_length_delimited
proof
  fix bs i p k
  assume "read_length_delimited bs i = Inr (p, k)"
  then obtain n j where n: "read_varint bs i = Inr (n, j)" "k = j + unat n" "k < usize_limit"
      "k \<le> length bs" "p = slice j k bs"
    by (auto simp: read_length_delimited_Inr_iff)
  note pr = varint.progress [OF n(1)]
  show "i < k \<and> k \<le> length bs" using pr n by simp
  show "read_length_delimited cs i = Inr (p, k)" if "k \<le> length cs" "take k cs = take k bs" for cs
  proof -
    have "take j cs = take j bs"
      using take_eq_mono [OF that(2), of j] n(2) by simp
    then have "read_varint cs i = Inr (n, j)"
      using varint.prefix_only [OF n(1), of cs] that(1) n(2) by simp
    with n that slice_cong [OF that(2), of j] show ?thesis
      by (auto simp: read_length_delimited_Inr_iff)
  qed
  show "read_length_delimited (ps @ bs) (length ps + i) = Inr (p, length ps + k)"
    if "length ps + k < usize_limit" for ps
    using varint.relocate [OF n(1), of ps] n that
    by (auto simp: read_length_delimited_Inr_iff slice_relocate)
qed

text \<open>A field of a message, tag and payload: the pair of the two reads.\<close>

definition read_field :: "bytes \<Rightarrow> nat \<Rightarrow> ((u64 \<times> bytes) \<times> nat) result" where
  "read_field = then_read read_varint read_length_delimited"

interpretation field_pair: reader_pair read_varint read_length_delimited ..

interpretation field: reader read_field
  unfolding read_field_def by (rule field_pair.both.reader_axioms)

section \<open>The scanning loops\<close>

text \<open>
  \<open>found.replace(field_number).is_some()\<close> is the check that no field was seen before. The
  error comes after the payload has been read, so a truncated second field is reported as such.
\<close>

function scan_item_kind_loop :: "bytes \<Rightarrow> nat \<Rightarrow> u64 option \<Rightarrow> u64 result" where
  "scan_item_kind_loop item offset found =
     (if offset < length item then
        and_then (read_varint item offset) (\<lambda>(tag, after_tag).
          if tag AND 0x07 \<noteq> 2
          then Inl (Proof (''unsupported BlockItem wire type '' @ show_u64 (tag AND 0x07) @
                           '' for field '' @ show_u64 (drop_bit 3 tag)))
          else and_then (read_length_delimited item after_tag) (\<lambda>(payload, next).
            if found \<noteq> None
            then Inl (Proof ''BlockItem has multiple populated oneof fields'')
            else scan_item_kind_loop item next (Some (drop_bit 3 tag))))
      else ok_or (Proof ''empty BlockItem'') found)"
  by pat_completeness auto
termination
  by (relation "measure (\<lambda>(item, offset, found). length item - offset)")
    (auto dest!: varint.progress delimited.progress)

declare scan_item_kind_loop.simps [simp del]

definition scan_item_kind :: "bytes \<Rightarrow> u64 result" where
  "scan_item_kind item = scan_item_kind_loop item 0 None"

function scan_block_loop :: "bytes \<Rightarrow> nat \<Rightarrow> scanned_item list \<Rightarrow> scanned_item list result" where
  "scan_block_loop block offset items =
     (if offset < length block then
        and_then (read_varint block offset) (\<lambda>(tag, after_tag).
          if tag AND 0x07 \<noteq> 2
          then Inl (Proof (''unsupported Block wire type '' @ show_u64 (tag AND 0x07) @
                           '' for field '' @ show_u64 (drop_bit 3 tag)))
          else and_then (read_length_delimited block after_tag) (\<lambda>(item, next).
            and_then (if drop_bit 3 tag = 1
                      then and_then (scan_item_kind item) (\<lambda>k.
                             Inr (items @ [\<lparr>field_number = k, item_bytes = item\<rparr>]))
                      else Inr items) (\<lambda>items'.
            scan_block_loop block next items')))
      else Inr items)"
  by pat_completeness auto
termination
  by (relation "measure (\<lambda>(block, offset, items). length block - offset)")
    (auto dest!: varint.progress delimited.progress)

declare scan_block_loop.simps [simp del]

definition scan_block_items :: "bytes \<Rightarrow> scanned_item list result" where
  "scan_block_items block = scan_block_loop block 0 []"

section \<open>What the scan computes\<close>

text \<open>
  The specification of the scan, free of offsets and accumulators: the block is a sequence of
  length-delimited fields, and the items are the field-1 payloads in order, each classified by
  its one populated field.
\<close>

definition delimited_tag :: "u64 \<times> bytes \<Rightarrow> bool" where
  "delimited_tag f \<longleftrightarrow> fst f AND 0x07 = 2"

definition is_item_field :: "u64 \<times> bytes \<Rightarrow> bool" where
  "is_item_field f \<longleftrightarrow> drop_bit 3 (fst f) = 1"

definition classify :: "bytes \<Rightarrow> scanned_item result" where
  "classify item = and_then (scan_item_kind item) (\<lambda>k. Inr \<lparr>field_number = k, item_bytes = item\<rparr>)"

lemma read_field_Inr_iff:
  "read_field bs i = Inr ((tag, p), k) \<longleftrightarrow>
     (\<exists>j. read_varint bs i = Inr (tag, j) \<and> read_length_delimited bs j = Inr (p, k))"
  by (simp add: read_field_def then_read_Inr_iff)

lemma scan_item_kind_loop_step:
  "i < length item \<Longrightarrow> scan_item_kind_loop item i found = Inr k \<longleftrightarrow>
     (\<exists>tag p j. read_field item i = Inr ((tag, p), j) \<and> tag AND 0x07 = 2 \<and> found = None \<and>
        scan_item_kind_loop item j (Some (drop_bit 3 tag)) = Inr k)"
  by (auto simp: scan_item_kind_loop.simps [of item i found] and_then_eq_Inr_iff read_field_Inr_iff
      split: if_splits)

lemma scan_block_loop_step:
  "i < length block \<Longrightarrow> scan_block_loop block i items = Inr out \<longleftrightarrow>
     (\<exists>tag p j items'. read_field block i = Inr ((tag, p), j) \<and> tag AND 0x07 = 2 \<and>
        (if drop_bit 3 tag = 1 then \<exists>it. classify p = Inr it \<and> items' = items @ [it]
         else items' = items) \<and>
        scan_block_loop block j items' = Inr out)"
  by (auto simp: scan_block_loop.simps [of block i items] and_then_eq_Inr_iff read_field_Inr_iff
      classify_def split: if_splits) blast+

lemma scan_block_loop_done [simp]:
  "length block \<le> i \<Longrightarrow> scan_block_loop block i items = Inr items"
  by (simp add: scan_block_loop.simps [of block i items])

lemma scan_item_kind_loop_done [simp]:
  "length item \<le> i \<Longrightarrow> scan_item_kind_loop item i found = ok_or (Proof ''empty BlockItem'') found"
  by (simp add: scan_item_kind_loop.simps [of item i found])

text \<open>Soundness and completeness of the two loops, each by induction over the reads.\<close>

lemma scan_block_loop_complete:
  assumes "reads read_field block i fs" and "\<forall>f \<in> set fs. delimited_tag f"
    and "map_result classify (map snd (filter is_item_field fs)) = Inr new"
  shows "scan_block_loop block i items = Inr (items @ new)"
  using assms
proof (induction arbitrary: items new rule: reads.induct)
  case (reads_done i)
  then show ?case by simp
next
  case (reads_step i v j vs)
  obtain tag p where v: "v = (tag, p)" by (cases v)
  have step: "scan_block_loop block i items = Inr out \<longleftrightarrow>
      (\<exists>items'. (if drop_bit 3 tag = 1 then \<exists>it. classify p = Inr it \<and> items' = items @ [it]
         else items' = items) \<and> scan_block_loop block j items' = Inr out)" for out
    using reads_step.hyps(1,2) reads_step.prems(1) v
    by (simp add: scan_block_loop_step delimited_tag_def)
  show ?case
  proof (cases "drop_bit 3 tag = 1")
    case True
    then have isf: "is_item_field v" "snd v = p" using v by (simp_all add: is_item_field_def)
    obtain it new' where it: "classify p = Inr it" "new = it # new'"
        "map_result classify (map snd (filter is_item_field vs)) = Inr new'"
      using reads_step.prems(2) isf by (auto simp: and_then_eq_Inr_iff)
    have "scan_block_loop block j (items @ [it]) = Inr ((items @ [it]) @ new')"
      using reads_step.IH [OF _ it(3)] reads_step.prems(1) by simp
    with True it(1,2) show ?thesis by (auto simp: step)
  next
    case False
    then have nisf: "\<not> is_item_field v" using v by (simp add: is_item_field_def)
    then have "map_result classify (map snd (filter is_item_field vs)) = Inr new"
      using reads_step.prems(2) nisf by simp
    then have "scan_block_loop block j items = Inr (items @ new)"
      using reads_step.IH reads_step.prems(1) by simp
    with False show ?thesis by (simp add: step)
  qed
qed

lemma scan_block_loop_sound:
  "scan_block_loop block i items = Inr out \<Longrightarrow>
     \<exists>fs new. reads read_field block i fs \<and> (\<forall>f \<in> set fs. delimited_tag f) \<and>
        map_result classify (map snd (filter is_item_field fs)) = Inr new \<and> out = items @ new"
proof (induction "length block - i" arbitrary: i items rule: less_induct)
  case less
  show ?case
  proof (cases "i < length block")
    case False
    with less.prems have "reads read_field block i []" "out = items"
      by (auto intro: reads_done)
    then show ?thesis by (intro exI [of _ "[]"]) simp
  next
    case True
    then obtain tag p j items' where step: "read_field block i = Inr ((tag, p), j)"
        "tag AND 0x07 = 2" "scan_block_loop block j items' = Inr out"
        "if drop_bit 3 tag = 1 then \<exists>it. classify p = Inr it \<and> items' = items @ [it] else items' = items"
      using less.prems by (auto simp: scan_block_loop_step)
    have "length block - j < length block - i"
      using field.progress [OF step(1)] True by auto
    from less.hyps [OF this step(3)]
    obtain fs new where fs: "reads read_field block j fs" "\<forall>f \<in> set fs. delimited_tag f"
        "map_result classify (map snd (filter is_item_field fs)) = Inr new" "out = items' @ new"
      by blast
    have "reads read_field block i ((tag, p) # fs)"
      using True step(1) fs(1) by (rule reads_step)
    moreover have "\<forall>f \<in> set ((tag, p) # fs). delimited_tag f"
      using fs(2) step(2) by (simp add: delimited_tag_def)
    moreover have "\<exists>new'. map_result classify (map snd (filter is_item_field ((tag, p) # fs))) = Inr new'
        \<and> out = items @ new'"
      using fs(3,4) step(4) by (auto simp: is_item_field_def split: if_splits)
    ultimately show ?thesis by blast
  qed
qed

theorem scan_block_items_spec:
  "scan_block_items block = Inr items \<longleftrightarrow>
     (\<exists>fs. reads read_field block 0 fs \<and> (\<forall>f \<in> set fs. delimited_tag f) \<and>
        map_result classify (map snd (filter is_item_field fs)) = Inr items)"
proof
  assume "scan_block_items block = Inr items"
  then show "\<exists>fs. reads read_field block 0 fs \<and> (\<forall>f \<in> set fs. delimited_tag f) \<and>
        map_result classify (map snd (filter is_item_field fs)) = Inr items"
    using scan_block_loop_sound [of block 0 "[]" items] by (auto simp: scan_block_items_def)
next
  assume "\<exists>fs. reads read_field block 0 fs \<and> (\<forall>f \<in> set fs. delimited_tag f) \<and>
        map_result classify (map snd (filter is_item_field fs)) = Inr items"
  then show "scan_block_items block = Inr items"
    using scan_block_loop_complete [of block 0 _ items "[]"] by (auto simp: scan_block_items_def)
qed

lemma scan_item_kind_spec:
  "scan_item_kind item = Inr k \<longleftrightarrow>
     (\<exists>tag p. reads read_field item 0 [(tag, p)] \<and> tag AND 0x07 = 2 \<and> k = drop_bit 3 tag)"
proof (cases "0 < length item")
  case False
  then show ?thesis by (auto simp: scan_item_kind_def reads_Cons_iff)
next
  case True
  have second: "scan_item_kind_loop item j (Some k') = Inr k \<longleftrightarrow> length item \<le> j \<and> k = k'" for j k'
    by (cases "j < length item") (auto simp: scan_item_kind_loop_step)
  from True show ?thesis
    by (auto simp: scan_item_kind_def scan_item_kind_loop_step second reads_Cons_iff reads_Nil_iff)
qed

section \<open>The value of a varint\<close>

text \<open>The mathematical value of a base-128 string, least significant group first, unbounded.\<close>

fun varint_value :: "bytes \<Rightarrow> nat" where
  "varint_value [] = 0"
| "varint_value (b # bs) = unat (b AND 0x7f) + 128 * varint_value bs"

lemma or_push_bit_add:
  fixes a x :: u64
  assumes "take_bit s a = a"
  shows "a OR push_bit s x = a + push_bit s x"
proof (rule sym, rule disjunctive_add_eq_or, rule bit_eqI)
  fix n
  have "bit a n \<Longrightarrow> n < s" using assms by (metis bit_take_bit_iff)
  then show "bit (a AND push_bit s x) n = bit (0 :: u64) n"
    by (auto simp: bit_simps)
qed

lemma slice_Cons: "i < j \<Longrightarrow> i < length xs \<Longrightarrow> slice i j xs = xs ! i # slice (i + 1) j xs"
  by (simp add: slice_def Cons_nth_drop_Suc [symmetric] Suc_diff_Suc [symmetric])

lemma slice_singleton: "i < length xs \<Longrightarrow> slice i (Suc i) xs = [xs ! i]"
  by (simp add: slice_def Cons_nth_drop_Suc [symmetric])

lemma bit_0x80: "bit (0x80 :: u8) n \<longleftrightarrow> n = 7"
proof -
  have "(0x80 :: u8) = push_bit 7 1" by simp
  then have "bit (0x80 :: u8) n \<longleftrightarrow> bit (push_bit 7 1 :: u8) n" by (simp only:)
  also have "\<dots> \<longleftrightarrow> n = 7" by (simp only: bit_push_bit_iff bit_1_iff) auto
  finally show ?thesis .
qed

lemma bit_0x7f: "bit (0x7f :: u8) n \<longleftrightarrow> n < 7"
proof -
  have "(0x7f :: u8) = mask 7" by (simp add: mask_eq_exp_minus_1)
  then have "bit (0x7f :: u8) n \<longleftrightarrow> bit (mask 7 :: u8) n" by (simp only:)
  also have "\<dots> \<longleftrightarrow> n < 7" by (simp only: bit_mask_iff) auto
  finally show ?thesis .
qed

lemma bit_0x7f_u64: "bit (0x7f :: u64) n \<longleftrightarrow> n < 7"
proof -
  have "(0x7f :: u64) = mask 7" by (simp add: mask_eq_exp_minus_1)
  then have "bit (0x7f :: u64) n \<longleftrightarrow> bit (mask 7 :: u64) n" by (simp only:)
  also have "\<dots> \<longleftrightarrow> n < 7" by (simp only: bit_mask_iff) auto
  finally show ?thesis .
qed

declare bit_numeral_word_iff [simp del]

lemma take_bit_group:
  fixes a :: u64 and b :: u8
  assumes "take_bit s a = a"
  shows "take_bit (s + 7) (a OR push_bit s (ucast (b AND 0x7f))) = a OR push_bit s (ucast (b AND 0x7f))"
proof (rule bit_eqI)
  fix n
  have a: "bit a n \<Longrightarrow> n < s" for n
    using assms by (metis bit_take_bit_iff)
  have b: "bit (ucast (b AND 0x7f) :: u64) m \<Longrightarrow> m < 7" for m
  proof -
    assume "bit (ucast (b AND 0x7f) :: u64) m"
    then show "m < 7" by (simp add: bit_simps bit_0x7f)
  qed
  show "bit (take_bit (s + 7) (a OR push_bit s (ucast (b AND 0x7f)))) n =
      bit (a OR push_bit s (ucast (b AND 0x7f))) n"
    using a [of n] b [of "n - s"] by (auto simp: bit_take_bit_iff bit_or_iff bit_push_bit_iff)
qed

lemma read_varint_loop_value:
  "read_varint_loop bs i s a = Inr (v, j) \<Longrightarrow> s \<le> 63 \<Longrightarrow> take_bit s a = a \<Longrightarrow>
     v = a + push_bit s (of_nat (varint_value (slice i j bs)))"
proof (induction bs i s a rule: read_varint_loop.induct)
  case (1 bs i s a)
  let ?x = "\<lambda>b. ucast (b AND 0x7f) :: u64"
  from "1.prems"(1) show ?case
  proof (cases rule: read_varint_loop_Inr_cases)
    case (last b)
    then have "slice i j bs = [b]" by (simp add: get_at_Some_iff slice_singleton)
    then show ?thesis
      using or_push_bit_add [OF "1.prems"(3), of "?x b"] last(4) by simp
  next
    case (more b)
    let ?a = "a OR push_bit s (?x b)"
    have "i + 1 < j" using read_varint_loop_progress [OF more(4)] more(3) by simp
    then have sl: "slice i j bs = b # slice (i + 1) j bs"
      using more(1) slice_Cons [of i j bs] by (auto simp: get_at_Some_iff)
    have "v = ?a + push_bit (s + 7) (of_nat (varint_value (slice (i + 1) j bs)))"
      using "1.IH" [OF more(1) refl refl more(2)] more(3,4) take_bit_group [OF "1.prems"(3)] by simp
    also have "?a = a + push_bit s (?x b)"
      using or_push_bit_add [OF "1.prems"(3)] by simp
    finally show ?thesis
      by (simp add: sl push_bit_eq_mult power_add algebra_simps)
  qed
qed

lemma read_varint_value:
  "read_varint bs i = Inr (v, j) \<Longrightarrow> v = of_nat (varint_value (slice i j bs))"
  using read_varint_loop_value [of bs i 0 0 v j] by (simp add: read_varint_def)

section \<open>Encoding, and the round trip\<close>

text \<open>The canonical protobuf encoding of a varint, of a field and of a block of items.\<close>

function encode_varint :: "u64 \<Rightarrow> bytes" where
  "encode_varint w =
     (if w < 0x80 then [ucast w] else (ucast (w AND 0x7f) OR 0x80) # encode_varint (drop_bit 7 w))"
  by pat_completeness auto
termination
proof (relation "measure unat")
  fix w :: u64
  assume "\<not> w < 0x80"
  then have "128 \<le> unat w" by (simp add: word_less_nat_alt)
  then show "(drop_bit 7 w, w) \<in> measure unat"
    by (simp add: unsigned_drop_bit_eq drop_bit_eq_div unat_div)
qed simp

declare encode_varint.simps [simp del]

lemma encode_varint_not_Nil [simp]: "encode_varint w \<noteq> []"
  by (subst encode_varint.simps) simp

text \<open>The two kinds of bytes of an encoding: the last one, and one with the continuation bit.\<close>

lemma bit_small: "(w :: u64) < 0x80 \<Longrightarrow> bit w n \<Longrightarrow> n < 7"
proof -
  assume "w < 0x80" and "bit w n"
  have "take_bit 7 (unat w) = unat w"
    using \<open>w < 0x80\<close> by (simp add: word_less_nat_alt take_bit_nat_eq_self)
  then have "w = take_bit 7 w"
    by (simp add: word_unat_eq_iff unsigned_take_bit_eq)
  with \<open>bit w n\<close> show "n < 7" by (metis bit_take_bit_iff)
qed

lemma last_byte:
  fixes w :: u64
  assumes "w < 0x80"
  shows "(ucast w :: u8) AND 0x80 = 0" "ucast ((ucast w :: u8) AND 0x7f) = w"
proof -
  note small = bit_small [OF assms]
  show "(ucast w :: u8) AND 0x80 = 0"
    by (rule bit_eqI) (auto simp: bit_simps bit_0x80 dest: small)
  show "ucast ((ucast w :: u8) AND 0x7f) = w"
    by (rule bit_eqI) (auto simp: bit_simps bit_0x7f dest: small)
qed

lemma continuation_byte:
  fixes w :: u64
  shows "(ucast (w AND 0x7f) OR 0x80 :: u8) AND 0x80 \<noteq> 0"
    and "ucast ((ucast (w AND 0x7f) OR 0x80 :: u8) AND 0x7f) = take_bit 7 w"
proof -
  have "bit ((ucast (w AND 0x7f) OR 0x80 :: u8) AND 0x80) 7"
    by (simp add: bit_simps bit_0x80)
  then show "(ucast (w AND 0x7f) OR 0x80 :: u8) AND 0x80 \<noteq> 0" by auto
  show "ucast ((ucast (w AND 0x7f) OR 0x80 :: u8) AND 0x7f) = take_bit 7 w"
    by (rule bit_eqI) (auto simp: bit_simps bit_0x80 bit_0x7f bit_0x7f_u64)
qed

declare bit_numeral_word_iff [simp]

lemma read_varint_loop_encode:
  assumes "s \<le> 63" and "unat w < 2 ^ (64 - s)"
  shows "read_varint_loop (ps @ encode_varint w @ zs) (length ps) s a =
    Inr (a OR push_bit s w, length ps + length (encode_varint w))"
  using assms
proof (induction w arbitrary: ps s a rule: encode_varint.induct)
  case (1 w)
  show ?case
  proof (cases "w < 0x80")
    case True
    then show ?thesis
      by (simp add: encode_varint.simps [of w] read_varint_loop_at [OF get_at_append_length] last_byte)
  next
    case False
    let ?b = "ucast (w AND 0x7f) OR 0x80 :: u8"
    have "128 \<le> unat w" using False by (simp add: word_less_nat_alt)
    with "1.prems"(2) have "(2::nat) ^ 7 < 2 ^ (64 - s)" by simp
    then have "7 < 64 - s" by (rule power_less_imp_less_exp [rotated]) simp
    then have s: "s + 7 \<le> 63" by simp
    have "(2::nat) ^ (64 - s) = 2 ^ (64 - (s + 7)) * 128"
      using \<open>7 < 64 - s\<close> power_add [of "2::nat" "64 - (s + 7)" 7] by simp
    then have "unat (drop_bit 7 w) < 2 ^ (64 - (s + 7))"
      using "1.prems"(2)
      by (simp add: drop_bit_eq_div unat_div less_mult_imp_div_less)
    from "1.IH" [OF False s this, of "ps @ [?b]" "a OR push_bit s (take_bit 7 w)"]
    have "read_varint_loop ((ps @ [?b]) @ encode_varint (drop_bit 7 w) @ zs) (length (ps @ [?b])) (s + 7)
        (a OR push_bit s (take_bit 7 w)) =
      Inr ((a OR push_bit s (take_bit 7 w)) OR push_bit (s + 7) (drop_bit 7 w),
        length (ps @ [?b]) + length (encode_varint (drop_bit 7 w)))" .
    moreover have "push_bit s (take_bit 7 w) OR push_bit (s + 7) (drop_bit 7 w) = push_bit s w"
    proof (rule bit_eqI)
      fix n
      have "\<not> n - s < 7 \<Longrightarrow> s \<le> n \<Longrightarrow> 7 + (n - (s + 7)) = n - s" by simp
      then show "bit (push_bit s (take_bit 7 w) OR push_bit (s + 7) (drop_bit 7 w)) n =
          bit (push_bit s w) n"
        by (cases "n - s < 7") (auto simp: bit_simps)
    qed
    ultimately show ?thesis
      using False s
      by (simp add: encode_varint.simps [of w] read_varint_loop_at [OF get_at_append_length]
          continuation_byte or.assoc)
  qed
qed

lemma read_varint_encode:
  "read_varint (ps @ encode_varint w @ zs) (length ps) =
     Inr (w, length ps + length (encode_varint w))"
  using read_varint_loop_encode [of 0 w ps zs 0] unsigned_less [of w] by (simp add: read_varint_def)

definition encode_field :: "u64 \<times> bytes \<Rightarrow> bytes" where
  "encode_field f = encode_varint (fst f) @ encode_varint (of_nat (length (snd f))) @ snd f"

lemma encode_field_pos: "0 < length (encode_field f)"
  by (simp add: encode_field_def)

lemma read_field_encode:
  assumes "length ps + length (encode_field f) < usize_limit"
  shows "read_field (ps @ encode_field f @ zs) (length ps) = Inr (f, length ps + length (encode_field f))"
proof -
  obtain tag p where f: "f = (tag, p)" by (cases f)
  let ?t = "encode_varint tag" and ?n = "encode_varint (of_nat (length p))"
  have "read_varint ((ps @ ?t) @ ?n @ p @ zs) (length (ps @ ?t)) =
      Inr (of_nat (length p), length (ps @ ?t) + length ?n)"
    by (rule read_varint_encode)
  moreover have "unat (of_nat (length p) :: u64) = length p"
    using assms f by (simp add: encode_field_def usize_limit_def unat_of_nat)
  ultimately have "read_length_delimited (ps @ ?t @ ?n @ p @ zs) (length ps + length ?t) =
      Inr (p, length ps + length (encode_field f))"
    using assms f by (simp add: read_length_delimited_Inr_iff encode_field_def slice_def)
  then show ?thesis
    using read_varint_encode [of ps tag "?n @ p @ zs"] f
    by (simp add: read_field_Inr_iff encode_field_def)
qed

lemma reads_encode:
  "length ps + length (concat (map encode_field fs)) < usize_limit \<Longrightarrow>
     reads read_field (ps @ concat (map encode_field fs)) (length ps) fs"
proof (induction fs arbitrary: ps)
  case Nil
  then show ?case by (simp add: reads_done)
next
  case (Cons f fs)
  have "reads read_field ((ps @ encode_field f) @ concat (map encode_field fs))
      (length (ps @ encode_field f)) fs"
    using Cons.prems by (intro Cons.IH) simp
  moreover have "read_field (ps @ encode_field f @ concat (map encode_field fs)) (length ps) =
      Inr (f, length ps + length (encode_field f))"
    using Cons.prems by (intro read_field_encode) simp
  ultimately show ?case
    using encode_field_pos [of f]
    by (intro reads_step [where j = "length ps + length (encode_field f)"]) simp_all
qed

text \<open>A block item with one populated oneof field \<open>k\<close>, and a block of such items.\<close>

definition encode_item :: "u64 \<times> bytes \<Rightarrow> bytes" where
  "encode_item kp = encode_field (push_bit 3 (fst kp) OR 2, snd kp)"

definition encode_block :: "bytes list \<Rightarrow> bytes" where
  "encode_block items = concat (map (\<lambda>item. encode_field (0x0a, item)) items)"

lemma tag_of_kind:
  assumes "unat k < 2 ^ 61"
  shows "(push_bit 3 k OR 2) AND 0x07 = (2 :: u64)" "drop_bit 3 (push_bit 3 k OR 2 :: u64) = k"
proof -
  have k: "bit k n \<Longrightarrow> n < 61" for n
  proof -
    assume "bit k n"
    have "take_bit 61 k = k"
      using assms by (simp add: word_unat_eq_iff unsigned_take_bit_eq take_bit_nat_eq_self)
    with \<open>bit k n\<close> show "n < 61" by (metis bit_take_bit_iff)
  qed
  have b2: "bit (2 :: u64) n \<longleftrightarrow> n = 1" for n
    using bit_exp_iff [where 'a = u64, of 1 n] by auto
  have b7: "bit (7 :: u64) n \<longleftrightarrow> n < 3" for n
    using bit_mask_iff [where 'a = u64, of 3 n] by (auto simp: mask_eq_exp_minus_1)
  show "(push_bit 3 k OR 2) AND 0x07 = (2 :: u64)"
    by (rule bit_eqI) (auto simp: bit_simps b2 b7 simp del: bit_numeral_word_iff)
  show "drop_bit 3 (push_bit 3 k OR 2 :: u64) = k"
    by (rule bit_eqI) (auto simp: bit_simps b2 dest: k simp del: bit_numeral_word_iff)
qed

lemma scan_item_kind_encode:
  assumes "unat k < 2 ^ 61" and "length (encode_item (k, p)) < usize_limit"
  shows "scan_item_kind (encode_item (k, p)) = Inr k"
proof -
  have "reads read_field (encode_item (k, p)) 0 [(push_bit 3 k OR 2, p)]"
    using reads_encode [of "[]" "[(push_bit 3 k OR 2, p)]"] assms(2)
    by (simp add: encode_item_def)
  then show ?thesis
    using tag_of_kind [OF assms(1)] by (auto simp: scan_item_kind_spec)
qed

section \<open>Where the items lie\<close>

text \<open>
  \<open>in_order xs bs\<close>: the byte strings of \<open>xs\<close> occur in \<open>bs\<close> one after the other, each after
  a non-empty gap (its tag and length) and none overlapping the next.
\<close>

fun in_order :: "bytes list \<Rightarrow> bytes \<Rightarrow> bool" where
  "in_order [] bs = True"
| "in_order (x # xs) bs = (\<exists>gap rest. bs = gap @ x @ rest \<and> gap \<noteq> [] \<and> in_order xs rest)"

lemma in_order_prepend: "in_order xs bs \<Longrightarrow> in_order xs (us @ bs)"
  by (cases xs) (simp, metis append.assoc append_is_Nil_conv in_order.simps(2))

lemma read_field_drop:
  assumes "read_field bs i = Inr ((tag, p), k)"
  shows "\<exists>gap. drop i bs = gap @ p @ drop k bs \<and> gap \<noteq> []"
proof -
  from assms obtain j where j: "read_varint bs i = Inr (tag, j)" "read_length_delimited bs j = Inr (p, k)"
    by (auto simp: read_field_Inr_iff)
  then obtain n m where m: "read_varint bs j = Inr (n, m)" "k = m + unat n" "k \<le> length bs" "p = slice m k bs"
    by (auto simp: read_length_delimited_Inr_iff)
  have im: "i < m" "m \<le> k" using varint.progress [OF j(1)] varint.progress [OF m(1)] m(2) by auto
  have "drop m bs = p @ drop k bs"
    using m(3,4) im by (simp add: slice_def) (metis append_take_drop_id drop_drop le_add_diff_inverse2)
  moreover have "drop i bs = take (m - i) (drop i bs) @ drop m bs"
    using im by (metis append_take_drop_id drop_drop le_add_diff_inverse2 less_imp_le_nat)
  moreover have "take (m - i) (drop i bs) \<noteq> []" using im m(3) by simp
  ultimately show ?thesis by metis
qed

lemma reads_in_order:
  "reads read_field bs i fs \<Longrightarrow> in_order (map snd (filter P fs)) (drop i bs)"
proof (induction rule: reads.induct)
  case (reads_done i)
  then show ?case by simp
next
  case (reads_step i v j vs)
  obtain gap where gap: "drop i bs = gap @ snd v @ drop j bs" "gap \<noteq> []"
    using read_field_drop [of bs i "fst v" "snd v" j] reads_step.hyps(2) by auto
  show ?case
  proof (cases "P v")
    case True
    with gap reads_step.IH show ?thesis by auto
  next
    case False
    have "drop i bs = (gap @ snd v) @ drop j bs" using gap(1) by simp
    with False reads_step.IH show ?thesis using in_order_prepend by fastforce
  qed
qed

lemma classify_Inr: "classify item = Inr it \<Longrightarrow> item_bytes it = item \<and> scan_item_kind item = Inr (field_number it)"
  by (auto simp: classify_def and_then_eq_Inr_iff)

lemma map_result_classify:
  "map_result classify xs = Inr items \<Longrightarrow> map item_bytes items = xs \<and>
     (\<forall>it \<in> set items. scan_item_kind (item_bytes it) = Inr (field_number it))"
  unfolding map_result_Inr_iff by (induction rule: list_all2_induct) (auto dest!: classify_Inr)

section \<open>The theorems\<close>

text \<open>C15. The scan of a well-formed block gives back its items: for every sequence of oneof
  kinds and payloads, encoding each as a \<open>BlockItem\<close> and the sequence as a \<open>Block\<close>, then
  scanning, yields exactly these kinds with exactly these bytes, in order.\<close>

theorem scan_block_items_roundtrip:
  assumes "\<forall>kp \<in> set kps. unat (fst kp) < 2 ^ 61"
    and "length (encode_block (map encode_item kps)) < usize_limit"
  shows "scan_block_items (encode_block (map encode_item kps)) =
    Inr (map (\<lambda>kp. \<lparr>field_number = fst kp, item_bytes = encode_item kp\<rparr>) kps)"
proof -
  let ?fs = "map (\<lambda>kp. (0x0a :: u64, encode_item kp)) kps"
  have enc: "encode_block (map encode_item kps) = concat (map encode_field ?fs)"
    by (simp add: encode_block_def comp_def)
  have "reads read_field (encode_block (map encode_item kps)) 0 ?fs"
    using reads_encode [of "[]" ?fs] assms(2) enc by simp
  moreover have "\<forall>f \<in> set ?fs. delimited_tag f"
    by (simp add: delimited_tag_def)
  moreover have "filter is_item_field ?fs = ?fs"
    by (simp add: filter_id_conv is_item_field_def)
  moreover have "classify (encode_item kp) = Inr \<lparr>field_number = fst kp, item_bytes = encode_item kp\<rparr>"
    if kp: "kp \<in> set kps" for kp
  proof -
    obtain us vs where "kps = us @ kp # vs" using split_list [OF kp] by blast
    then have "length (encode_item kp) < usize_limit"
      using assms(2) by (simp add: encode_block_def encode_field_def)
    then show ?thesis
      using scan_item_kind_encode [of "fst kp" "snd kp"] assms(1) kp by (simp add: classify_def)
  qed
  then have "map_result classify (map encode_item kps) =
      Inr (map (\<lambda>kp. \<lparr>field_number = fst kp, item_bytes = encode_item kp\<rparr>) kps)"
    by (rule map_result_map_all)
  ultimately show ?thesis
    unfolding scan_block_items_spec by (intro exI [of _ ?fs]) (simp add: comp_def)
qed

lemma scan_block_items_roundtrip_witness:
  "scan_block_items (encode_block [encode_item (4, [0xaa, 0xbb]), encode_item (9, [])]) =
     Inr [\<lparr>field_number = 4, item_bytes = [0x22, 2, 0xaa, 0xbb]\<rparr>, \<lparr>field_number = 9, item_bytes = [0x4a, 0]\<rparr>]"
proof -
  have e: "encode_item (4, [0xaa, 0xbb]) = [0x22, 2, 0xaa, 0xbb]" "encode_item (9, []) = [0x4a, 0]"
    by (simp_all add: encode_item_def encode_field_def encode_varint.simps)
  show ?thesis
    using scan_block_items_roundtrip [of "[(4, [0xaa, 0xbb]), (9, [])]"]
    by (simp add: e encode_block_def encode_field_def encode_varint.simps usize_limit_def)
qed

text \<open>Exactness: when the scan succeeds, the items it returns are exact, non-overlapping
  slices of the input, in file order, and each one's recorded kind is the number of its single
  populated field. Nothing is re-encoded or taken from outside the input.\<close>

theorem scan_block_items_exact:
  assumes "scan_block_items block = Inr items"
  shows "in_order (map item_bytes items) block \<and>
    (\<forall>it \<in> set items. scan_item_kind (item_bytes it) = Inr (field_number it))"
proof -
  obtain fs where fs: "reads read_field block 0 fs"
      "map_result classify (map snd (filter is_item_field fs)) = Inr items"
    using assms unfolding scan_block_items_spec by blast
  have "in_order (map snd (filter is_item_field fs)) block"
    using reads_in_order [OF fs(1), of is_item_field] by simp
  then show ?thesis using map_result_classify [OF fs(2)] by simp
qed

lemma scan_block_items_exact_witness:
  "in_order [[0x22, 2, 0xaa, 0xbb]] [0x0a, 4, 0x22, 2, 0xaa, 0xbb]"
proof -
  have "scan_block_items (encode_block [encode_item (4, [0xaa, 0xbb])]) =
      Inr [\<lparr>field_number = 4, item_bytes = encode_item (4, [0xaa, 0xbb])\<rparr>]"
    by (simp add: scan_block_items_def scan_block_loop.simps read_varint_def read_varint_loop.simps
        get_at_def read_length_delimited_def encode_block_def encode_item_def encode_field_def
        encode_varint.simps checked_add_usize_def usize_limit_def slice_def scan_item_kind_def
        scan_item_kind_loop.simps)
  from scan_block_items_exact [OF this] show ?thesis
    by (simp add: encode_block_def encode_item_def encode_field_def encode_varint.simps)
qed

text \<open>A varint read ends inside the input after at most ten bytes, and its value is the
  base-128 value of the bytes it consumed, modulo 2 to the 64.\<close>

theorem read_varint_correct:
  assumes "read_varint bs i = Inr (v, j)"
  shows "i < j \<and> j \<le> length bs \<and> j \<le> i + 10 \<and> unat v = varint_value (slice i j bs) mod 2 ^ 64"
  using varint.progress [OF assms] read_varint_at_most_10 [OF assms] read_varint_value [OF assms]
  by (simp add: unat_of_nat)

lemma read_varint_correct_witness:
  "read_varint [0xff, 0xac, 0x02, 0x55] 1 = Inr (300, 3) \<and> varint_value [0xac, 0x02] mod 2 ^ 64 = 300"
proof -
  have r: "read_varint [0xff, 0xac, 0x02, 0x55] 1 = Inr (300, 3)"
    by (simp add: read_varint_def read_varint_loop.simps get_at_def)
  show ?thesis
    using r read_varint_correct [OF r] by (simp add: slice_def)
qed

text \<open>The ten-byte limit does not exclude values of more than 64 bits: the tenth byte has
  room for one bit, but any seven-bit value is accepted there and its upper bits are lost. The
  encoding of 2 to the 64 is read as 0, where the code promises the error \<open>varint exceeds 64
  bits\<close>.\<close>

theorem read_varint_overflow_accepted:
  "read_varint [0x80, 0x80, 0x80, 0x80, 0x80, 0x80, 0x80, 0x80, 0x80, 0x02] 0 = Inr (0, 10) \<and>
   varint_value [0x80, 0x80, 0x80, 0x80, 0x80, 0x80, 0x80, 0x80, 0x80, 0x02] = 2 ^ 64"
  by (simp add: read_varint_def read_varint_loop.simps get_at_def)

text \<open>The scan of two blocks' bytes, one after the other, is the two scans one after the
  other: the items of a message are independent of what precedes or follows them.\<close>

theorem scan_block_items_append:
  assumes "scan_block_items bs = Inr xs" and "scan_block_items cs = Inr ys"
    and "length bs + length cs < usize_limit"
  shows "scan_block_items (bs @ cs) = Inr (xs @ ys)"
proof -
  obtain fs gs where fs: "reads read_field bs 0 fs" "\<forall>f \<in> set fs. delimited_tag f"
      "map_result classify (map snd (filter is_item_field fs)) = Inr xs"
    and gs: "reads read_field cs 0 gs" "\<forall>f \<in> set gs. delimited_tag f"
      "map_result classify (map snd (filter is_item_field gs)) = Inr ys"
    using assms(1,2) unfolding scan_block_items_spec by blast
  have "reads read_field (bs @ cs) 0 (fs @ gs)"
    by (rule field.reads_append [OF fs(1) gs(1) assms(3)])
  then show ?thesis
    using fs(2,3) gs(2,3) unfolding scan_block_items_spec
    by (intro exI [of _ "fs @ gs"]) (auto simp: map_result_append)
qed

lemma scan_block_items_append_witness:
  "scan_block_items ([0x0a, 2, 0x4a, 0] @ [0x0a, 2, 0x4a, 0]) =
     Inr [\<lparr>field_number = 9, item_bytes = [0x4a, 0]\<rparr>, \<lparr>field_number = 9, item_bytes = [0x4a, 0]\<rparr>]"
proof -
  have s: "scan_block_items [0x0a, 2, 0x4a, 0] = Inr [\<lparr>field_number = 9, item_bytes = [0x4a, 0]\<rparr>]"
    by (simp add: scan_block_items_def scan_block_loop.simps read_varint_def read_varint_loop.simps
        get_at_def read_length_delimited_def checked_add_usize_def usize_limit_def slice_def
        scan_item_kind_def scan_item_kind_loop.simps)
  show ?thesis
    using scan_block_items_append [OF s s] by (simp add: usize_limit_def)
qed

end
