(* ===== verification/Stream_Format.thy ===== *)
theory Stream_Format
  imports Proto Fmt Wire
begin

text \<open>
  The crate root, \<open>src/lib.rs\<close>: the one place gzip is handled (\<open>inflate\<close>, with its ceiling), the
  era router \<open>detect_format\<close> with its \<open>Format\<close>, and \<open>debug_variant_camel\<close>, the oneof case name
  taken from a \<open>Debug\<close> rendering by a sink that stops the formatter at the first delimiter.
\<close>

section \<open>Big-endian integers\<close>

definition be_nat :: "bytes \<Rightarrow> nat" where
  "be_nat bs = foldl (\<lambda>acc b. acc * 256 + unat b) 0 bs"

text \<open>\<open>to_be_bytes\<close> of a value of \<open>k\<close> bytes, and \<open>i32::from_be_bytes\<close> (two's complement).\<close>

fun nat_be :: "nat \<Rightarrow> nat \<Rightarrow> bytes" where
  "nat_be 0 n = []"
| "nat_be (Suc k) n = nat_be k (n div 256) @ [of_nat (n mod 256)]"

definition int_to_be_bytes :: "nat \<Rightarrow> int \<Rightarrow> bytes" where
  "int_to_be_bytes k i = nat_be k (nat (i mod 256 ^ k))"

definition i32_from_be_bytes :: "bytes \<Rightarrow> i32" where
  "i32_from_be_bytes bs = (let n = int (be_nat bs) in if n < 2 ^ 31 then n else n - 2 ^ 32)"

section \<open>Inflating\<close>

definition GZIP_MAGIC :: bytes where
  "GZIP_MAGIC = [0x1f, 0x8b]"

definition MAX_INFLATED :: nat where
  "MAX_INFLATED = 2 ^ 30"

definition is_gzip :: "bytes \<Rightarrow> bool" where
  "is_gzip bytes \<longleftrightarrow> 2 \<le> length bytes \<and> take 2 bytes = GZIP_MAGIC"

definition inflate :: "externals \<Rightarrow> bytes \<Rightarrow> bytes result" where
  "inflate E bytes =
     (if is_gzip bytes then
        and_then (map_err Gzip (gz_take E bytes (MAX_INFLATED + 1))) (\<lambda>out.
          if length out > MAX_INFLATED then Inl TooLarge else Inr out)
      else Inr bytes)"

section \<open>Formats\<close>

datatype format = RecordFileV6 | BlockStream | Unknown i32

definition detect_format :: "externals \<Rightarrow> bytes \<Rightarrow> format result" where
  "detect_format E bytes =
     and_then
       (if is_gzip bytes then map_err (\<lambda>_. TooShort) (gz_exact E bytes 4)
        else if length bytes < 4 then Inl TooShort
        else Inr (take 4 bytes))
       (\<lambda>buf.
          let version = i32_from_be_bytes buf in
          Inr (if version = 6 then RecordFileV6
               else if buf ! 0 = 0x0a then BlockStream
               else Unknown version))"

section \<open>The oneof case name\<close>

text \<open>
  \<open>Prefix::write_str\<close>: the characters go into the sink one by one until the first delimiter,
  which is an error (\<open>False\<close>) with what was pushed before it kept. The formatter propagates the
  error, so no later string is written.
\<close>

fun write_str :: "string \<Rightarrow> string \<Rightarrow> string \<times> bool" where
  "write_str acc [] = (acc, True)"
| "write_str acc (ch # s) = (if is_delimiter ch then (acc, False) else write_str (acc @ [ch]) s)"

fun write_all :: "string \<Rightarrow> string list \<Rightarrow> string" where
  "write_all acc [] = acc"
| "write_all acc (s # ss) =
     (case write_str acc s of (acc', True) \<Rightarrow> write_all acc' ss | (acc', False) \<Rightarrow> acc')"

definition to_lowercase :: "char \<Rightarrow> char" where
  "to_lowercase c = (let n = of_char c :: nat in if 65 \<le> n \<and> n \<le> 90 then char_of (n + 32) else c)"

text \<open>Variant names are ASCII identifiers, so lowercasing the first character gives one character.\<close>

definition debug_variant_camel :: "string list \<Rightarrow> string" where
  "debug_variant_camel writes =
     (case write_all [] writes of
        first # rest \<Rightarrow> to_lowercase first # rest
      | [] \<Rightarrow> ''unknown'')"

section \<open>Lemmas\<close>

lemma be_nat_append: "be_nat (xs @ ys) = be_nat xs * 256 ^ length ys + be_nat ys"
proof (induction ys rule: rev_induct)
  case Nil
  then show ?case by (simp add: be_nat_def)
next
  case (snoc y ys)
  have "be_nat (xs @ ys @ [y]) = be_nat (xs @ ys) * 256 + unat y"
    by (simp add: be_nat_def)
  moreover have "be_nat (ys @ [y]) = be_nat ys * 256 + unat y"
    by (simp add: be_nat_def)
  ultimately show ?case using snoc by (simp add: algebra_simps)
qed

lemma length_nat_be [simp]: "length (nat_be k n) = k"
  by (induction k arbitrary: n) simp_all

lemma be_nat_nat_be: "be_nat (nat_be k n) = n mod 256 ^ k"
proof (induction k arbitrary: n)
  case 0
  then show ?case by (simp add: be_nat_def)
next
  case (Suc k)
  have "unat (of_nat (n mod 256) :: u8) = n mod 256"
    by (simp add: unat_of_nat)
  then have "be_nat (nat_be (Suc k) n) = (n div 256 mod 256 ^ k) * 256 + n mod 256"
    using Suc by (simp add: be_nat_append) (simp add: be_nat_def)
  also have "\<dots> = n mod 256 ^ Suc k"
    by (simp add: mod_mult2_eq algebra_simps)
  finally show ?case .
qed

lemma length_int_to_be_bytes [simp]: "length (int_to_be_bytes k i) = k"
  by (simp add: int_to_be_bytes_def)

lemma int_to_be_bytes_inject:
  assumes "int_to_be_bytes k i = int_to_be_bytes k j" "0 < k"
    and "- (256 ^ k) \<le> 2 * i" "2 * i < 256 ^ k" "- (256 ^ k) \<le> 2 * j" "2 * j < 256 ^ k"
  shows "i = j"
proof -
  let ?M = "256 ^ k :: int"
  have M: "?M > 0" by simp
  have "be_nat (int_to_be_bytes k i) = be_nat (int_to_be_bytes k j)" using assms(1) by simp
  then have "nat (i mod ?M) mod 256 ^ k = nat (j mod ?M) mod 256 ^ k"
    by (simp add: int_to_be_bytes_def be_nat_nat_be)
  moreover have "nat (x mod ?M) < 256 ^ k" for x
    using pos_mod_bound [OF M, of x] by (simp add: nat_less_iff)
  ultimately have "nat (i mod ?M) = nat (j mod ?M)" by simp
  then have eq: "i mod ?M = j mod ?M" by (simp add: nat_eq_iff)
  then have "?M dvd i - j" by (simp add: mod_eq_dvd_iff)
  moreover have "\<bar>i - j\<bar> < ?M" using assms(3-6) by linarith
  ultimately show "i = j" using dvd_imp_le_int [of "i - j" ?M] by force
qed

lemma i32_from_be_bytes_roundtrip:
  assumes "- (2 ^ 31) \<le> i" "i < 2 ^ 31"
  shows "i32_from_be_bytes (int_to_be_bytes 4 i) = i"
proof -
  have "nat (i mod 4294967296) < 4294967296"
    using pos_mod_bound [of 4294967296 i] by linarith
  then have n: "int (be_nat (int_to_be_bytes 4 i)) = i mod 4294967296"
    by (simp add: int_to_be_bytes_def be_nat_nat_be)
  show ?thesis
  proof (cases "i < 0")
    case True
    have "i mod 4294967296 = (i + 4294967296) mod 4294967296" by simp
    also have "\<dots> = i + 4294967296"
      using True assms by (intro mod_pos_pos_trivial) simp_all
    finally have "i mod 4294967296 = i + 4294967296" .
    with True assms n show ?thesis by (simp add: i32_from_be_bytes_def Let_def)
  next
    case False
    then have "i mod 4294967296 = i"
      using assms by (intro mod_pos_pos_trivial) simp_all
    with False assms n show ?thesis by (simp add: i32_from_be_bytes_def Let_def)
  qed
qed


section \<open>Inflating: what comes out\<close>

lemma inflate_raw: "\<not> is_gzip bytes \<Longrightarrow> inflate E bytes = Inr bytes"
  by (simp add: inflate_def)

lemma inflate_gzip_Inr_iff:
  "is_gzip bytes \<Longrightarrow> inflate E bytes = Inr raw \<longleftrightarrow>
     gz_take E bytes (MAX_INFLATED + 1) = Inr raw \<and> length raw \<le> MAX_INFLATED"
  by (cases "gz_take E bytes (MAX_INFLATED + 1)") (auto simp: inflate_def)

lemma inflate_errors:
  "inflate E bytes = Inl e \<Longrightarrow> is_gzip bytes \<and> (e = TooLarge \<or> (\<exists>m. e = Gzip m))"
  by (cases "gz_take E bytes (MAX_INFLATED + 1)") (auto simp: inflate_def split: if_splits)

section \<open>The leading bytes decide the format\<close>

definition format_of :: "bytes \<Rightarrow> format" where
  "format_of buf =
     (if i32_from_be_bytes buf = 6 then RecordFileV6
      else if buf ! 0 = 0x0a then BlockStream
      else Unknown (i32_from_be_bytes buf))"

lemma detect_format_inflated:
  assumes "gzip_laws E" "inflate E bytes = Inr raw"
  shows "detect_format E bytes = (if length raw < 4 then Inl TooShort else Inr (format_of (take 4 raw)))"
proof (cases "is_gzip bytes")
  case False
  then show ?thesis
    using assms(2) by (auto simp: inflate_def detect_format_def format_of_def Let_def)
next
  case True
  then have gz: "gz_take E bytes (MAX_INFLATED + 1) = Inr raw" "length raw < MAX_INFLATED + 1"
    using assms(2) by (simp_all add: inflate_gzip_Inr_iff)
  show ?thesis
  proof (cases "length raw < 4")
    case False
    then have "gz_exact E bytes 4 = Inr (take 4 raw)"
      using assms(1) gz by (auto simp: gzip_laws_def)
    with True False show ?thesis
      by (simp add: detect_format_def format_of_def Let_def)
  next
    case short: True
    then obtain e where "gz_exact E bytes 4 = Inl e"
      using assms(1) gz unfolding gzip_laws_def by blast
    with True short show ?thesis by (simp add: detect_format_def)
  qed
qed

lemma format_of_version: "format_of (int_to_be_bytes 4 6) = RecordFileV6"
  using i32_from_be_bytes_roundtrip [of 6] by (simp add: format_of_def)

lemma version_6_first_byte: "length buf = 4 \<Longrightarrow> i32_from_be_bytes buf = 6 \<Longrightarrow> buf = [0, 0, 0, 6]"
proof -
  assume len: "length buf = 4" and v: "i32_from_be_bytes buf = 6"
  obtain a b c d where buf: "buf = [a, b, c, d]"
    using len by (auto simp: numeral_eq_Suc length_Suc_conv)
  have lt: "unat a < 256" "unat b < 256" "unat c < 256" "unat d < 256"
    using unsigned_less [of a] unsigned_less [of b] unsigned_less [of c] unsigned_less [of d] by simp_all
  have n: "be_nat buf = ((unat a * 256 + unat b) * 256 + unat c) * 256 + unat d"
    by (simp add: be_nat_def buf)
  moreover have "be_nat buf < 2 ^ 32" using n lt by simp
  then have "be_nat buf = 6"
    using v by (auto simp: i32_from_be_bytes_def Let_def split: if_splits)
  ultimately have s: "((unat a * 256 + unat b) * 256 + unat c) * 256 + unat d = 6" by simp
  have a: "unat a = 0" using s by (cases "unat a") simp_all
  then have b: "unat b = 0" using s by (cases "unat b") simp_all
  then have c: "unat c = 0" using s a by (cases "unat c") simp_all
  then have "unat d = 6" using s a b by simp
  then have "d = 6" by (simp add: word_unat_eq_iff)
  moreover have "a = 0" "b = 0" "c = 0" using a b c by (simp_all add: unat_eq_0)
  ultimately show "buf = [0, 0, 0, 6]" by (simp add: buf)
qed

section \<open>The sink sees the concatenation of the writes\<close>

lemma write_str_eq:
  "write_str acc s = (acc @ takeWhile (\<lambda>c. \<not> is_delimiter c) s, list_all (\<lambda>c. \<not> is_delimiter c) s)"
  by (induction s arbitrary: acc) simp_all

lemma write_all_eq: "write_all acc ss = acc @ takeWhile (\<lambda>c. \<not> is_delimiter c) (concat ss)"
proof (induction ss arbitrary: acc)
  case Nil
  then show ?case by simp
next
  case (Cons s ss)
  show ?case
  proof (cases "list_all (\<lambda>c. \<not> is_delimiter c) s")
    case True
    then show ?thesis
      using Cons by (simp add: write_str_eq list_all_iff takeWhile_append2)
  next
    case False
    then show ?thesis
      by (auto simp: write_str_eq list_all_iff takeWhile_append1 split: prod.split bool.split)
  qed
qed

lemma debug_variant_camel_concat: "concat xs = concat ys \<Longrightarrow> debug_variant_camel xs = debug_variant_camel ys"
  by (simp add: debug_variant_camel_def write_all_eq)

lemma debug_variant_camel_variant:
  assumes "derived_debug dbg d"
  shows "debug_variant_camel (dbg d) = to_lowercase (hd (variant_name d)) # tl (variant_name d)"
proof -
  obtain payload where c: "concat (dbg d) = variant_name d @ CHR ''('' # payload"
    using assms by (auto simp: derived_debug_def)
  have "takeWhile (\<lambda>c. \<not> is_delimiter c) (concat (dbg d)) = variant_name d"
    using assms c by (simp add: derived_debug_def list_all_iff takeWhile_append2) (simp add: is_delimiter_def)
  then show ?thesis
    using assms by (cases "variant_name d") (simp_all add: debug_variant_camel_def write_all_eq derived_debug_def)
qed

section \<open>The theorems\<close>

text \<open>Detection sees through compression: whatever way the bytes are stored, if they inflate, the
  format is decided by the first four inflated bytes alone, and fewer than four of them is
  \<open>TooShort\<close>.\<close>

theorem detect_format_sees_inflated:
  assumes "gzip_laws E" "inflate E bytes = Inr raw"
  shows "detect_format E bytes = (if length raw < 4 then Inl TooShort else Inr (format_of (take 4 raw)))
    \<and> (is_gzip bytes \<longrightarrow> length raw \<le> MAX_INFLATED)"
  using detect_format_inflated [OF assms] assms(2) by (auto simp: inflate_gzip_Inr_iff)

lemma detect_format_sees_inflated_witness:
  "detect_format demo ([0x1f, 0x8b, 8, 0, 0, 0, 0, 0, 0, 0] @ [0, 0, 0, 6, 1]) = Inr RecordFileV6"
proof -
  let ?b = "[0x1f, 0x8b, 8, 0, 0, 0, 0, 0, 0, 0] @ [0, 0, 0, 6, 1] :: bytes"
  have "inflate demo ?b = Inr [0, 0, 0, 6, 1]"
    by (simp add: inflate_def is_gzip_def GZIP_MAGIC_def demo_def MAX_INFLATED_def)
  from detect_format_sees_inflated [OF gzip_laws_demo this] show ?thesis
    by (simp add: format_of_def i32_from_be_bytes_def be_nat_def)
qed

text \<open>Every block the scanner's encoding produces (at least one item, each with its tag and
  length) is routed to the block era, raw as it is.\<close>

theorem detect_format_block:
  assumes "kps \<noteq> []"
  shows "detect_format E (encode_block (map encode_item kps)) = Inr BlockStream"
proof -
  obtain kp rest where kps: "kps = kp # rest" using assms by (cases kps) auto
  let ?len = "encode_varint (of_nat (length (encode_item kp)))"
  let ?tail = "?len @ encode_item kp @ encode_block (map encode_item rest)"
  have raw: "encode_block (map encode_item kps) = 0x0a # ?tail"
    by (simp add: kps encode_block_def encode_field_def encode_varint.simps)
  have pos: "1 \<le> length (encode_varint w)" for w
    using encode_varint_not_Nil [of w] by (cases "encode_varint w") auto
  have "2 \<le> length (encode_item kp)"
    using pos [of "push_bit 3 (fst kp) OR 2"] pos [of "of_nat (length (snd kp))"]
    by (simp add: encode_item_def encode_field_def)
  then have len: "4 \<le> length (0x0a # ?tail)"
    using pos [of "of_nat (length (encode_item kp))"] by simp
  have "\<not> is_gzip (0x0a # ?tail)"
    by (cases ?tail) (simp_all add: is_gzip_def GZIP_MAGIC_def)
  moreover have "take 4 (0x0a # ?tail) ! 0 = 0x0a" by simp
  moreover have "i32_from_be_bytes (take 4 (0x0a # ?tail)) \<noteq> 6"
  proof
    assume "i32_from_be_bytes (take 4 (0x0a # ?tail)) = 6"
    then have "take 4 (0x0a # ?tail) = [0, 0, 0, 6]"
      using len by (intro version_6_first_byte) simp_all
    then show False by simp
  qed
  ultimately show ?thesis
    using len unfolding raw by (simp add: detect_format_def Let_def)
qed

lemma detect_format_block_witness:
  "detect_format demo (encode_block [encode_item (1, [])]) = Inr BlockStream"
  using detect_format_block [of "[(1, [])]" demo] by simp

text \<open>The type name is the lowerCamelCase of the variant's name, however the derived \<open>Debug\<close>
  splits its output into writes, and the payload is never part of it.\<close>

theorem debug_variant_camel_name:
  assumes "derived_debug dbg d"
  shows "debug_variant_camel (dbg d) = to_lowercase (hd (variant_name d)) # tl (variant_name d)"
  using assms by (rule debug_variant_camel_variant)

lemma debug_variant_camel_name_witness:
  "debug_variant_camel [''Crypto'', ''Transfer'', ''(CryptoTransferTransactionBody { transfers: None })''] = ''cryptoTransfer''"
proof -
  let ?d = "Other_Data ''CryptoTransfer'' []"
  let ?dbg = "\<lambda>_ :: body_data. [''Crypto'', ''Transfer'', ''(CryptoTransferTransactionBody { transfers: None })'']"
  have "derived_debug ?dbg ?d"
    by (simp add: derived_debug_def is_delimiter_def)
  moreover have "to_lowercase CHR ''C'' = CHR ''c''"
    by (simp add: to_lowercase_def) code_simp
  ultimately show ?thesis
    using debug_variant_camel_name [of ?dbg ?d] by simp
qed

section \<open>Error messages\<close>

text \<open>The \<open>Display\<close> that \<open>thiserror\<close> derives from the attributes of \<open>Error\<close>.\<close>

fun show_error :: "error \<Rightarrow> string" where
  "show_error TooShort = ''stream file too short to contain a header''"
| "show_error TooLarge = ''decompressed data exceeds the 1 GiB safety ceiling''"
| "show_error (UnsupportedVersion v) =
     ''unsupported record file version '' @ show_int v @ '' '' @ em_dash @ '' only v6 is implemented''"
| "show_error (UnsupportedSignatureVersion v) =
     ''unsupported signature file version '' @ show_nat (unat v) @ '' '' @ em_dash @ '' only v6 is implemented''"
| "show_error MissingFileSignature = ''signature file has no file signature''"
| "show_error (Gzip e) = ''gzip: '' @ e"
| "show_error (Decode e) = ''protobuf: '' @ e"
| "show_error (Key e) = ''public key: '' @ e"
| "show_error (Proof e) = ''block proof: '' @ e"

end
