(* ===== verification/Record_Parse.thy ===== *)
theory Record_Parse
  imports Transaction Stream_Format
begin

text \<open>
  The record-stream era parser, \<open>src/record/mod.rs\<close>: the entity and timestamp texts, the decoding of
  a transaction body through its three wire forms, the response-code names with their fallback,
  one \<open>ParsedTransaction\<close> for each record, and \<open>parse_record_file\<close> on raw or gzipped bytes.
\<close>

section \<open>Ids and timestamps\<close>

definition account_num_of :: "account_message \<Rightarrow> i64" where
  "account_num_of a = (case acc_account a of Some (AccountNum n) \<Rightarrow> n | _ \<Rightarrow> 0)"

definition account_entity_id :: "account_message option \<Rightarrow> string" where
  "account_entity_id entity =
     (case entity of
        None \<Rightarrow> []
      | Some a \<Rightarrow> dotted (acc_shard_num a) (acc_realm_num a) (account_num_of a))"

definition account_id :: "account_message option \<Rightarrow> account_id option" where
  "account_id entity = map_option (\<lambda>a. Account_Id (acc_shard_num a) (acc_realm_num a) (account_num_of a)) entity"

definition token_entity_id :: "token_message option \<Rightarrow> string" where
  "token_entity_id entity =
     (case entity of
        None \<Rightarrow> []
      | Some t \<Rightarrow> dotted (tok_shard_num t) (tok_realm_num t) (tok_token_num t))"

definition token_id :: "token_message option \<Rightarrow> token_id" where
  "token_id entity =
     (case entity of
        None \<Rightarrow> Token_Id 0 0 0
      | Some t \<Rightarrow> Token_Id (tok_shard_num t) (tok_realm_num t) (tok_token_num t))"

definition consensus_string :: "timestamp option \<Rightarrow> string" where
  "consensus_string ts =
     (let (seconds, nanos) = (case ts of None \<Rightarrow> (0, 0) | Some t \<Rightarrow> (ts_seconds t, ts_nanos t))
      in show_int seconds @ CHR ''.'' # show_int_pad 9 nanos)"

definition transaction_id_string :: "transaction_id_message option \<Rightarrow> string" where
  "transaction_id_string entity =
     (case entity of
        Some t \<Rightarrow>
          if txid_account_id t \<noteq> None \<and> txid_valid_start t \<noteq> None
          then account_entity_id (txid_account_id t) @ CHR ''@'' # consensus_string (txid_valid_start t)
          else []
      | None \<Rightarrow> [])"

section \<open>Bodies and results\<close>

definition oneof_case_name :: "externals \<Rightarrow> body_data \<Rightarrow> string" where
  "oneof_case_name E data = debug_variant_camel (debug_data E data)"

definition decode_body :: "externals \<Rightarrow> transaction_message option \<Rightarrow> transaction_body option" where
  "decode_body E tx =
     (case tx of
        None \<Rightarrow> None
      | Some tx \<Rightarrow>
          if tx_signed_transaction_bytes tx \<noteq> [] then
            (case ok (dec_signed_transaction E (tx_signed_transaction_bytes tx)) of
               None \<Rightarrow> None
             | Some body_bytes \<Rightarrow> ok (dec_transaction_body E body_bytes))
          else if tx_body_bytes tx \<noteq> [] then ok (dec_transaction_body E (tx_body_bytes tx))
          else tx_body tx)"

definition response_code_name :: "externals \<Rightarrow> i32 \<Rightarrow> string" where
  "response_code_name E code =
     (case response_code E code of
        Some name \<Rightarrow> name
      | None \<Rightarrow>
          (case hapi_response_code E code of
             Some name \<Rightarrow> name
           | None \<Rightarrow> show_int code))"

section \<open>One record\<close>

definition transfer_leg_of :: "account_amount \<Rightarrow> transfer_leg" where
  "transfer_leg_of leg =
     \<lparr>leg_account = account_entity_id (aa_account_id leg), leg_amount = aa_amount leg\<rparr>"

definition token_legs_of :: "token_transfer_list \<Rightarrow> token_transfer_leg list" where
  "token_legs_of l =
     (let token = token_entity_id (ttl_token l)
      in map (\<lambda>leg. \<lparr>ttleg_token = token, ttleg_account = account_entity_id (aa_account_id leg),
                      ttleg_amount = aa_amount leg\<rparr>) (ttl_transfers l))"

definition nft_legs_of :: "token_transfer_list \<Rightarrow> nft_transfer list" where
  "nft_legs_of l =
     (let token = token_id (ttl_token l)
      in map (\<lambda>leg. \<lparr>sender = account_id (nft_sender leg), receiver = account_id (nft_receiver leg),
                      token = token, serial_number = nft_serial leg, is_approval = nft_approval leg\<rparr>)
           (ttl_nft_transfers l))"

definition parse_item :: "externals \<Rightarrow> record_stream_item \<Rightarrow> parsed_transaction option" where
  "parse_item E item =
     (case rsi_record item of
        None \<Rightarrow> None
      | Some rec \<Rightarrow>
          let body = decode_body E (rsi_transaction item);
              tx_type = (case Option.bind body tb_data of
                           Some data \<Rightarrow> oneof_case_name E data | None \<Rightarrow> ''unknown'');
              consensus_timestamp = consensus_string (rec_consensus_timestamp rec);
              consensus_seconds = (case rec_consensus_timestamp rec of Some t \<Rightarrow> ts_seconds t | None \<Rightarrow> 0);
              result_code = (case rec_receipt_status rec of Some s \<Rightarrow> s | None \<Rightarrow> 0);
              result = response_code_name E result_code;
              transfers = (case rec_transfer_list rec of
                             Some list \<Rightarrow> map transfer_leg_of list | None \<Rightarrow> []);
              token_transfers = concat (map token_legs_of (rec_token_transfer_lists rec));
              nft_transfers = concat (map nft_legs_of (rec_token_transfer_lists rec))
          in Some \<lparr>
               consensus_timestamp = consensus_timestamp,
               day = day_from_seconds consensus_seconds,
               payer = account_entity_id (Option.bind (rec_transaction_id rec) txid_account_id),
               transaction_id = transaction_id_string (rec_transaction_id rec),
               tx_type = tx_type,
               result_code = result_code,
               result_name = result,
               charged_fee_tinybar = rec_transaction_fee rec,
               transfers = transfers,
               token_transfers = token_transfers,
               nft_transfers = nft_transfers\<rparr>)"

section \<open>One file\<close>

record parsed_record_file =
  prf_version :: i32
  prf_block_number :: i64
  start_running_hash :: bytes
  end_running_hash :: bytes
  prf_hapi_version :: string
  prf_transactions :: "parsed_transaction list"

text \<open>\<open>filter_map\<close>: the results that are there, in order.\<close>

definition filter_map :: "('a \<Rightarrow> 'b option) \<Rightarrow> 'a list \<Rightarrow> 'b list" where
  "filter_map f xs = map the (filter (\<lambda>x. x \<noteq> None) (map f xs))"

definition default_bytes :: "bytes option \<Rightarrow> bytes" where
  "default_bytes h = (case h of Some b \<Rightarrow> b | None \<Rightarrow> [])"

definition version_part :: "(semantic_version \<Rightarrow> i32) \<Rightarrow> semantic_version option \<Rightarrow> i32" where
  "version_part part v = (case v of Some s \<Rightarrow> part s | None \<Rightarrow> 0)"

definition parse_record_file :: "externals \<Rightarrow> bytes \<Rightarrow> parsed_record_file result" where
  "parse_record_file E bytes =
     and_then (inflate E bytes) (\<lambda>buf.
       if length buf < 4 then Inl TooShort
       else
         let version = i32_from_be_bytes (take 4 buf)
         in if version \<noteq> 6 then Inl (UnsupportedVersion version)
            else and_then (map_err Decode (dec_record_stream_file E (drop 4 buf))) (\<lambda>file.
              let v = rsf_hapi_proto_version file
              in Inr \<lparr>
                   prf_version = version,
                   prf_block_number = rsf_block_number file,
                   start_running_hash = default_bytes (rsf_start_object_running_hash file),
                   end_running_hash = default_bytes (rsf_end_object_running_hash file),
                   prf_hapi_version =
                     dotted (version_part sv_major v) (version_part sv_minor v) (version_part sv_patch v),
                   prf_transactions = filter_map (parse_item E) (rsf_record_stream_items file)\<rparr>))"

section \<open>Lemmas\<close>

lemma filter_map_simps [simp]:
  "filter_map f [] = []"
  "filter_map f (x # xs) = (case f x of None \<Rightarrow> filter_map f xs | Some y \<Rightarrow> y # filter_map f xs)"
  by (auto simp: filter_map_def split: option.split)

lemma filter_map_append [simp]: "filter_map f (xs @ ys) = filter_map f xs @ filter_map f ys"
  by (simp add: filter_map_def)

lemma parse_item_None_iff: "parse_item E item = None \<longleftrightarrow> rsi_record item = None"
  by (simp add: parse_item_def Let_def split: option.split)

lemma length_filter_map_parse_item:
  "length (filter_map (parse_item E) items) = length (filter (\<lambda>i. rsi_record i \<noteq> None) items)"
proof -
  have "(\<lambda>i. rsi_record i \<noteq> None) = (\<lambda>i. parse_item E i \<noteq> None)"
    by (rule ext) (simp only: parse_item_None_iff)
  then show ?thesis by (simp add: filter_map_def filter_map comp_def)
qed

lemma dotted_no_at: "CHR ''@'' \<notin> set (dotted a b c)"
  using show_int_no_sep(2) by (auto simp: dotted_def)

lemma dotted_inject: "dotted a b c = dotted a' b' c' \<longleftrightarrow> a = a' \<and> b = b' \<and> c = c'"
  using fmt_account_id_inject [of "Account_Id a b c" "Account_Id a' b' c'"] by (simp add: fmt_account_id_def)

lemma fmt_token_id_inject: "fmt_token_id s = fmt_token_id t \<longleftrightarrow> s = t"
  by (auto simp: fmt_token_id_def dotted_inject intro: token_id.expand)

lemma dotted_no_hash: "CHR ''#'' \<notin> set (dotted a b c)"
  using show_int_no_hash by (auto simp: dotted_def)

lemma token_entity_id_no_hash: "CHR ''#'' \<notin> set (token_entity_id e)"
  using dotted_no_hash by (auto simp: token_entity_id_def split: option.split)

lemma consensus_string_Some:
  "consensus_string (Some t) = show_int (ts_seconds t) @ CHR ''.'' # show_int_pad 9 (ts_nanos t)"
  by (simp add: consensus_string_def)

lemma consensus_string_inject: "consensus_string (Some s) = consensus_string (Some t) \<longleftrightarrow> s = t"
proof
  assume "consensus_string (Some s) = consensus_string (Some t)"
  then have "show_int (ts_seconds s) @ CHR ''.'' # show_int_pad 9 (ts_nanos s) =
      show_int (ts_seconds t) @ CHR ''.'' # show_int_pad 9 (ts_nanos t)"
    by (simp add: consensus_string_Some)
  from split_at_sep_eq [OF this show_int_no_sep(1) show_int_no_sep(1)] show "s = t"
    by (simp add: timestamp.equality)
qed simp

lemma account_entity_id_Some:
  "account_entity_id (Some a) = account_entity_id (Some b) \<longleftrightarrow> account_id (Some a) = account_id (Some b)"
  by (simp add: account_entity_id_def account_id_def dotted_inject)

lemma parse_record_file_inflated:
  "inflate E bytes = Inr raw \<Longrightarrow> \<not> is_gzip raw \<Longrightarrow> parse_record_file E bytes = parse_record_file E raw"
  by (simp add: parse_record_file_def inflate_raw)

section \<open>The theorems\<close>

text \<open>The era router and the parser agree on what a record file is: \<open>detect_format\<close> answers
  \<open>RecordFileV6\<close> exactly when the parser gets past its header check to the protobuf, and the
  parser's only header errors are \<open>TooShort\<close> and \<open>UnsupportedVersion\<close>.\<close>

theorem detect_format_routes_record_files:
  assumes "gzip_laws E" "inflate E bytes = Inr raw"
  shows "if detect_format E bytes = Inr RecordFileV6
    then \<exists>body. raw = [0, 0, 0, 6] @ body \<and>
      (case dec_record_stream_file E body of
         Inl e \<Rightarrow> parse_record_file E bytes = Inl (Decode e)
       | Inr file \<Rightarrow> \<exists>p. parse_record_file E bytes = Inr p \<and> prf_block_number p = rsf_block_number file)
    else parse_record_file E bytes = Inl TooShort \<or> (\<exists>v. v \<noteq> 6 \<and> parse_record_file E bytes = Inl (UnsupportedVersion v))"
proof (cases "length raw < 4")
  case True
  then show ?thesis
    using detect_format_inflated [OF assms] assms(2) by (simp add: parse_record_file_def)
next
  case False
  then have det: "detect_format E bytes = Inr RecordFileV6 \<longleftrightarrow> i32_from_be_bytes (take 4 raw) = 6"
    using detect_format_inflated [OF assms] by (simp add: format_of_def)
  show ?thesis
  proof (cases "i32_from_be_bytes (take 4 raw) = 6")
    case True
    then have "take 4 raw = [0, 0, 0, 6]"
      using False by (intro version_6_first_byte) simp_all
    then have "raw = [0, 0, 0, 6] @ drop 4 raw"
      using append_take_drop_id [of 4 raw] by simp
    then show ?thesis
      using True False det assms(2)
      by (cases "dec_record_stream_file E (drop 4 raw)")
        (auto simp: parse_record_file_def Let_def intro!: exI [of _ "drop 4 raw"])
  next
    case no: False
    with False det assms(2) show ?thesis by (simp add: parse_record_file_def Let_def)
  qed
qed

lemma detect_format_routes_record_files_witness:
  "detect_format demo [0, 0, 0, 6, 1] = Inr RecordFileV6 \<and>
   (\<exists>p. parse_record_file demo [0, 0, 0, 6, 1] = Inr p \<and> prf_block_number p = 0)"
proof -
  let ?b = "[0, 0, 0, 6, 1] :: bytes"
  have i: "inflate demo ?b = Inr ?b" by (simp add: inflate_def is_gzip_def GZIP_MAGIC_def)
  have d: "detect_format demo ?b = Inr RecordFileV6"
    by (simp add: detect_format_def is_gzip_def GZIP_MAGIC_def i32_from_be_bytes_def be_nat_def)
  from detect_format_routes_record_files [OF gzip_laws_demo i] d show ?thesis by (simp add: demo_def)
qed

text \<open>A transaction id string identifies the transaction: two complete ids (payer and valid
  start present) print the same only when payer and valid start are the same.\<close>

theorem transaction_id_string_injective:
  assumes "txid_account_id a = Some pa" "txid_valid_start a = Some va"
    and "txid_account_id b = Some pb" "txid_valid_start b = Some vb"
  shows "transaction_id_string (Some a) = transaction_id_string (Some b) \<longleftrightarrow>
    account_id (Some pa) = account_id (Some pb) \<and> va = vb"
proof
  assume "transaction_id_string (Some a) = transaction_id_string (Some b)"
  then have "account_entity_id (Some pa) @ CHR ''@'' # consensus_string (Some va) =
      account_entity_id (Some pb) @ CHR ''@'' # consensus_string (Some vb)"
    using assms by (simp add: transaction_id_string_def)
  then have "account_entity_id (Some pa) = account_entity_id (Some pb) \<and>
      consensus_string (Some va) = consensus_string (Some vb)"
    by (rule split_at_sep_eq) (simp_all add: account_entity_id_def dotted_no_at)
  then show "account_id (Some pa) = account_id (Some pb) \<and> va = vb"
    by (simp only: account_entity_id_Some consensus_string_inject)
next
  assume "account_id (Some pa) = account_id (Some pb) \<and> va = vb"
  then have "account_entity_id (Some pa) = account_entity_id (Some pb)" "va = vb"
    by (simp_all only: account_entity_id_Some)
  then show "transaction_id_string (Some a) = transaction_id_string (Some b)"
    using assms by (simp add: transaction_id_string_def)
qed

lemma transaction_id_string_injective_witness:
  "let acc = \<lparr>acc_shard_num = 0, acc_realm_num = 0, acc_account = Some (AccountNum 123)\<rparr>;
       tx = (\<lambda>n. \<lparr>txid_account_id = Some acc, txid_valid_start = Some \<lparr>ts_seconds = 5, ts_nanos = n\<rparr>\<rparr>)
   in transaction_id_string (Some (tx 1)) \<noteq> transaction_id_string (Some (tx 10))"
  by (simp add: transaction_id_string_injective)

text \<open>The parser drops nothing and reorders nothing: a file of two runs of items parses to the
  transactions of the first run followed by those of the second, one transaction for each item
  that carries a record, and never for one that does not.\<close>

theorem parse_record_file_items:
  assumes "inflate E bytes = Inr raw" "length raw \<ge> 4" "i32_from_be_bytes (take 4 raw) = 6"
    and "dec_record_stream_file E (drop 4 raw) = Inr file"
  shows "\<exists>p. parse_record_file E bytes = Inr p \<and>
    prf_transactions p = filter_map (parse_item E) (rsf_record_stream_items file) \<and>
    length (prf_transactions p) = length (filter (\<lambda>i. rsi_record i \<noteq> None) (rsf_record_stream_items file)) \<and>
    (\<forall>us vs. rsf_record_stream_items file = us @ vs \<longrightarrow>
      prf_transactions p = filter_map (parse_item E) us @ filter_map (parse_item E) vs)"
  using assms by (simp add: parse_record_file_def Let_def length_filter_map_parse_item)

lemma parse_record_file_items_witness:
  "\<exists>p. parse_record_file demo [0, 0, 0, 6] = Inr p \<and> prf_transactions p = []"
  using parse_record_file_items [of demo "[0, 0, 0, 6]" "[0, 0, 0, 6]"]
  by (auto simp: inflate_def is_gzip_def GZIP_MAGIC_def i32_from_be_bytes_def be_nat_def demo_def)

end
