(* ===== verification/BTree_Map.thy ===== *)
theory BTree_Map
  imports Prelude "HOL-Library.List_Lexorder" "HOL-Library.Char_ord"
begin

text \<open>
  \<open>std::collections::BTreeMap\<close> as the code uses it: a finite map iterated in key order, kept as a
  list of entries in strictly increasing key order. Strings are compared byte by byte, the order
  of \<open>HOL-Library.List_Lexorder\<close> over characters. The locale \<open>map_interface\<close> is what the crate's
  code relies on (lookup after insert, one entry for a key, the length); a map built by inserting
  a list of entries, the shape of every use, is analysed once inside it.
\<close>

type_synonym ('k, 'v) btree_map = "('k \<times> 'v) list"

section \<open>Operations\<close>

definition bt_get :: "('k, 'v) btree_map \<Rightarrow> 'k \<Rightarrow> 'v option" where
  "bt_get m k = map_of m k"

text \<open>\<open>entry(k).and_modify(f).or_insert(v)\<close>; \<open>insert\<close> is the case that overwrites.\<close>

fun bt_upsert :: "'k::linorder \<Rightarrow> 'v \<Rightarrow> ('v \<Rightarrow> 'v) \<Rightarrow> ('k, 'v) btree_map \<Rightarrow> ('k, 'v) btree_map" where
  "bt_upsert k v f [] = [(k, v)]"
| "bt_upsert k v f ((k', v') # m) =
     (if k < k' then (k, v) # (k', v') # m
      else if k = k' then (k, f v') # m
      else (k', v') # bt_upsert k v f m)"

definition bt_insert :: "'k::linorder \<Rightarrow> 'v \<Rightarrow> ('k, 'v) btree_map \<Rightarrow> ('k, 'v) btree_map" where
  "bt_insert k v m = bt_upsert k v (\<lambda>_. v) m"

definition bt_wf :: "('k::linorder, 'v) btree_map \<Rightarrow> bool" where
  "bt_wf m \<longleftrightarrow> sorted_wrt (<) (map fst m)"

section \<open>The interface\<close>

locale map_interface =
  fixes empty :: 'm
    and insert :: "'k \<Rightarrow> 'v \<Rightarrow> 'm \<Rightarrow> 'm"
    and get :: "'m \<Rightarrow> 'k \<Rightarrow> 'v option"
    and len :: "'m \<Rightarrow> nat"
    and wf :: "'m \<Rightarrow> bool"
  assumes wf_empty: "wf empty"
    and wf_insert: "wf m \<Longrightarrow> wf (insert k v m)"
    and get_empty: "get empty k = None"
    and get_insert: "wf m \<Longrightarrow> get (insert k v m) k' = (if k' = k then Some v else get m k')"
    and len_dom: "wf m \<Longrightarrow> len m = card (dom (get m))"
begin

fun build :: "'m \<Rightarrow> ('k \<times> 'v) list \<Rightarrow> 'm" where
  "build m [] = m"
| "build m ((k, v) # kvs) = build (insert k v m) kvs"

lemma wf_build: "wf m \<Longrightarrow> wf (build m kvs)"
  by (induction m kvs rule: build.induct) (simp_all add: wf_insert)

lemma get_build: "wf m \<Longrightarrow> get (build m kvs) k = (case map_of (rev kvs) k of Some v \<Rightarrow> Some v | None \<Rightarrow> get m k)"
  by (induction m kvs rule: build.induct)
    (auto simp: wf_insert get_insert map_add_def split: option.split)

lemma dom_build: "dom (get (build empty kvs)) = fst ` set kvs"
proof -
  have "get (build empty kvs) = map_of (rev kvs)"
    by (rule ext) (simp add: get_build [OF wf_empty] get_empty split: option.split)
  then show ?thesis by (simp add: dom_map_of_conv_image_fst)
qed

lemma len_build: "len (build empty kvs) = card (fst ` set kvs)"
  by (simp add: len_dom [OF wf_build [OF wf_empty]] dom_build)

end

section \<open>The sorted list of entries provides it\<close>

lemma bt_upsert_keys: "fst ` set (bt_upsert k v f m) = insert k (fst ` set m)"
  by (induction k v f m rule: bt_upsert.induct) auto

lemma bt_wf_upsert: "bt_wf m \<Longrightarrow> bt_wf (bt_upsert k v f m)"
proof (induction k v f m rule: bt_upsert.induct)
  case (2 k v f k' v' m)
  have m: "\<forall>x \<in> fst ` set m. k' < x" "bt_wf m" using 2(2) by (simp_all add: bt_wf_def)
  consider "k < k'" | "k = k'" | "k' < k" by fastforce
  then show ?case
  proof cases
    case 1
    with m have "\<forall>x \<in> fst ` set m. k < x" using less_trans by blast
    with 1 2(2) show ?thesis by (simp add: bt_wf_def)
  next
    case 2
    with m show ?thesis by (simp add: bt_wf_def)
  next
    case 3
    then have "bt_wf (bt_upsert k v f m)" using "2.IH" m(2) by simp
    moreover have "\<forall>x \<in> fst ` set (bt_upsert k v f m). k' < x"
      unfolding bt_upsert_keys using 3 m(1) by blast
    ultimately show ?thesis using 3 less_asym [OF 3] by (auto simp: bt_wf_def)
  qed
qed (simp add: bt_wf_def)

lemma bt_get_upsert:
  "bt_wf m \<Longrightarrow> bt_get (bt_upsert k v f m) k' =
     (if k' = k then Some (case bt_get m k of None \<Rightarrow> v | Some v' \<Rightarrow> f v') else bt_get m k')"
proof (induction k v f m rule: bt_upsert.induct)
  case (2 k v f k1 v1 m)
  have wf: "bt_wf m" "\<And>x. x \<in> fst ` set m \<Longrightarrow> k1 < x"
    using 2(2) by (auto simp: bt_wf_def)
  show ?case
  proof (cases "k < k1")
    case True
    then have "k \<notin> fst ` set m" "k \<noteq> k1" using wf(2) [of k] less_asym [of k k1] by blast+
    then have "map_of m k = None" by (simp add: map_of_eq_None_iff)
    with True \<open>k \<noteq> k1\<close> show ?thesis by (simp add: bt_get_def)
  next
    case False
    with 2(1) wf(1) show ?thesis by (auto simp: bt_get_def)
  qed
qed (simp add: bt_get_def)

lemma bt_length_dom: "bt_wf m \<Longrightarrow> length m = card (dom (bt_get m))"
proof -
  assume "bt_wf m"
  then have "distinct (map fst m)"
    using strict_sorted_iff [of "map fst m"] by (simp add: bt_wf_def)
  then have "card (set (map fst m)) = length m"
    by (metis distinct_card length_map)
  moreover have "bt_get m = map_of m" by (rule ext) (simp add: bt_get_def)
  ultimately show ?thesis by (simp add: dom_map_of_conv_image_fst)
qed

interpretation bt: map_interface "[]" bt_insert bt_get length "bt_wf :: ('k::linorder, 'v) btree_map \<Rightarrow> bool"
proof
  show "bt_wf []" by (simp add: bt_wf_def)
  show "bt_get [] k = None" for k :: 'k by (simp add: bt_get_def)
qed (simp_all add: bt_insert_def bt_wf_upsert bt_get_upsert bt_length_dom split: option.split)

end
