(* ===== verification/Block_Parse.thy ===== *)
theory Block_Parse
  imports Record_Parse BTree_Map
begin

text \<open>
  The block-stream era parser, \<open>src/block/mod.rs\<close>: the helpers the crate keeps in sync with the record
  era's, one \<open>ParsedTransaction\<close> from a body and a result, the pairing of a signed transaction with
  the result that follows it (\<open>parse_block\<close>), and the per-node event counts (\<open>block_activity\<close>). The
  helpers are translated separately from their record-era twins, so that the agreement of the two
  eras is a theorem. Names carry the prefix \<open>block_\<close> where the source repeats a record-era name.
\<close>

section \<open>The helpers kept in sync\<close>

definition block_account_num_of :: "account_message \<Rightarrow> i64" where
  "block_account_num_of a = (case acc_account a of Some (AccountNum n) \<Rightarrow> n | _ \<Rightarrow> 0)"

definition block_account_entity_id :: "account_message option \<Rightarrow> string" where
  "block_account_entity_id entity =
     (case entity of
        None \<Rightarrow> []
      | Some a \<Rightarrow> dotted (acc_shard_num a) (acc_realm_num a) (block_account_num_of a))"

definition block_account_id :: "account_message option \<Rightarrow> account_id option" where
  "block_account_id entity =
     map_option (\<lambda>a. Account_Id (acc_shard_num a) (acc_realm_num a) (block_account_num_of a)) entity"

definition block_token_entity_id :: "token_message option \<Rightarrow> string" where
  "block_token_entity_id entity =
     (case entity of
        None \<Rightarrow> []
      | Some t \<Rightarrow> dotted (tok_shard_num t) (tok_realm_num t) (tok_token_num t))"

definition block_token_id :: "token_message option \<Rightarrow> token_id" where
  "block_token_id entity =
     (case entity of
        None \<Rightarrow> Token_Id 0 0 0
      | Some t \<Rightarrow> Token_Id (tok_shard_num t) (tok_realm_num t) (tok_token_num t))"

definition block_consensus_string :: "timestamp option \<Rightarrow> string" where
  "block_consensus_string ts =
     (let (seconds, nanos) = (case ts of None \<Rightarrow> (0, 0) | Some t \<Rightarrow> (ts_seconds t, ts_nanos t))
      in show_int seconds @ CHR ''.'' # show_int_pad 9 nanos)"

definition block_transaction_id_string :: "transaction_id_message option \<Rightarrow> string" where
  "block_transaction_id_string entity =
     (case entity of
        Some t \<Rightarrow>
          if txid_account_id t \<noteq> None \<and> txid_valid_start t \<noteq> None
          then block_account_entity_id (txid_account_id t) @ CHR ''@'' # block_consensus_string (txid_valid_start t)
          else []
      | None \<Rightarrow> [])"

definition block_oneof_case_name :: "externals \<Rightarrow> body_data \<Rightarrow> string" where
  "block_oneof_case_name E data = debug_variant_camel (debug_hapi_data E data)"

definition body_of :: "externals \<Rightarrow> bytes \<Rightarrow> transaction_body option" where
  "body_of E signed_transaction_bytes =
     (case ok (dec_hapi_signed_transaction E signed_transaction_bytes) of
        None \<Rightarrow> None
      | Some body_bytes \<Rightarrow> ok (dec_hapi_transaction_body E body_bytes))"

section \<open>One transaction\<close>

definition transaction_from :: "externals \<Rightarrow> transaction_body option \<Rightarrow> transaction_result \<Rightarrow> parsed_transaction" where
  "transaction_from E body res =
     (let consensus_timestamp = block_consensus_string (tr_consensus_timestamp res);
          consensus_seconds = (case tr_consensus_timestamp res of Some t \<Rightarrow> ts_seconds t | None \<Rightarrow> 0);
          result_code = tr_status res;
          result_name = (case hapi_response_code E result_code of
                           Some name \<Rightarrow> name | None \<Rightarrow> show_int result_code);
          transaction_id = Option.bind body tb_transaction_id
      in \<lparr>consensus_timestamp = consensus_timestamp,
          day = day_from_seconds consensus_seconds,
          payer = block_account_entity_id (Option.bind transaction_id txid_account_id),
          transaction_id = block_transaction_id_string transaction_id,
          tx_type = (case Option.bind body tb_data of
                       Some data \<Rightarrow> block_oneof_case_name E data | None \<Rightarrow> ''unknown''),
          result_code = result_code,
          result_name = result_name,
          charged_fee_tinybar = tr_transaction_fee_charged res,
          transfers = (case tr_transfer_list res of
                         Some list \<Rightarrow> map (\<lambda>leg. \<lparr>leg_account = block_account_entity_id (aa_account_id leg),
                                                 leg_amount = aa_amount leg\<rparr>) list
                       | None \<Rightarrow> []),
          token_transfers = concat (map (\<lambda>l.
             let token = block_token_entity_id (ttl_token l)
             in map (\<lambda>leg. \<lparr>ttleg_token = token, ttleg_account = block_account_entity_id (aa_account_id leg),
                             ttleg_amount = aa_amount leg\<rparr>) (ttl_transfers l)) (tr_token_transfer_lists res)),
          nft_transfers = concat (map (\<lambda>l.
             let token = block_token_id (ttl_token l)
             in map (\<lambda>leg. \<lparr>sender = block_account_id (nft_sender leg), receiver = block_account_id (nft_receiver leg),
                             token = token, serial_number = nft_serial leg, is_approval = nft_approval leg\<rparr>)
                  (ttl_nft_transfers l)) (tr_token_transfer_lists res))\<rparr>)"

section \<open>Node activity\<close>

record block_activity =
  activity_block_number :: u64
  activity_rounds :: "u64 list"
  events_by_node :: "(i64, u64) btree_map"

definition total_events :: "block_activity \<Rightarrow> u64" where
  "total_events a = sum_list (map snd (events_by_node a))"

definition activity_item :: "block_activity \<Rightarrow> item option \<Rightarrow> block_activity" where
  "activity_item activity i =
     (case i of
        Some (BlockHeader h) \<Rightarrow> activity\<lparr>activity_block_number := bh_number h\<rparr>
      | Some (RoundHeader r) \<Rightarrow> activity\<lparr>activity_rounds := activity_rounds activity @ [r]\<rparr>
      | Some (EventHeader core) \<Rightarrow>
          let creator = (case core of Some c \<Rightarrow> c | None \<Rightarrow> 0)
          in activity\<lparr>events_by_node := bt_upsert creator (0 + 1) (\<lambda>n. n + 1) (events_by_node activity)\<rparr>
      | _ \<Rightarrow> activity)"

definition block_activity :: "externals \<Rightarrow> bytes \<Rightarrow> block_activity result" where
  "block_activity E bytes =
     and_then (inflate E bytes) (\<lambda>raw.
     and_then (map_err Decode (dec_block E raw)) (\<lambda>items.
       Inr (foldl activity_item \<lparr>activity_block_number = 0, activity_rounds = [], events_by_node = []\<rparr> items)))"

section \<open>Parsing a block\<close>

record parsed_block =
  pb_block_number :: u64
  pb_hapi_version :: string
  rounds :: "u64 list"
  pb_transactions :: "parsed_transaction list"

record parse_state =
  parsed :: parsed_block
  pending :: "transaction_body option"

definition parse_block_item :: "externals \<Rightarrow> parse_state \<Rightarrow> item option \<Rightarrow> parse_state" where
  "parse_block_item E st i =
     (let p = parsed st in
      case i of
        Some (BlockHeader h) \<Rightarrow>
          let p' = p\<lparr>pb_block_number := bh_number h\<rparr>
          in st\<lparr>parsed := (case bh_hapi_proto_version h of
                  Some v \<Rightarrow> p'\<lparr>pb_hapi_version := dotted (sv_major v) (sv_minor v) (sv_patch v)\<rparr>
                | None \<Rightarrow> p')\<rparr>
      | Some (RoundHeader r) \<Rightarrow> st\<lparr>parsed := p\<lparr>rounds := rounds p @ [r]\<rparr>\<rparr>
      | Some (SignedTransaction bytes) \<Rightarrow> st\<lparr>pending := body_of E bytes\<rparr>
      | Some (TransactionResult res) \<Rightarrow>
          st\<lparr>parsed := p\<lparr>pb_transactions := pb_transactions p @ [transaction_from E (pending st) res]\<rparr>,
             pending := None\<rparr>
      | _ \<Rightarrow> st)"

definition parse_block_start :: parse_state where
  "parse_block_start =
     \<lparr>parsed = \<lparr>pb_block_number = 0, pb_hapi_version = ''0.0.0'', rounds = [], pb_transactions = []\<rparr>,
      pending = None\<rparr>"

definition parse_block :: "externals \<Rightarrow> bytes \<Rightarrow> parsed_block result" where
  "parse_block E bytes =
     and_then (inflate E bytes) (\<lambda>raw.
     and_then (map_err Decode (dec_block E raw)) (\<lambda>items.
       Inr (parsed (foldl (parse_block_item E) parse_block_start items))))"

section \<open>The helpers agree with the record era's\<close>

lemma block_helpers_agree [simp]:
  "block_account_num_of = account_num_of" "block_account_entity_id = account_entity_id"
  "block_account_id = account_id" "block_token_entity_id = token_entity_id" "block_token_id = token_id"
  "block_consensus_string = consensus_string" "block_transaction_id_string = transaction_id_string"
proof -
  show n: "block_account_num_of = account_num_of"
    by (rule ext) (simp add: block_account_num_of_def account_num_of_def)
  show e: "block_account_entity_id = account_entity_id"
    by (rule ext) (simp add: block_account_entity_id_def account_entity_id_def n split: option.split)
  show "block_account_id = account_id"
    by (rule ext) (simp add: block_account_id_def account_id_def n)
  show "block_token_entity_id = token_entity_id"
    by (rule ext) (simp add: block_token_entity_id_def token_entity_id_def)
  show "block_token_id = token_id"
    by (rule ext) (simp add: block_token_id_def token_id_def)
  show c: "block_consensus_string = consensus_string"
    by (rule ext) (simp add: block_consensus_string_def consensus_string_def)
  show "block_transaction_id_string = transaction_id_string"
    by (rule ext) (simp add: block_transaction_id_string_def transaction_id_string_def e c split: option.split)
qed

section \<open>The pairing loop\<close>

fun is_result :: "item option \<Rightarrow> bool" where
  "is_result (Some (TransactionResult _)) = True"
| "is_result _ = False"

fun is_signed :: "item option \<Rightarrow> bool" where
  "is_signed (Some (SignedTransaction _)) = True"
| "is_signed _ = False"

definition results_in :: "item option list \<Rightarrow> nat" where
  "results_in items = length (filter is_result items)"

abbreviation "parse_items E st items \<equiv> foldl (parse_block_item E) st items"

lemma parse_block_item_transactions:
  "pb_transactions (parsed (parse_block_item E st i)) = pb_transactions (parsed st) @
     (case i of Some (TransactionResult res) \<Rightarrow> [transaction_from E (pending st) res] | _ \<Rightarrow> [])"
  "pending (parse_block_item E st i) =
     (case i of Some (SignedTransaction b) \<Rightarrow> body_of E b | Some (TransactionResult _) \<Rightarrow> None | _ \<Rightarrow> pending st)"
  by (simp_all add: parse_block_item_def Let_def split: option.split item.split)

lemma parse_items_transactions_mono:
  "\<exists>ts. pb_transactions (parsed (parse_items E st items)) = pb_transactions (parsed st) @ ts \<and>
     length ts = results_in items"
proof (induction items arbitrary: st)
  case Nil
  then show ?case by (simp add: results_in_def)
next
  case (Cons i items)
  obtain ts where "pb_transactions (parsed (parse_items E (parse_block_item E st i) items)) =
      pb_transactions (parsed (parse_block_item E st i)) @ ts" "length ts = results_in items"
    using Cons.IH by blast
  moreover have "length (case i of Some (TransactionResult res) \<Rightarrow> [transaction_from E (pending st) res] | _ \<Rightarrow> []) =
      (if is_result i then 1 else 0)"
    by (cases i rule: is_result.cases) simp_all
  ultimately show ?case
    by (simp add: parse_block_item_transactions results_in_def)
qed

lemma parse_items_pending:
  "(\<forall>i \<in> set items. \<not> is_result i \<and> \<not> is_signed i) \<Longrightarrow> pending (parse_items E st items) = pending st"
proof (induction items arbitrary: st)
  case (Cons i items)
  have "pending (parse_block_item E st i) = pending st"
    using Cons.prems by (cases i rule: is_result.cases) (simp_all add: parse_block_item_transactions)
  with Cons show ?case by simp
qed simp

lemma parse_items_result_at:
  assumes "items = us @ Some (TransactionResult res) # vs"
  shows "results_in us < length (pb_transactions (parsed (parse_items E parse_block_start items))) \<and>
    pb_transactions (parsed (parse_items E parse_block_start items)) ! results_in us =
    transaction_from E (pending (parse_items E parse_block_start us)) res"
proof -
  obtain ts where ts: "pb_transactions (parsed (parse_items E parse_block_start us)) = ts" "length ts = results_in us"
    using parse_items_transactions_mono [of E parse_block_start us] by (auto simp: parse_block_start_def)
  let ?st = "parse_block_item E (parse_items E parse_block_start us) (Some (TransactionResult res))"
  obtain vs' where "pb_transactions (parsed (parse_items E ?st vs)) = pb_transactions (parsed ?st) @ vs'"
    using parse_items_transactions_mono [of E ?st vs] by blast
  then have "pb_transactions (parsed (parse_items E parse_block_start items)) =
      ts @ transaction_from E (pending (parse_items E parse_block_start us)) res # vs'"
    using assms ts(1) by (simp add: parse_block_item_transactions)
  then show ?thesis using ts(2) by (simp add: nth_append)
qed

section \<open>Event counts\<close>

fun creator_of :: "item option \<Rightarrow> i64 option" where
  "creator_of (Some (EventHeader (Some c))) = Some c"
| "creator_of (Some (EventHeader None)) = Some 0"
| "creator_of _ = None"

definition events_of :: "i64 \<Rightarrow> item option list \<Rightarrow> nat" where
  "events_of c items = length (filter (\<lambda>i. creator_of i = Some c) items)"

lemma activity_item_events:
  "events_by_node (activity_item a i) =
     (case creator_of i of Some c \<Rightarrow> bt_upsert c 1 (\<lambda>n. n + 1) (events_by_node a) | None \<Rightarrow> events_by_node a)"
  by (cases i rule: creator_of.cases) (simp_all add: activity_item_def)

lemma activity_events:
  "bt_wf (events_by_node a) \<Longrightarrow> bt_wf (events_by_node (foldl activity_item a items)) \<and>
     bt_get (events_by_node (foldl activity_item a items)) c =
       (if events_of c items = 0 then bt_get (events_by_node a) c
        else Some (of_nat (events_of c items) + (case bt_get (events_by_node a) c of Some n \<Rightarrow> n | None \<Rightarrow> 0)))"
proof (induction items arbitrary: a)
  case Nil
  then show ?case by (simp add: events_of_def)
next
  case (Cons i items)
  have "bt_wf (events_by_node (activity_item a i))"
    using Cons.prems by (simp add: activity_item_events bt_wf_upsert split: option.split)
  from Cons.IH [OF this] show ?case using Cons.prems
    by (auto simp: activity_item_events events_of_def bt_get_upsert split: option.split)
qed

lemma sum_upsert: "sum_list (map snd (bt_upsert c 1 (\<lambda>n. n + 1) m)) = sum_list (map snd m) + (1 :: u64)"
  by (induction c "1 :: u64" "\<lambda>n :: u64. n + 1" m rule: bt_upsert.induct) simp_all

lemma activity_total:
  "sum_list (map snd (events_by_node (foldl activity_item a items))) =
     sum_list (map snd (events_by_node a)) + of_nat (length (filter (\<lambda>i. creator_of i \<noteq> None) items))"
proof (induction items arbitrary: a)
  case (Cons i items)
  show ?case unfolding foldl_Cons Cons.IH
    by (simp add: activity_item_events sum_upsert split: option.split)
qed simp

section \<open>The theorems\<close>

text \<open>C30. The two eras agree: a record of the record era and a result of the block era that carry the
  same outcome (timestamp, status, fee, transfers), with bodies that carry the same id and type,
  give the same \<open>ParsedTransaction\<close> in every field but the name of the result, for every status code. The
  names are the same too exactly when the record era's enum does not know the code or gives it the name that the
  block era prints.\<close>

theorem eras_agree:
  assumes "rsi_record item = Some rec" "decode_body E (rsi_transaction item) = Some body"
    and "tb_transaction_id body = rec_transaction_id rec"
    and "rec_receipt_status rec = Some (tr_status res)"
    and "rec_consensus_timestamp rec = tr_consensus_timestamp res"
    and "rec_transaction_fee rec = tr_transaction_fee_charged res"
    and "rec_transfer_list rec = tr_transfer_list res"
    and "rec_token_transfer_lists rec = tr_token_transfer_lists res"
    and "tb_data body = Some d" "derived_debug (debug_data E) d" "derived_debug (debug_hapi_data E) d"
  shows "\<exists>t. parse_item E item = Some t \<and>
    t\<lparr>result_name := result_name (transaction_from E (Some body) res)\<rparr> = transaction_from E (Some body) res \<and>
    (t = transaction_from E (Some body) res \<longleftrightarrow>
       (case response_code E (tr_status res) of None \<Rightarrow> True
        | Some name \<Rightarrow> name = (case hapi_response_code E (tr_status res) of Some n \<Rightarrow> n | None \<Rightarrow> show_int (tr_status res))))"
proof -
  have names: "oneof_case_name E d = block_oneof_case_name E d"
    using assms(10,11) by (simp add: oneof_case_name_def block_oneof_case_name_def debug_variant_camel_variant)
  have legs: "transfer_leg_of = (\<lambda>leg. \<lparr>leg_account = account_entity_id (aa_account_id leg), leg_amount = aa_amount leg\<rparr>)"
    by (rule ext) (simp add: transfer_leg_of_def)
  have token_legs: "token_legs_of = (\<lambda>l. let token = token_entity_id (ttl_token l)
     in map (\<lambda>leg. \<lparr>ttleg_token = token, ttleg_account = account_entity_id (aa_account_id leg),
                     ttleg_amount = aa_amount leg\<rparr>) (ttl_transfers l))"
    by (rule ext) (simp add: token_legs_of_def)
  have nft_legs: "nft_legs_of = (\<lambda>l. let token = token_id (ttl_token l)
     in map (\<lambda>leg. \<lparr>sender = account_id (nft_sender leg), receiver = account_id (nft_receiver leg),
                     token = token, serial_number = nft_serial leg, is_approval = nft_approval leg\<rparr>)
          (ttl_nft_transfers l))"
    by (rule ext) (simp add: nft_legs_of_def)
  have "parse_item E item = Some ((transaction_from E (Some body) res)\<lparr>result_name := response_code_name E (tr_status res)\<rparr>)"
    by (simp add: parse_item_def transaction_from_def assms(1-9) names legs token_legs nft_legs Let_def split: option.split)
  moreover have "result_name (transaction_from E (Some body) res) =
      (case hapi_response_code E (tr_status res) of Some n \<Rightarrow> n | None \<Rightarrow> show_int (tr_status res))"
    by (simp add: transaction_from_def Let_def)
  moreover have "t\<lparr>result_name := n\<rparr> = t \<longleftrightarrow> n = result_name t" for t :: parsed_transaction and n
    by (cases t) auto
  ultimately show ?thesis
    by (intro exI [of _ "(transaction_from E (Some body) res)\<lparr>result_name := response_code_name E (tr_status res)\<rparr>"])
      (auto simp: response_code_name_def split: option.split)
qed

text \<open>Both answers occur: code 22 is SUCCESS in both vendored enums, and code 505 has a name of its own in each.\<close>

definition demo_codes :: externals where
  "demo_codes = demo\<lparr>
     response_code := \<lambda>n. if n = 22 then Some ''SUCCESS'' else if n = 505 then Some ''LAMBDA_STORAGE_UPDATE_BYTES_TOO_LONG'' else None,
     hapi_response_code := \<lambda>n. if n = 22 then Some ''SUCCESS'' else if n = 505 then Some ''EVM_HOOK_STORAGE_UPDATE_BYTES_TOO_LONG'' else None\<rparr>"

definition demo_body :: transaction_body where
  "demo_body = \<lparr>tb_transaction_id = None, tb_data = Some (Other_Data ''CryptoTransfer'' [])\<rparr>"

definition demo_item :: "i32 \<Rightarrow> record_stream_item" where
  "demo_item code = \<lparr>rsi_transaction = Some \<lparr>tx_body = Some demo_body, tx_body_bytes = [], tx_signed_transaction_bytes = []\<rparr>,
     rsi_record = Some \<lparr>rec_receipt_status = Some code, rec_consensus_timestamp = None, rec_transaction_id = None,
       rec_transaction_fee = 5, rec_transfer_list = None, rec_token_transfer_lists = []\<rparr>\<rparr>"

definition demo_result :: "i32 \<Rightarrow> transaction_result" where
  "demo_result code = \<lparr>tr_status = code, tr_consensus_timestamp = None, tr_transaction_fee_charged = 5,
     tr_transfer_list = None, tr_token_transfer_lists = []\<rparr>"

lemma eras_agree_witness:
  "parse_item demo_codes (demo_item 22) = Some (transaction_from demo_codes (Some demo_body) (demo_result 22)) \<and>
   parse_item demo_codes (demo_item 505) \<noteq> Some (transaction_from demo_codes (Some demo_body) (demo_result 505))"
proof -
  have d: "derived_debug (debug_data demo_codes) (Other_Data ''CryptoTransfer'' [])"
    "derived_debug (debug_hapi_data demo_codes) (Other_Data ''CryptoTransfer'' [])"
    by (simp_all add: derived_debug_def demo_codes_def demo_def is_delimiter_def)
  have agree: "\<exists>t. parse_item demo_codes (demo_item code) = Some t \<and>
    (t = transaction_from demo_codes (Some demo_body) (demo_result code) \<longleftrightarrow>
       (case response_code demo_codes code of None \<Rightarrow> True
        | Some name \<Rightarrow> name = (case hapi_response_code demo_codes code of Some n \<Rightarrow> n | None \<Rightarrow> show_int code)))" for code
  proof -
    let ?res = "demo_result code"
    have "\<exists>t. parse_item demo_codes (demo_item code) = Some t \<and>
      t\<lparr>result_name := result_name (transaction_from demo_codes (Some demo_body) ?res)\<rparr> = transaction_from demo_codes (Some demo_body) ?res \<and>
      (t = transaction_from demo_codes (Some demo_body) ?res \<longleftrightarrow>
         (case response_code demo_codes (tr_status ?res) of None \<Rightarrow> True
          | Some name \<Rightarrow> name = (case hapi_response_code demo_codes (tr_status ?res) of Some n \<Rightarrow> n | None \<Rightarrow> show_int (tr_status ?res))))"
      by (rule eras_agree [where rec = "the (rsi_record (demo_item code))", OF _ _ _ _ _ _ _ _ _ d])
        (simp_all add: demo_item_def demo_result_def demo_body_def decode_body_def)
    moreover have "tr_status ?res = code" by (simp add: demo_result_def)
    ultimately show ?thesis by metis
  qed
  show ?thesis using agree [of 22] agree [of 505] by (auto simp: demo_codes_def)
qed

text \<open>C31. Pairing: every result item gives one transaction, in file order, and nothing else does; its body
  is that of the signed transaction item before it when neither a result nor another signed
  transaction comes between, and there is none (type \<open>unknown\<close>, no payer) when no signed
  transaction item came since the previous result.\<close>

theorem parse_block_pairing:
  assumes "inflate E bytes = Inr raw" "dec_block E raw = Inr items"
  shows "\<exists>p. parse_block E bytes = Inr p \<and> length (pb_transactions p) = results_in items \<and>
    (\<forall>us b ms res vs. items = us @ Some (SignedTransaction b) # ms @ Some (TransactionResult res) # vs \<longrightarrow>
       (\<forall>i \<in> set ms. \<not> is_result i \<and> \<not> is_signed i) \<longrightarrow>
       pb_transactions p ! results_in us = transaction_from E (body_of E b) res) \<and>
    (\<forall>us r0 ms res vs. items = us @ Some (TransactionResult r0) # ms @ Some (TransactionResult res) # vs \<longrightarrow>
       (\<forall>i \<in> set ms. \<not> is_result i \<and> \<not> is_signed i) \<longrightarrow>
       pb_transactions p ! Suc (results_in us) = transaction_from E None res \<and>
       tx_type (pb_transactions p ! Suc (results_in us)) = ''unknown'' \<and>
       payer (pb_transactions p ! Suc (results_in us)) = [])"
proof -
  let ?p = "parsed (parse_items E parse_block_start items)"
  have parse: "parse_block E bytes = Inr ?p" using assms by (simp add: parse_block_def)
  have len: "length (pb_transactions ?p) = results_in items"
    using parse_items_transactions_mono [of E parse_block_start items] by (auto simp: parse_block_start_def)
  have none: "results_in ms = 0" if "\<forall>i \<in> set ms. \<not> is_result i \<and> \<not> is_signed i" for ms
    using that by (simp add: results_in_def filter_empty_conv)
  have paired: "pb_transactions ?p ! results_in us = transaction_from E (body_of E b) res"
    if i: "items = us @ Some (SignedTransaction b) # ms @ Some (TransactionResult res) # vs"
      and m: "\<forall>i \<in> set ms. \<not> is_result i \<and> \<not> is_signed i" for us b ms res vs
  proof -
    let ?pre = "us @ Some (SignedTransaction b) # ms"
    have "items = ?pre @ Some (TransactionResult res) # vs" using i by simp
    note at = parse_items_result_at [OF this, of E]
    have "results_in ?pre = results_in us" using none [OF m] by (simp add: results_in_def)
    moreover have "pending (parse_items E parse_block_start ?pre) = body_of E b"
      by (simp add: parse_items_pending [OF m] parse_block_item_transactions)
    ultimately show ?thesis using at by simp
  qed
  have unpaired: "pb_transactions ?p ! Suc (results_in us) = transaction_from E None res"
    if i: "items = us @ Some (TransactionResult r0) # ms @ Some (TransactionResult res) # vs"
      and m: "\<forall>i \<in> set ms. \<not> is_result i \<and> \<not> is_signed i" for us r0 ms res vs
  proof -
    let ?pre = "us @ Some (TransactionResult r0) # ms"
    have "items = ?pre @ Some (TransactionResult res) # vs" using i by simp
    note at = parse_items_result_at [OF this, of E]
    have "results_in ?pre = Suc (results_in us)" using none [OF m] by (simp add: results_in_def)
    moreover have "pending (parse_items E parse_block_start ?pre) = None"
      by (simp add: parse_items_pending [OF m] parse_block_item_transactions)
    ultimately show ?thesis using at by simp
  qed
  have blank: "tx_type (transaction_from E None res) = ''unknown''" "payer (transaction_from E None res) = []" for res
    by (simp_all add: transaction_from_def account_entity_id_def Let_def)
  show ?thesis
  proof (intro exI [of _ ?p] conjI allI impI)
    fix us b ms res vs
    assume "items = us @ Some (SignedTransaction b) # ms @ Some (TransactionResult res) # vs"
      "\<forall>i \<in> set ms. \<not> is_result i \<and> \<not> is_signed i"
    then show "pb_transactions ?p ! results_in us = transaction_from E (body_of E b) res" by (rule paired)
  next
    fix us r0 ms res vs
    assume "items = us @ Some (TransactionResult r0) # ms @ Some (TransactionResult res) # vs"
      "\<forall>i \<in> set ms. \<not> is_result i \<and> \<not> is_signed i"
    from unpaired [OF this]
    show "pb_transactions ?p ! Suc (results_in us) = transaction_from E None res"
      "tx_type (pb_transactions ?p ! Suc (results_in us)) = ''unknown''"
      "payer (pb_transactions ?p ! Suc (results_in us)) = []" by (simp_all only: blank)
  qed (rule parse, rule len)
qed

lemma parse_block_pairing_witness:
  "let res = \<lparr>tr_status = 22, tr_consensus_timestamp = None, tr_transaction_fee_charged = 5,
              tr_transfer_list = None, tr_token_transfer_lists = []\<rparr>;
       E = demo\<lparr>dec_block := \<lambda>_. Inr [Some (SignedTransaction [1]), Some (TransactionResult res), Some (TransactionResult res)]\<rparr>
   in \<exists>p. parse_block E [] = Inr p \<and> length (pb_transactions p) = 2 \<and>
        pb_transactions p ! 0 = transaction_from E (body_of E [1]) res \<and>
        tx_type (pb_transactions p ! 1) = ''unknown''"
proof -
  let ?res = "\<lparr>tr_status = 22, tr_consensus_timestamp = None, tr_transaction_fee_charged = 5,
              tr_transfer_list = None, tr_token_transfer_lists = []\<rparr>"
  let ?items = "[Some (SignedTransaction [1]), Some (TransactionResult ?res), Some (TransactionResult ?res)]"
  let ?E = "demo\<lparr>dec_block := \<lambda>_. Inr ?items\<rparr>"
  have i: "inflate ?E [] = Inr []" by (simp add: inflate_def is_gzip_def)
  have d: "dec_block ?E [] = Inr ?items" by simp
  obtain p where p: "parse_block ?E [] = Inr p" "length (pb_transactions p) = results_in ?items"
    "\<And>us b ms res vs. ?items = us @ Some (SignedTransaction b) # ms @ Some (TransactionResult res) # vs \<Longrightarrow>
       (\<forall>i \<in> set ms. \<not> is_result i \<and> \<not> is_signed i) \<Longrightarrow>
       pb_transactions p ! results_in us = transaction_from ?E (body_of ?E b) res"
    "\<And>us r0 ms res vs. ?items = us @ Some (TransactionResult r0) # ms @ Some (TransactionResult res) # vs \<Longrightarrow>
       (\<forall>i \<in> set ms. \<not> is_result i \<and> \<not> is_signed i) \<Longrightarrow>
       tx_type (pb_transactions p ! Suc (results_in us)) = ''unknown''"
    using parse_block_pairing [OF i d] by (elim exE conjE) blast
  have "pb_transactions p ! results_in [] = transaction_from ?E (body_of ?E [1]) ?res"
    by (rule p(3) [of "[]" _ "[]"]) simp_all
  moreover have "tx_type (pb_transactions p ! Suc (results_in [Some (SignedTransaction [1])])) = ''unknown''"
    by (rule p(4) [of "[Some (SignedTransaction [1])]" _ "[]"]) simp_all
  ultimately show ?thesis using p(1,2) by (simp add: results_in_def)
qed

text \<open>The activity of a block: a node appears with the number of event headers it created (an event
  without a core counts for node 0), no other node appears, and the total is the number of event
  headers, both modulo the width of the counter.\<close>

theorem block_activity_counts:
  assumes "inflate E bytes = Inr raw" "dec_block E raw = Inr items"
  shows "\<exists>a. block_activity E bytes = Inr a \<and> bt_wf (events_by_node a) \<and>
    (\<forall>c. bt_get (events_by_node a) c =
       (if events_of c items = 0 then None else Some (of_nat (events_of c items)))) \<and>
    total_events a = of_nat (length (filter (\<lambda>i. creator_of i \<noteq> None) items))"
  using assms activity_events [of "\<lparr>activity_block_number = 0, activity_rounds = [], events_by_node = []\<rparr>" items]
    activity_total [of "\<lparr>activity_block_number = 0, activity_rounds = [], events_by_node = []\<rparr>" items]
  by (simp add: block_activity_def total_events_def bt_wf_def bt_get_def)

lemma block_activity_counts_witness:
  "let E = demo\<lparr>dec_block := \<lambda>_. Inr [Some (EventHeader (Some 3)), Some (EventHeader None), Some (EventHeader (Some 3))]\<rparr>
   in \<exists>a. block_activity E [] = Inr a \<and> bt_get (events_by_node a) 3 = Some 2 \<and> total_events a = 3"
proof -
  let ?items = "[Some (EventHeader (Some 3)), Some (EventHeader None), Some (EventHeader (Some 3))]"
  let ?E = "demo\<lparr>dec_block := \<lambda>_. Inr ?items\<rparr>"
  have i: "inflate ?E [] = Inr []" by (simp add: inflate_def is_gzip_def)
  have d: "dec_block ?E [] = Inr ?items" by simp
  from block_activity_counts [OF i d] show ?thesis by (auto simp: events_of_def Let_def)
qed

end
