(* ===== verification/Merkle.thy ===== *)
theory Merkle
  imports Prelude
begin

text \<open>
  \<open>src/block/merkle.rs\<close>: the block merkle tree hasher. \<open>add_leaf\<close>/\<open>root\<close> are the streaming
  binary-counter hasher, \<open>merkle_root\<close>, \<open>witness_for\<close> and \<open>fold_witness\<close> the offline tree
  and its inclusion witnesses. SHA-384 (crate \<open>sha2\<close>) is the parameter \<open>sha\<close> of every
  definition. A panicking index, slice or \<open>expect\<close> of the source is \<open>None\<close>.

  The specification both sides are compared with is \<open>mth\<close>, the recursive merkle tree hash that
  splits at the largest power of two below the number of leaves. The facts of this theory are:
  the streaming hasher never underflows and computes \<open>mth\<close>; the offline root computes \<open>mth\<close>;
  the witness of every leaf folds to the root; and two different openings of one root give a
  collision of \<open>sha\<close> among the inputs hashed on the way.
\<close>

section \<open>Node hashes\<close>

definition hash_leaf :: "(bytes \<Rightarrow> bytes) \<Rightarrow> bytes \<Rightarrow> bytes" where
  "hash_leaf sha leaf_bytes = sha (0x00 # leaf_bytes)"

definition hash_internal :: "(bytes \<Rightarrow> bytes) \<Rightarrow> bytes \<Rightarrow> bytes \<Rightarrow> bytes" where
  "hash_internal sha left right = sha (0x02 # left @ right)"

definition hash_internal_single_child :: "(bytes \<Rightarrow> bytes) \<Rightarrow> bytes \<Rightarrow> bytes" where
  "hash_internal_single_child sha child = sha (0x01 # child)"

definition HASH_LENGTH :: nat where
  "HASH_LENGTH = 48"

text \<open>The documented output size of SHA-384; a hypothesis of the facts that need it.\<close>

definition sha384_len :: "(bytes \<Rightarrow> bytes) \<Rightarrow> bool" where
  "sha384_len sha \<longleftrightarrow> (\<forall>x. length (sha x) = 48)"

section \<open>The streaming hasher\<close>

text \<open>\<open>stack\<close> is the \<open>Vec\<close> in its own order: the top is the last element.\<close>

record streaming_tree_hasher =
  stack :: "bytes list"
  leaf_count :: u64

definition streaming_default :: streaming_tree_hasher where
  "streaming_default = \<lparr>stack = [], leaf_count = 0\<rparr>"

definition pop :: "'a list \<Rightarrow> ('a \<times> 'a list) option" where
  "pop xs = (if xs = [] then None else Some (last xs, butlast xs))"

text \<open>The \<open>while n & 1 == 1\<close> loop of \<open>add_leaf\<close>.\<close>

function fold_up :: "(bytes \<Rightarrow> bytes) \<Rightarrow> bytes list \<Rightarrow> u64 \<Rightarrow> bytes list option" where
  "fold_up sha st n =
     (if n AND 1 = 1 then
        (case pop st of
           None \<Rightarrow> None
         | Some (right, st1) \<Rightarrow>
             (case pop st1 of
                None \<Rightarrow> None
              | Some (left, st2) \<Rightarrow>
                  fold_up sha (st2 @ [hash_internal sha left right]) (drop_bit 1 n)))
      else Some st)"
  by pat_completeness auto
termination
proof (relation "measure (\<lambda>(sha, st, n). unat n)")
  fix n :: u64
  assume "n AND 1 = 1"
  then have "n \<noteq> 0" by auto
  then have "0 < unat n" by (simp add: unat_gt_0)
  then show "((sha, st', drop_bit 1 n), (sha, st, n)) \<in> measure (\<lambda>(sha, st, n). unat n)"
    for sha :: "bytes \<Rightarrow> bytes" and st st' :: "bytes list"
    by (simp add: drop_bit_eq_div unat_div)
qed simp

declare fold_up.simps [simp del]

definition add_leaf :: "(bytes \<Rightarrow> bytes) \<Rightarrow> streaming_tree_hasher \<Rightarrow> bytes \<Rightarrow> streaming_tree_hasher option" where
  "add_leaf sha t hash =
     map_option (\<lambda>st. \<lparr>stack = st, leaf_count = leaf_count t + 1\<rparr>)
       (fold_up sha (stack t @ [hash]) (leaf_count t))"

definition root :: "(bytes \<Rightarrow> bytes) \<Rightarrow> streaming_tree_hasher \<Rightarrow> bytes" where
  "root sha t =
     (if stack t = [] then hash_leaf sha []
      else fold (\<lambda>hash acc. hash_internal sha hash acc) (rev (butlast (stack t))) (last (stack t)))"

section \<open>The offline tree and its witnesses\<close>

datatype side = Left | Right

record merkle_witness =
  siblings :: "(side \<times> bytes) list"
  left_peaks :: "bytes list"
  right_root :: "bytes option"

text \<open>The loop over the bits of \<open>usize\<close> from the top; the first argument counts the bits left.\<close>

fun peak_bounds_loop :: "nat \<Rightarrow> nat \<Rightarrow> nat \<Rightarrow> (nat \<times> nat) list" where
  "peak_bounds_loop 0 n start = []"
| "peak_bounds_loop (Suc b) n start =
     (if n AND 2 ^ b \<noteq> 0
      then (start, 2 ^ b) # peak_bounds_loop b n (start + 2 ^ b)
      else peak_bounds_loop b n start)"

definition peak_bounds :: "nat \<Rightarrow> (nat \<times> nat) list" where
  "peak_bounds n = peak_bounds_loop 64 n 0"

text \<open>One level of a perfect tree: adjacent nodes in pairs; \<open>level[i + 1]\<close> panics on an odd one.\<close>

fun pair_level :: "(bytes \<Rightarrow> bytes) \<Rightarrow> bytes list \<Rightarrow> bytes list option" where
  "pair_level sha [] = Some []"
| "pair_level sha [x] = None"
| "pair_level sha (x # y # zs) = map_option (\<lambda>next. hash_internal sha x y # next) (pair_level sha zs)"

lemma length_pair_level: "pair_level sha xs = Some ys \<Longrightarrow> length xs = 2 * length ys"
  by (induction sha xs arbitrary: ys rule: pair_level.induct) auto

function perfect_root :: "(bytes \<Rightarrow> bytes) \<Rightarrow> bytes list \<Rightarrow> bytes option" where
  "perfect_root sha level =
     (if length level > 1
      then (case pair_level sha level of None \<Rightarrow> None | Some next \<Rightarrow> perfect_root sha next)
      else get_at level 0)"
  by pat_completeness auto
termination
  by (relation "measure (\<lambda>(sha, level). length level)") (auto dest!: length_pair_level)

declare perfect_root.simps [simp del]

definition fold_peaks :: "(bytes \<Rightarrow> bytes) \<Rightarrow> bytes list \<Rightarrow> bytes option" where
  "fold_peaks sha roots =
     (if roots = [] then None
      else Some (fold (\<lambda>r acc. hash_internal sha r acc) (rev (butlast roots)) (last roots)))"

text \<open>The roots of the peaks with the given bounds; a slice out of range panics.\<close>

definition peak_roots :: "(bytes \<Rightarrow> bytes) \<Rightarrow> bytes list \<Rightarrow> (nat \<times> nat) list \<Rightarrow> bytes list option" where
  "peak_roots sha leaves bounds =
     those (map (\<lambda>(start, size). Option.bind (get_slice start (start + size) leaves) (perfect_root sha)) bounds)"

definition merkle_root :: "(bytes \<Rightarrow> bytes) \<Rightarrow> bytes list \<Rightarrow> bytes option" where
  "merkle_root sha leaves =
     map_option (\<lambda>roots. case fold_peaks sha roots of None \<Rightarrow> hash_leaf sha [] | Some r \<Rightarrow> r)
       (peak_roots sha leaves (peak_bounds (length leaves)))"

text \<open>\<open>Iterator::rposition\<close>: the index of the last element that satisfies \<open>P\<close>.\<close>

fun rposition :: "('a \<Rightarrow> bool) \<Rightarrow> 'a list \<Rightarrow> nat option" where
  "rposition P [] = None"
| "rposition P (x # xs) =
     (case rposition P xs of Some i \<Rightarrow> Some (Suc i) | None \<Rightarrow> if P x then Some 0 else None)"

function peak_path :: "(bytes \<Rightarrow> bytes) \<Rightarrow> bytes list \<Rightarrow> nat \<Rightarrow> (side \<times> bytes) list option" where
  "peak_path sha level pos =
     (if length level > 1 then
        (case (if pos mod 2 = 0 then map_option (Pair Right) (get_at level (pos + 1))
               else map_option (Pair Left) (get_at level (pos - 1))) of
           None \<Rightarrow> None
         | Some sibling \<Rightarrow>
             (case pair_level sha level of
                None \<Rightarrow> None
              | Some next \<Rightarrow> map_option (\<lambda>rest. sibling # rest) (peak_path sha next (pos div 2))))
      else Some [])"
  by pat_completeness auto
termination
  by (relation "measure (\<lambda>(sha, level, pos). length level)") (auto dest!: length_pair_level)

declare peak_path.simps [simp del]

text \<open>
  The outer \<open>option\<close> is the panic, the inner one the \<open>None\<close> the function returns for an index
  out of range.
\<close>

definition witness_for :: "(bytes \<Rightarrow> bytes) \<Rightarrow> bytes list \<Rightarrow> nat \<Rightarrow> merkle_witness option option" where
  "witness_for sha leaves index =
     (if index \<ge> length leaves then Some None
      else let peaks = peak_bounds (length leaves) in
        (case rposition (\<lambda>(start, _). start \<le> index) peaks of
           None \<Rightarrow> None
         | Some p \<Rightarrow> let (start, size) = peaks ! p in
             (case get_slice start (start + size) leaves of
                None \<Rightarrow> None
              | Some peak_leaves \<Rightarrow>
                  (case (peak_path sha peak_leaves (index - start),
                         peak_roots sha leaves (take p peaks),
                         peak_roots sha leaves (drop (p + 1) peaks)) of
                     (Some path, Some lefts, Some rights) \<Rightarrow>
                       Some (Some \<lparr>siblings = path, left_peaks = lefts, right_root = fold_peaks sha rights\<rparr>)
                   | _ \<Rightarrow> None))))"

definition fold_siblings :: "(bytes \<Rightarrow> bytes) \<Rightarrow> (side \<times> bytes) list \<Rightarrow> bytes \<Rightarrow> bytes" where
  "fold_siblings sha path leaf =
     fold (\<lambda>(side, sibling) acc. case side of
             Left \<Rightarrow> hash_internal sha sibling acc
           | Right \<Rightarrow> hash_internal sha acc sibling) path leaf"

definition fold_witness :: "(bytes \<Rightarrow> bytes) \<Rightarrow> bytes \<Rightarrow> merkle_witness \<Rightarrow> bytes" where
  "fold_witness sha leaf w =
     (let acc = fold_siblings sha (siblings w) leaf;
          acc = (case right_root w of None \<Rightarrow> acc | Some right \<Rightarrow> hash_internal sha acc right)
      in fold (\<lambda>left acc. hash_internal sha left acc) (rev (left_peaks w)) acc)"

section \<open>The specification: the recursive merkle tree hash\<close>

text \<open>The largest power of two below \<open>n\<close>, for \<open>n \<ge> 2\<close>.\<close>

fun split_point :: "nat \<Rightarrow> nat" where
  "split_point n = (if n \<le> 2 then 1 else 2 * split_point ((n + 1) div 2))"

declare split_point.simps [simp del]

lemma split_point_bounds: "2 \<le> n \<Longrightarrow> \<exists>k. split_point n = 2 ^ k \<and> 2 ^ k < n \<and> n \<le> 2 ^ Suc k"
proof (induction n rule: split_point.induct)
  case (1 n)
  show ?case
  proof (cases "n \<le> 2")
    case True
    with "1.prems" have "n = 2" by simp
    then show ?thesis by (intro exI [of _ 0]) (simp add: split_point.simps)
  next
    case False
    then obtain k where k: "split_point ((n + 1) div 2) = 2 ^ k" "2 ^ k < (n + 1) div 2"
        "(n + 1) div 2 \<le> 2 ^ Suc k"
      using "1.IH" by fastforce
    have "split_point n = 2 ^ Suc k"
      using False k(1) by (simp add: split_point.simps [of n])
    moreover have "2 ^ Suc k < n" using k(2) by simp
    moreover have "n \<le> 2 ^ Suc (Suc k)" using k(3) by simp
    ultimately show ?thesis by blast
  qed
qed

function mth :: "(bytes \<Rightarrow> bytes) \<Rightarrow> bytes list \<Rightarrow> bytes" where
  "mth sha xs =
     (if xs = [] then hash_leaf sha []
      else if length xs = 1 then hd xs
      else hash_internal sha (mth sha (take (split_point (length xs)) xs))
             (mth sha (drop (split_point (length xs)) xs)))"
  by pat_completeness auto
termination
proof (relation "measure (\<lambda>(sha, xs). length xs)")
  fix sha :: "bytes \<Rightarrow> bytes" and xs :: "bytes list"
  assume "xs \<noteq> []" "length xs \<noteq> 1"
  then have "2 \<le> length xs" by (cases xs) (auto simp: neq_Nil_conv Suc_le_eq)
  then obtain k where k: "split_point (length xs) = 2 ^ k" "2 ^ k < length xs"
    using split_point_bounds by blast
  then show "((sha, take (split_point (length xs)) xs), sha, xs) \<in> measure (\<lambda>(sha, xs). length xs)"
    by simp
  have "length xs - 2 ^ k < length xs"
    using k(2) by (intro diff_less) auto
  with k(1)
  show "((sha, drop (split_point (length xs)) xs), sha, xs) \<in> measure (\<lambda>(sha, xs). length xs)"
    by simp
qed simp

declare mth.simps [simp del]

lemma mth_Nil [simp]: "mth sha [] = hash_leaf sha []"
  by (simp add: mth.simps)

lemma mth_single [simp]: "mth sha [x] = x"
  by (simp add: mth.simps)

lemma power_bracket_unique:
  assumes "(2::nat) ^ k < n" "n \<le> 2 ^ Suc k" "2 ^ m < n" "n \<le> 2 ^ Suc m"
  shows "k = m"
proof -
  have "(2::nat) ^ k < 2 ^ Suc m" "(2::nat) ^ m < 2 ^ Suc k" using assms by auto
  then show ?thesis using power_strict_increasing_iff [of "2::nat"] by (metis less_Suc_eq_le
        one_less_numeral_iff order_antisym semiring_norm(76))
qed

lemma split_point_eq: "2 ^ k < n \<Longrightarrow> n \<le> 2 ^ Suc k \<Longrightarrow> split_point n = 2 ^ k"
proof -
  assume a: "2 ^ k < n" "n \<le> 2 ^ Suc k"
  then have "2 \<le> n" using one_le_power [of "2::nat" k] by linarith
  from split_point_bounds [OF this] obtain m where m: "split_point n = 2 ^ m" "2 ^ m < n" "n \<le> 2 ^ Suc m"
    by blast
  with a power_bracket_unique [of k n m] show ?thesis by simp
qed

text \<open>The one unfolding every proof below uses: split off a full left subtree.\<close>

lemma mth_split:
  assumes "length xs = 2 ^ k" "0 < length ys" "length ys \<le> 2 ^ k"
  shows "mth sha (xs @ ys) = hash_internal sha (mth sha xs) (mth sha ys)"
proof -
  have "split_point (length (xs @ ys)) = 2 ^ k"
    using assms by (intro split_point_eq) simp_all
  moreover have "0 < length xs" using assms(1) by simp
  then have "length (xs @ ys) \<noteq> 1"
    using assms(2) length_append [of xs ys] by linarith
  moreover have "ys \<noteq> []" using assms(2) by simp
  ultimately show ?thesis
    using assms(1) by (simp add: mth.simps [of sha "xs @ ys"])
qed

section \<open>Perfect subtrees\<close>

text \<open>The level above, for an even number of nodes.\<close>

fun pairs :: "(bytes \<Rightarrow> bytes) \<Rightarrow> bytes list \<Rightarrow> bytes list" where
  "pairs sha (x # y # zs) = hash_internal sha x y # pairs sha zs"
| "pairs sha _ = []"

lemma pair_level_even: "even (length xs) \<Longrightarrow> pair_level sha xs = Some (pairs sha xs)"
  by (induction sha xs rule: pair_level.induct) auto

lemma length_pairs: "length (pairs sha xs) = length xs div 2"
  by (induction sha xs rule: pairs.induct) auto

lemma pairs_append: "even (length xs) \<Longrightarrow> pairs sha (xs @ ys) = pairs sha xs @ pairs sha ys"
  by (induction sha xs rule: pair_level.induct) auto

lemma pairs_nth:
  "even (length xs) \<Longrightarrow> i < length xs div 2 \<Longrightarrow>
     pairs sha xs ! i = hash_internal sha (xs ! (2 * i)) (xs ! (2 * i + 1))"
proof (induction sha xs arbitrary: i rule: pair_level.induct)
  case (3 sha x y zs)
  then show ?case by (cases i) auto
qed auto

lemma split_list_length: "length xs = m + n \<Longrightarrow> \<exists>us vs. xs = us @ vs \<and> length us = m \<and> length vs = n"
  by (intro exI [of _ "take m xs"] exI [of _ "drop m xs"]) simp

lemma mth_pairs: "length xs = 2 ^ Suc k \<Longrightarrow> mth sha (pairs sha xs) = mth sha xs"
proof (induction k arbitrary: xs)
  case 0
  then obtain x y where "xs = [x] @ [y]"
    by (auto simp: length_Suc_conv numeral_2_eq_2)
  then show ?case using mth_split [of "[x]" 0 "[y]" sha] by simp
next
  case (Suc k)
  then obtain us vs where xs: "xs = us @ vs" "length us = 2 ^ Suc k" "length vs = 2 ^ Suc k"
    using split_list_length [of xs "2 ^ Suc k" "2 ^ Suc k"] by auto
  have "mth sha (pairs sha xs) = mth sha (pairs sha us @ pairs sha vs)"
    using xs by (simp add: pairs_append)
  also have "\<dots> = hash_internal sha (mth sha (pairs sha us)) (mth sha (pairs sha vs))"
    using xs by (intro mth_split [where k = k]) (simp_all add: length_pairs)
  also have "\<dots> = hash_internal sha (mth sha us) (mth sha vs)"
    using Suc.IH [OF xs(2)] Suc.IH [OF xs(3)] by simp
  also have "\<dots> = mth sha xs"
    using xs by (simp add: mth_split [where k = "Suc k"])
  finally show ?case .
qed

text \<open>The level-by-level root of a power-of-two run of leaves is the recursive one.\<close>

lemma perfect_root_mth: "length xs = 2 ^ k \<Longrightarrow> perfect_root sha xs = Some (mth sha xs)"
proof (induction k arbitrary: xs)
  case 0
  then obtain x where "xs = [x]" by (auto simp: length_Suc_conv)
  then show ?case by (simp add: perfect_root.simps get_at_def)
next
  case (Suc k)
  have "0 < (2::nat) ^ k" by simp
  moreover have "length xs = 2 * 2 ^ k" using Suc.prems by simp
  ultimately have "1 < length xs" by linarith
  then have "perfect_root sha xs = perfect_root sha (pairs sha xs)"
    using Suc.prems by (simp add: perfect_root.simps [of sha xs] pair_level_even)
  also have "\<dots> = Some (mth sha (pairs sha xs))"
    using Suc.prems by (intro Suc.IH) (simp add: length_pairs)
  finally show ?case using mth_pairs [OF Suc.prems] by simp
qed

section \<open>The peaks of a mountain range\<close>

text \<open>The leaves of each peak, for fewer than \<open>2 ^ b\<close> leaves: one run per set bit, largest first.\<close>

fun peaks :: "nat \<Rightarrow> 'a list \<Rightarrow> 'a list list" where
  "peaks 0 xs = []"
| "peaks (Suc b) xs =
     (if 2 ^ b \<le> length xs then take (2 ^ b) xs # peaks b (drop (2 ^ b) xs) else peaks b xs)"

lemma peaks_Nil [simp]: "peaks b [] = []"
  by (induction b) auto

lemma peaks_power: "p \<in> set (peaks b xs) \<Longrightarrow> \<exists>k < b. length p = 2 ^ k"
  by (induction b arbitrary: xs) (auto split: if_splits simp: less_Suc_eq)

lemma concat_peaks: "length xs < 2 ^ b \<Longrightarrow> concat (peaks b xs) = xs"
  by (induction b arbitrary: xs) auto

text \<open>Adding a run whose size is a power of two below every set bit adds one peak at the end.\<close>

lemma peaks_snoc:
  assumes "length xs = 2 * m * 2 ^ k" "length ys = 2 ^ k" "length xs + length ys < 2 ^ b"
  shows "peaks b (xs @ ys) = peaks b xs @ [ys]"
  using assms
proof (induction b arbitrary: xs m)
  case 0
  then show ?case by simp
next
  case (Suc b)
  have pos: "0 < (2::nat) ^ k" by simp
  show ?case
  proof (cases "k = b")
    case True
    have "m = 0"
    proof (rule ccontr)
      assume "m \<noteq> 0"
      then have "2 * 2 ^ k \<le> 2 * m * (2::nat) ^ k" by simp
      with Suc.prems True show False by simp
    qed
    then show ?thesis using Suc.prems True by simp
  next
    case False
    have "k < b"
    proof (rule ccontr)
      assume "\<not> k < b"
      then have "Suc b \<le> k" using False by simp
      then have "(2::nat) ^ Suc b \<le> 2 ^ k" by (intro power_increasing) simp_all
      with Suc.prems show False by simp
    qed
    then obtain d where d: "b = Suc (k + d)" using less_iff_Suc_add by blast
    have b2: "(2::nat) ^ b = 2 * 2 ^ d * 2 ^ k" using d by (simp add: power_add)
    show ?thesis
    proof (cases "2 ^ b \<le> length xs")
      case True
      then have "2 ^ d \<le> m" using Suc.prems(1) b2 pos by simp
      then have "length (drop (2 ^ b) xs) = 2 * (m - 2 ^ d) * 2 ^ k"
        using Suc.prems(1) b2 by (simp add: diff_mult_distrib diff_mult_distrib2)
      moreover have "length (drop (2 ^ b) xs) + length ys < 2 ^ b"
        using Suc.prems True by simp
      ultimately have "peaks b (drop (2 ^ b) xs @ ys) = peaks b (drop (2 ^ b) xs) @ [ys]"
        using Suc.IH Suc.prems(2) by blast
      with True show ?thesis by simp
    next
      case False
      then have "m < 2 ^ d" using Suc.prems(1) b2 by simp
      then have "2 * (m + 1) * 2 ^ k \<le> 2 * 2 ^ d * (2::nat) ^ k" by (intro mult_le_mono) simp_all
      then have "length xs + 2 * 2 ^ k \<le> 2 ^ b" using Suc.prems(1) b2 by (simp add: algebra_simps)
      then have lt: "length xs + length ys < 2 ^ b" using Suc.prems(2) pos by linarith
      then have "peaks b (xs @ ys) = peaks b xs @ [ys]"
        using Suc.IH Suc.prems(1,2) by blast
      with lt False show ?thesis by simp
    qed
  qed
qed

text \<open>Folding the peak roots from the right is the recursive tree.\<close>

lemma fold_right_Cons:
  "ys \<noteq> [] \<Longrightarrow> fold f (rev (butlast (y # ys))) (last (y # ys)) = f y (fold f (rev (butlast ys)) (last ys))"
  by simp

lemma fold_peaks_Nil [simp]: "fold_peaks sha [] = None"
  by (simp add: fold_peaks_def)

lemma fold_peaks_single [simp]: "fold_peaks sha [r] = Some r"
  by (simp add: fold_peaks_def)

lemma fold_peaks_Cons:
  "fold_peaks sha (r # rs) =
     Some (case fold_peaks sha rs of None \<Rightarrow> r | Some acc \<Rightarrow> hash_internal sha r acc)"
  by (cases "rs = []") (simp_all add: fold_peaks_def)

lemma fold_peaks_mth:
  "xs \<noteq> [] \<Longrightarrow> length xs < 2 ^ b \<Longrightarrow> fold_peaks sha (map (mth sha) (peaks b xs)) = Some (mth sha xs)"
proof (induction b arbitrary: xs)
  case 0
  then show ?case by simp
next
  case (Suc b)
  show ?case
  proof (cases "2 ^ b \<le> length xs")
    case False
    then show ?thesis using Suc by simp
  next
    case True
    let ?l = "take (2 ^ b) xs" and ?r = "drop (2 ^ b) xs"
    show ?thesis
    proof (cases "?r = []")
      case True
      with \<open>2 ^ b \<le> length xs\<close> show ?thesis by (simp add: fold_peaks_Cons)
    next
      case False
      have "length ?r < 2 ^ b" using Suc.prems True by simp
      with False have "fold_peaks sha (map (mth sha) (peaks b ?r)) = Some (mth sha ?r)"
        by (rule Suc.IH)
      moreover have "mth sha (?l @ ?r) = hash_internal sha (mth sha ?l) (mth sha ?r)"
        using True False \<open>length ?r < 2 ^ b\<close> by (intro mth_split [where k = b]) simp_all
      ultimately show ?thesis using True by (simp add: fold_peaks_Cons)
    qed
  qed
qed

section \<open>The streaming hasher computes the tree\<close>

lemma word_and_1: "n AND 1 = 1 \<longleftrightarrow> odd (unat n)" for n :: u64
proof -
  have "odd (unat n) \<longleftrightarrow> bit n 0" by (simp add: bit_unsigned_iff flip: bit_0)
  also have "\<dots> \<longleftrightarrow> n AND 1 = 1" by (simp add: bit_0 and_one_eq mod_2_eq_odd)
  finally show ?thesis ..
qed

lemma unat_half: "unat (drop_bit (Suc 0) n) = unat n div 2" for n :: u64
  by (simp add: drop_bit_eq_div unat_div)

lemma pop_snoc [simp]: "pop (xs @ [x]) = Some (x, xs)" "pop (xs @ [y, x]) = Some (x, xs @ [y])"
  by (simp_all add: pop_def butlast_append)

text \<open>
  The carry: pushing the root of a run of \<open>2 ^ k\<close> leaves onto the stack of \<open>n\<close> such runs and
  collapsing gives the stack of the longer list, with no pop of an empty stack.
\<close>

lemma fold_up_peaks:
  assumes "length xs = unat n * 2 ^ k" "length ys = 2 ^ k" "length xs + length ys < 2 ^ b"
  shows "fold_up sha (map (mth sha) (peaks b xs) @ [mth sha ys]) n =
    Some (map (mth sha) (peaks b (xs @ ys)))"
  using assms
proof (induction "unat n" arbitrary: n k xs ys rule: less_induct)
  case less
  show ?case
  proof (cases "odd (unat n)")
    case False
    then obtain m where "unat n = 2 * m" by blast
    then have "peaks b (xs @ ys) = peaks b xs @ [ys]"
      using less.prems by (intro peaks_snoc [where m = m and k = k]) simp_all
    with False show ?thesis by (simp add: fold_up.simps [of sha _ n] word_and_1)
  next
    case True
    then obtain m where m: "unat n = 2 * m + 1" using oddE by blast
    then have "length xs = 2 * m * 2 ^ k + 2 ^ k" using less.prems(1) by simp
    then obtain us zs where xs: "xs = us @ zs" "length us = 2 * m * 2 ^ k" "length zs = 2 ^ k"
      using split_list_length by blast
    have old: "peaks b xs = peaks b us @ [zs]"
      using less.prems xs by (simp add: peaks_snoc [where m = m and k = k])
    have half: "unat (drop_bit 1 n) = m" using m by (simp add: unat_half)
    have "fold_up sha (map (mth sha) (peaks b us) @ [mth sha (zs @ ys)]) (drop_bit 1 n) =
        Some (map (mth sha) (peaks b (us @ (zs @ ys))))"
    proof (rule less.hyps [where k = "Suc k"])
      show "unat (drop_bit 1 n) < unat n" using half m by simp
      show "length us = unat (drop_bit 1 n) * 2 ^ Suc k" using half xs(2) by simp
      show "length (zs @ ys) = 2 ^ Suc k" using xs(3) less.prems(2) by simp
      show "length us + length (zs @ ys) < 2 ^ b" using xs less.prems(3) by simp
    qed
    moreover have "mth sha (zs @ ys) = hash_internal sha (mth sha zs) (mth sha ys)"
      using xs(3) less.prems(2) by (intro mth_split [where k = k]) simp_all
    ultimately show ?thesis
      using True xs(1) old by (simp add: fold_up.simps [of sha _ n] word_and_1)
  qed
qed

text \<open>
  \<open>represents t xs\<close>: the state of the hasher after the leaves \<open>xs\<close>. The stack holds the root
  of one perfect subtree per set bit of the count, largest first.
\<close>

definition represents :: "(bytes \<Rightarrow> bytes) \<Rightarrow> streaming_tree_hasher \<Rightarrow> bytes list \<Rightarrow> bool" where
  "represents sha t xs \<longleftrightarrow>
     length xs < 2 ^ 64 \<and> unat (leaf_count t) = length xs \<and> stack t = map (mth sha) (peaks 64 xs)"

lemma represents_default: "represents sha streaming_default []"
  by (simp add: represents_def streaming_default_def)

lemma add_leaf_represents:
  assumes "represents sha t xs" "Suc (length xs) < 2 ^ 64"
  shows "\<exists>t'. add_leaf sha t x = Some t' \<and> represents sha t' (xs @ [x])"
proof -
  have "fold_up sha (map (mth sha) (peaks 64 xs) @ [mth sha [x]]) (leaf_count t) =
      Some (map (mth sha) (peaks 64 (xs @ [x])))"
    using assms by (intro fold_up_peaks [where k = 0]) (simp_all add: represents_def)
  then have "add_leaf sha t x = Some \<lparr>stack = map (mth sha) (peaks 64 (xs @ [x])), leaf_count = leaf_count t + 1\<rparr>"
    using assms by (simp add: add_leaf_def represents_def)
  moreover have "unat (leaf_count t + 1) = Suc (length xs)"
    using assms by (simp add: represents_def unat_word_ariths)
  ultimately show ?thesis
    using assms by (simp add: represents_def)
qed

lemma root_represents: "represents sha t xs \<Longrightarrow> root sha t = mth sha xs"
proof (cases "xs = []")
  case True
  then show "represents sha t xs \<Longrightarrow> root sha t = mth sha xs"
    by (simp add: represents_def root_def)
next
  case False
  assume r: "represents sha t xs"
  then have "fold_peaks sha (stack t) = Some (mth sha xs)"
    using fold_peaks_mth [OF False, of 64 sha] by (simp add: represents_def)
  then show "root sha t = mth sha xs"
    by (simp add: fold_peaks_def root_def split: if_splits)
qed

section \<open>The contract of a leaf accumulator\<close>

text \<open>
  What the block extraction uses of the hasher: leaves are added one by one, fewer than
  \<open>limit\<close> of them, and the root at the end is a function \<open>spec\<close> of the sequence of leaves. The
  client lemma is the loop of \<open>scan_block\<close>: items routed to the accumulator or passed over.
\<close>

locale leaf_accumulator =
  fixes new :: 't
    and add :: "'t \<Rightarrow> bytes \<Rightarrow> 't option"
    and get_root :: "'t \<Rightarrow> bytes"
    and holds :: "'t \<Rightarrow> bytes list \<Rightarrow> bool"
    and spec :: "bytes list \<Rightarrow> bytes"
    and limit :: nat
  assumes holds_new: "holds new []"
    and holds_add: "holds t xs \<Longrightarrow> Suc (length xs) < limit \<Longrightarrow> \<exists>t'. add t x = Some t' \<and> holds t' (xs @ [x])"
    and root_spec: "holds t xs \<Longrightarrow> get_root t = spec xs"

fun add_all :: "('t \<Rightarrow> bytes \<Rightarrow> 't option) \<Rightarrow> 't \<Rightarrow> bytes list \<Rightarrow> 't option" where
  "add_all add t [] = Some t"
| "add_all add t (x # xs) = (case add t x of None \<Rightarrow> None | Some t' \<Rightarrow> add_all add t' xs)"

context leaf_accumulator
begin

lemma add_all_holds:
  "holds t xs \<Longrightarrow> length xs + length ys < limit \<Longrightarrow>
     \<exists>t'. add_all add t ys = Some t' \<and> holds t' (xs @ ys)"
proof (induction ys arbitrary: t xs)
  case Nil
  then show ?case by simp
next
  case (Cons y ys)
  then obtain t1 where t1: "add t y = Some t1" "holds t1 (xs @ [y])"
    using holds_add [of t xs y] by auto
  then obtain t2 where "add_all add t1 ys = Some t2" "holds t2 ((xs @ [y]) @ ys)"
    using Cons.IH [of t1 "xs @ [y]"] Cons.prems(2) by auto
  with t1(1) show ?case by simp
qed

lemma add_all_root: "length ys < limit \<Longrightarrow> \<exists>t. add_all add new ys = Some t \<and> get_root t = spec ys"
  using add_all_holds [OF holds_new, of ys] root_spec by fastforce

text \<open>Adding never fails on the way: the accumulator has room for every prefix.\<close>

lemma add_all_prefix_total: "length (xs @ ys) < limit \<Longrightarrow> add_all add new xs \<noteq> None"
  using add_all_holds [OF holds_new, of xs] by auto

end

interpretation streaming: leaf_accumulator streaming_default "add_leaf sha" "root sha" "represents sha" "mth sha" "2 ^ 64"
  for sha
  by unfold_locales (auto intro: represents_default add_leaf_represents root_represents)

definition streaming_root :: "(bytes \<Rightarrow> bytes) \<Rightarrow> bytes list \<Rightarrow> bytes option" where
  "streaming_root sha leaves = map_option (root sha) (add_all (add_leaf sha) streaming_default leaves)"

lemma streaming_root_mth: "length leaves < 2 ^ 64 \<Longrightarrow> streaming_root sha leaves = Some (mth sha leaves)"
  using streaming.add_all_root [of leaves sha] by (auto simp: streaming_root_def)

section \<open>The offline root\<close>

lemma and_power_iff: "n AND 2 ^ b \<noteq> 0 \<longleftrightarrow> odd (n div 2 ^ b)" for n :: nat
proof -
  have "n AND 2 ^ b = (if bit n b then 2 ^ b else 0)"
    by (rule bit_eqI) (auto simp: bit_simps)
  then show ?thesis by (simp add: bit_iff_odd)
qed

text \<open>The bounds are those of the peaks, in order and back to back.\<close>

lemma peak_bounds_loop_peaks:
  assumes "length ls = n mod 2 ^ b" "length ps = start"
  shows "map (\<lambda>(s, z). get_slice s (s + z) (ps @ ls)) (peak_bounds_loop b n start) = map Some (peaks b ls)"
  using assms
proof (induction b arbitrary: ls ps start)
  case 0
  then show ?case by simp
next
  case (Suc b)
  have split: "n mod 2 ^ Suc b = 2 ^ b * (n div 2 ^ b mod 2) + n mod 2 ^ b"
    by (metis mod_mult2_eq power_Suc2)
  show ?case
  proof (cases "odd (n div 2 ^ b)")
    case False
    then have "length ls = n mod 2 ^ b" using Suc.prems split by (simp add: mod_2_eq_odd)
    moreover have "n mod 2 ^ b < 2 ^ b" by simp
    then have "\<not> 2 ^ b \<le> length ls" using \<open>length ls = n mod 2 ^ b\<close> by linarith
    ultimately show ?thesis using Suc.IH Suc.prems(2) False and_power_iff [of n b] by simp
  next
    case True
    then have len: "length ls = 2 ^ b + n mod 2 ^ b" using Suc.prems split by (simp add: mod_2_eq_odd)
    let ?u = "take (2 ^ b) ls" and ?v = "drop (2 ^ b) ls"
    have "map (\<lambda>(s, z). get_slice s (s + z) ((ps @ ?u) @ ?v)) (peak_bounds_loop b n (start + 2 ^ b)) =
        map Some (peaks b ?v)"
      using len Suc.prems(2) by (intro Suc.IH) simp_all
    moreover have "get_slice start (start + 2 ^ b) (ps @ ls) = Some ?u"
      using len Suc.prems(2) by (simp add: get_slice_def slice_def)
    ultimately show ?thesis
      using True len and_power_iff [of n b] by simp
  qed
qed

lemma those_map_Some: "(\<And>x. x \<in> set xs \<Longrightarrow> f x = Some (g x)) \<Longrightarrow> those (map f xs) = Some (map g xs)"
  by (induction xs) simp_all

lemma peak_roots_sub:
  assumes "map (\<lambda>(s, z). get_slice s (s + z) leaves) bounds = map Some ps"
    and "\<And>p. p \<in> set ps \<Longrightarrow> \<exists>k. length p = 2 ^ k"
  shows "peak_roots sha leaves bounds = Some (map (mth sha) ps)"
  using assms
proof (induction bounds arbitrary: ps)
  case Nil
  then show ?case by (simp add: peak_roots_def)
next
  case (Cons b bounds)
  then obtain p ps' where p: "ps = p # ps'" "(\<lambda>(s, z). get_slice s (s + z) leaves) b = Some p"
      "map (\<lambda>(s, z). get_slice s (s + z) leaves) bounds = map Some ps'"
    by (cases ps) auto
  then have "peak_roots sha leaves bounds = Some (map (mth sha) ps')"
    using Cons.IH Cons.prems(2) by simp
  moreover obtain k where "length p = 2 ^ k" using Cons.prems(2) p(1) by auto
  then have "perfect_root sha p = Some (mth sha p)" by (rule perfect_root_mth)
  ultimately show ?case
    using p(1,2) by (cases b) (simp add: peak_roots_def)
qed

lemma peak_bounds_peaks:
  "length leaves < 2 ^ 64 \<Longrightarrow>
     map (\<lambda>(s, z). get_slice s (s + z) leaves) (peak_bounds (length leaves)) = map Some (peaks 64 leaves)"
  using peak_bounds_loop_peaks [of leaves "length leaves" 64 "[]" 0] by (simp add: peak_bounds_def)

lemma merkle_root_mth: "length leaves < 2 ^ 64 \<Longrightarrow> merkle_root sha leaves = Some (mth sha leaves)"
proof -
  assume lt: "length leaves < 2 ^ 64"
  have "peak_roots sha leaves (peak_bounds (length leaves)) = Some (map (mth sha) (peaks 64 leaves))"
    using peaks_power by (intro peak_roots_sub peak_bounds_peaks lt) blast
  then show ?thesis
    using fold_peaks_mth [of leaves 64 sha] lt by (cases "leaves = []") (simp_all add: merkle_root_def)
qed

section \<open>Witnesses\<close>

lemma peak_path_folds:
  "length xs = 2 ^ k \<Longrightarrow> pos < length xs \<Longrightarrow>
     \<exists>path. peak_path sha xs pos = Some path \<and> length path = k \<and>
       fold_siblings sha path (xs ! pos) = mth sha xs"
proof (induction k arbitrary: xs pos)
  case 0
  then obtain x where "xs = [x]" by (auto simp: length_Suc_conv)
  with 0 show ?case by (simp add: peak_path.simps fold_siblings_def)
next
  case (Suc k)
  let ?ys = "pairs sha xs"
  have even: "even (length xs)" and len: "length ?ys = 2 ^ k" "pos div 2 < length ?ys"
    using Suc.prems by (simp_all add: length_pairs less_mult_imp_div_less mult.commute)
  from Suc.IH [OF len] obtain path where path: "peak_path sha ?ys (pos div 2) = Some path"
      "length path = k" "fold_siblings sha path (?ys ! (pos div 2)) = mth sha ?ys"
    by blast
  have "0 < (2::nat) ^ k" by simp
  moreover have lenxs: "length xs = 2 * 2 ^ k" using Suc.prems by simp
  ultimately have gt: "1 < length xs" by linarith
  have node: "?ys ! (pos div 2) = hash_internal sha (xs ! (2 * (pos div 2))) (xs ! (2 * (pos div 2) + 1))"
    using even len by (intro pairs_nth) (simp_all add: length_pairs)
  show ?case
  proof (cases "even pos")
    case True
    then obtain m where m: "pos = 2 * m" by blast
    then have "pos + 1 < length xs" using Suc.prems(2) lenxs by simp
    then have "peak_path sha xs pos = Some ((Right, xs ! (pos + 1)) # path)"
      using gt True even path(1) m
      by (simp add: peak_path.simps [of sha xs "2 * m"] pair_level_even get_at_def)
    with path node m mth_pairs [OF Suc.prems(1)] show ?thesis by (simp add: fold_siblings_def)
  next
    case False
    then obtain m where m: "pos = 2 * m + 1" using oddE by blast
    then have "peak_path sha xs pos = Some ((Left, xs ! (2 * m)) # path)"
      using gt False even path(1) Suc.prems(2)
      by (simp add: peak_path.simps [of sha xs "Suc (2 * m)"] pair_level_even get_at_def)
    with path node m mth_pairs [OF Suc.prems(1)] show ?thesis by (simp add: fold_siblings_def)
  qed
qed

text \<open>\<open>contiguous s bs n\<close>: the runs \<open>bs\<close> cover \<open>s ..< n\<close> without gap or overlap.\<close>

fun contiguous :: "nat \<Rightarrow> (nat \<times> nat) list \<Rightarrow> nat \<Rightarrow> bool" where
  "contiguous s [] n = (s = n)"
| "contiguous s ((a, z) # bs) n = (a = s \<and> 0 < z \<and> contiguous (s + z) bs n)"

lemma contiguous_le: "contiguous s bs n \<Longrightarrow> s \<le> n"
  by (induction s bs n rule: contiguous.induct) auto

lemma contiguous_peak_bounds_loop:
  "n mod 2 ^ b + start = e \<Longrightarrow> contiguous start (peak_bounds_loop b n start) e"
proof (induction b arbitrary: start)
  case 0
  then show ?case by simp
next
  case (Suc b)
  have "n mod 2 ^ Suc b = 2 ^ b * (n div 2 ^ b mod 2) + n mod 2 ^ b"
    by (metis mod_mult2_eq power_Suc2)
  with Suc.prems and_power_iff [of n b] Suc.IH show ?case
    by (cases "odd (n div 2 ^ b)") (simp_all add: mod_2_eq_odd)
qed

lemma contiguous_peak_bounds: "n < 2 ^ 64 \<Longrightarrow> contiguous 0 (peak_bounds n) n"
  unfolding peak_bounds_def by (rule contiguous_peak_bounds_loop) simp

lemma rposition_contiguous:
  assumes "contiguous s bs n" "s \<le> i" "i < n"
  shows "\<exists>p. rposition (\<lambda>(start, _). start \<le> i) bs = Some p \<and> p < length bs \<and>
    fst (bs ! p) \<le> i \<and> i < fst (bs ! p) + snd (bs ! p)"
  using assms
proof (induction s bs n rule: contiguous.induct)
  case (1 s n)
  then show ?case by simp
next
  case (2 s a z bs n)
  show ?case
  proof (cases "i < s + z")
    case True
    have "contiguous t cs n \<Longrightarrow> s + z \<le> t \<Longrightarrow> rposition (\<lambda>(start, _). start \<le> i) cs = None" for t cs
      using True by (induction t cs n rule: contiguous.induct) auto
    from this [of "s + z" bs] True 2 show ?thesis by auto
  next
    case False
    with 2 show ?thesis by fastforce
  qed
qed

lemma nth_peaks_slice:
  assumes "map (\<lambda>(s, z). get_slice s (s + z) leaves) bounds = map Some ps" "p < length bounds"
  shows "get_slice (fst (bounds ! p)) (fst (bounds ! p) + snd (bounds ! p)) leaves = Some (ps ! p)"
proof -
  have "length ps = length bounds" using assms(1) by (metis length_map)
  then have "map (\<lambda>(s, z). get_slice s (s + z) leaves) bounds ! p = Some (ps ! p)"
    using assms by simp
  then show ?thesis using assms(2) by (simp add: case_prod_unfold)
qed

lemma fold_left_peaks:
  "fold_peaks sha (ls @ q # rs) =
     Some (fold (\<lambda>l acc. hash_internal sha l acc) (rev ls)
       (case fold_peaks sha rs of None \<Rightarrow> q | Some r \<Rightarrow> hash_internal sha q r))"
  by (induction ls) (simp_all add: fold_peaks_Cons)

lemma get_slice_nth: "get_slice a b xs = Some ys \<Longrightarrow> i < length ys \<Longrightarrow> ys ! i = xs ! (a + i)"
  by (auto simp: get_slice_def slice_def split: if_splits)

lemma get_slice_length: "get_slice a b xs = Some ys \<Longrightarrow> length ys = b - a"
  by (auto simp: get_slice_def slice_def split: if_splits)

text \<open>The witness of every leaf exists, and folding it gives the tree.\<close>

lemma witness_for_folds:
  assumes "index < length leaves" "length leaves < 2 ^ 64"
  shows "\<exists>w. witness_for sha leaves index = Some (Some w) \<and>
    fold_witness sha (leaves ! index) w = mth sha leaves"
proof -
  let ?bs = "peak_bounds (length leaves)" and ?ps = "peaks 64 leaves"
  have ne: "leaves \<noteq> []" using assms(1) by auto
  note slices = peak_bounds_peaks [OF assms(2)]
  have len: "length ?ps = length ?bs" using arg_cong [OF slices, of length] by simp
  obtain p where p: "rposition (\<lambda>(start, _). start \<le> index) ?bs = Some p" "p < length ?bs"
      "fst (?bs ! p) \<le> index" "index < fst (?bs ! p) + snd (?bs ! p)"
    using rposition_contiguous [OF contiguous_peak_bounds [OF assms(2)] _ assms(1)] by auto
  obtain start size where sz: "?bs ! p = (start, size)" by (cases "?bs ! p")
  have sl: "get_slice start (start + size) leaves = Some (?ps ! p)"
    using nth_peaks_slice [OF slices p(2)] sz by simp
  have pow: "q \<in> set ?ps \<Longrightarrow> \<exists>k. length q = 2 ^ k" for q using peaks_power by blast
  obtain k where k: "length (?ps ! p) = 2 ^ k" using pow p(2) len by (metis nth_mem)
  have idx: "index - start < length (?ps ! p)"
    using get_slice_length [OF sl] p(3,4) sz by simp
  obtain path where path: "peak_path sha (?ps ! p) (index - start) = Some path"
      "fold_siblings sha path (?ps ! p ! (index - start)) = mth sha (?ps ! p)"
    using peak_path_folds [OF k idx] by blast
  have leaf: "?ps ! p ! (index - start) = leaves ! index"
    using get_slice_nth [OF sl idx] p(3) sz by simp
  have lefts: "peak_roots sha leaves (take p ?bs) = Some (map (mth sha) (take p ?ps))"
  proof (rule peak_roots_sub)
    show "map (\<lambda>(s, z). get_slice s (s + z) leaves) (take p ?bs) = map Some (take p ?ps)"
      using arg_cong [OF slices, of "take p"] by (simp only: take_map)
  qed (blast dest: in_set_takeD pow)
  have rights: "peak_roots sha leaves (drop (p + 1) ?bs) = Some (map (mth sha) (drop (p + 1) ?ps))"
  proof (rule peak_roots_sub)
    show "map (\<lambda>(s, z). get_slice s (s + z) leaves) (drop (p + 1) ?bs) = map Some (drop (p + 1) ?ps)"
      using arg_cong [OF slices, of "drop (p + 1)"] by (simp only: drop_map)
  qed (blast dest: in_set_dropD pow)
  let ?w = "\<lparr>siblings = path, left_peaks = map (mth sha) (take p ?ps),
    right_root = fold_peaks sha (map (mth sha) (drop (p + 1) ?ps))\<rparr>"
  have "witness_for sha leaves index = Some (Some ?w)"
    using assms(1) p(1) sz sl path(1) lefts rights by (simp add: witness_for_def)
  moreover have "map (mth sha) ?ps =
      map (mth sha) (take p ?ps) @ mth sha (?ps ! p) # map (mth sha) (drop (p + 1) ?ps)"
    using p(2) len by (metis Suc_eq_plus1 id_take_nth_drop list.simps(9) map_append)
  then have "Some (mth sha leaves) = Some (fold_witness sha (leaves ! index) ?w)"
    using fold_peaks_mth [OF ne assms(2), of sha] path(2) leaf
    by (simp add: fold_left_peaks fold_witness_def Let_def)
  ultimately show ?thesis by auto
qed

section \<open>Binding\<close>

text \<open>
  An opening as one path from the leaf to the root: the siblings, the folded right peaks as a
  right sibling, the left peaks nearest first as left siblings. \<open>path_inputs\<close> lists the byte
  strings hashed along it.
\<close>

definition witness_path :: "merkle_witness \<Rightarrow> (side \<times> bytes) list" where
  "witness_path w =
     siblings w @ (case right_root w of None \<Rightarrow> [] | Some r \<Rightarrow> [(Right, r)]) @
     map (Pair Left) (rev (left_peaks w))"

fun node_input :: "bytes \<Rightarrow> side \<times> bytes \<Rightarrow> bytes" where
  "node_input acc (Left, h) = 0x02 # h @ acc"
| "node_input acc (Right, h) = 0x02 # acc @ h"

fun path_inputs :: "(bytes \<Rightarrow> bytes) \<Rightarrow> bytes \<Rightarrow> (side \<times> bytes) list \<Rightarrow> bytes list" where
  "path_inputs sha acc [] = []"
| "path_inputs sha acc (s # path) = node_input acc s # path_inputs sha (sha (node_input acc s)) path"

lemma length_path_inputs [simp]: "length (path_inputs sha acc path) = length path"
  by (induction path arbitrary: acc) simp_all

lemma fold_siblings_Nil [simp]: "fold_siblings sha [] leaf = leaf"
  by (simp add: fold_siblings_def)

lemma fold_siblings_Cons: "fold_siblings sha (s # path) leaf = fold_siblings sha path (sha (node_input leaf s))"
  by (cases "(leaf, s)" rule: node_input.cases) (simp_all add: fold_siblings_def hash_internal_def)

lemma fold_siblings_append:
  "fold_siblings sha (xs @ ys) leaf = fold_siblings sha ys (fold_siblings sha xs leaf)"
  by (simp add: fold_siblings_def)

lemma fold_siblings_Left:
  "fold_siblings sha (map (Pair Left) ls) acc = fold (\<lambda>left acc. hash_internal sha left acc) ls acc"
  by (simp add: fold_siblings_def fold_map comp_def)

lemma fold_witness_path: "fold_witness sha leaf w = fold_siblings sha (witness_path w) leaf"
  by (simp add: fold_witness_def witness_path_def fold_siblings_append fold_siblings_Left Let_def
      split: option.split) (simp add: fold_siblings_def)

text \<open>
  \<open>collision_between sha us vs\<close>: two lists of hashed inputs that differ at some place where the
  hashes agree. It is a statement about the given, finitely many inputs, so it is an explicit
  collision and not the trivial existence of one.
\<close>

definition collision_between :: "(bytes \<Rightarrow> bytes) \<Rightarrow> bytes list \<Rightarrow> bytes list \<Rightarrow> bool" where
  "collision_between sha us vs \<longleftrightarrow>
     list_ex (\<lambda>(u, v). u \<noteq> v \<and> sha u = sha v) (zip us vs)"

lemma collision_between_Cons:
  "collision_between sha (u # us) (v # vs) \<longleftrightarrow> (u \<noteq> v \<and> sha u = sha v) \<or> collision_between sha us vs"
  by (simp add: collision_between_def)

lemma node_input_inject:
  assumes "node_input a s = node_input b t" "fst s = fst t" "length a = length b" "length (snd s) = length (snd t)"
  shows "a = b \<and> s = t"
  using assms by (cases s; cases t; cases "fst s") (auto simp: prod_eq_iff)

lemma path_binding:
  assumes "fold_siblings sha p a = fold_siblings sha q b" and "map fst p = map fst q"
    and "sha384_len sha" "length a = 48" "length b = 48"
    and "\<forall>s \<in> set p \<union> set q. length (snd s) = 48" and "(a, p) \<noteq> (b, q)"
  shows "collision_between sha (path_inputs sha a p) (path_inputs sha b q)"
  using assms
proof (induction p arbitrary: a b q)
  case Nil
  then show ?case by simp
next
  case (Cons s p)
  then obtain t q' where q: "q = t # q'" "fst s = fst t" "map fst p = map fst q'" by auto
  let ?u = "node_input a s" and ?v = "node_input b t"
  have len: "length (sha x) = 48" for x using Cons.prems(3) by (simp add: sha384_len_def)
  show ?case
  proof (cases "sha ?u = sha ?v \<and> ?u \<noteq> ?v")
    case True
    then show ?thesis using q(1) by (simp add: collision_between_Cons)
  next
    case False
    have "(sha ?u, p) \<noteq> (sha ?v, q')"
    proof
      assume eq: "(sha ?u, p) = (sha ?v, q')"
      with False have "?u = ?v" by simp
      then have "a = b \<and> s = t"
        using Cons.prems q by (intro node_input_inject) simp_all
      with eq q(1) Cons.prems(7) show False by simp
    qed
    then have "collision_between sha (path_inputs sha (sha ?u) p) (path_inputs sha (sha ?v) q')"
      using Cons.prems q len by (intro Cons.IH) (simp_all add: fold_siblings_Cons)
    then show ?thesis using q(1) by (simp add: collision_between_Cons)
  qed
qed

section \<open>The theorems\<close>

text \<open>C11. The streaming hasher and the offline root agree on every list of leaves (fewer than 2 to
  the 64, the range of the counter): neither panics, and both compute the recursive merkle tree
  hash that splits at the largest power of two below the number of leaves.\<close>

theorem streaming_root_eq_merkle_root:
  assumes "length leaves < 2 ^ 64"
  shows "streaming_root sha leaves = Some (mth sha leaves) \<and> merkle_root sha leaves = Some (mth sha leaves)"
  using streaming_root_mth [OF assms] merkle_root_mth [OF assms] by simp

lemma streaming_root_eq_merkle_root_witness:
  "streaming_root (take 2) [[1], [3], [5]] = merkle_root (take 2) [[1], [3], [5]]"
proof -
  have "length [[1], [3], [5 :: u8]] < 2 ^ 64" by simp
  from streaming_root_eq_merkle_root [OF this, of "take 2"] show ?thesis by simp
qed

text \<open>C12. For every leaf of every tree the witness exists and folding it from the leaf gives exactly
  the root that \<open>merkle_root\<close> computes; no step of the construction panics.\<close>

theorem fold_reproduces_root_for_every_leaf:
  assumes "index < length leaves" "length leaves < 2 ^ 64"
  shows "\<exists>w. witness_for sha leaves index = Some (Some w) \<and>
    merkle_root sha leaves = Some (fold_witness sha (leaves ! index) w)"
  using witness_for_folds [OF assms, of sha] merkle_root_mth [OF assms(2), of sha] by auto

lemma fold_reproduces_root_for_every_leaf_witness:
  "\<exists>w. witness_for (take 2) [[1], [3], [5]] 1 = Some (Some w) \<and>
    merkle_root (take 2) [[1], [3], [5]] = Some (fold_witness (take 2) [3] w)"
proof -
  have "(1::nat) < length [[1], [3], [5 :: u8]]" "length [[1], [3], [5 :: u8]] < 2 ^ 64" by simp_all
  from fold_reproduces_root_for_every_leaf [OF this, of "take 2"] show ?thesis by simp
qed

text \<open>An index out of range is answered with \<open>None\<close>, and only that: \<open>witness_for\<close> never panics
  and refuses exactly the indices that are not leaves.\<close>

theorem witness_for_None_iff:
  assumes "length leaves < 2 ^ 64"
  shows "witness_for sha leaves index \<noteq> None \<and>
    (witness_for sha leaves index = Some None \<longleftrightarrow> length leaves \<le> index)"
proof (cases "index < length leaves")
  case True
  then show ?thesis using witness_for_folds [OF True assms, of sha] by auto
next
  case False
  then show ?thesis by (simp add: witness_for_def)
qed

lemma witness_for_None_iff_witness: "witness_for (take 2) [[1], [3]] 2 = Some None"
  using witness_for_None_iff [of "[[1], [3]]" "take 2" 2] by simp

text \<open>Binding: two witnesses of the same shape that fold two different leaves (or the same leaf
  along different siblings) to one root exhibit a SHA-384 collision among the at most
  logarithmically many strings hashed while folding them.\<close>

theorem fold_witness_binding:
  assumes "fold_witness sha leaf w = fold_witness sha leaf' w'"
    and "map fst (witness_path w) = map fst (witness_path w')"
    and "sha384_len sha" "length leaf = 48" "length leaf' = 48"
    and "\<forall>s \<in> set (witness_path w) \<union> set (witness_path w'). length (snd s) = 48"
    and "(leaf, witness_path w) \<noteq> (leaf', witness_path w')"
  shows "collision_between sha (path_inputs sha leaf (witness_path w)) (path_inputs sha leaf' (witness_path w'))"
  using assms by (intro path_binding) (simp_all add: fold_witness_path)

lemma fold_witness_binding_witness:
  "let sha = (\<lambda>_. replicate 48 0); w = \<lparr>siblings = [(Left, replicate 48 7)], left_peaks = [], right_root = None\<rparr>
   in collision_between sha (path_inputs sha (replicate 48 1) (witness_path w))
        (path_inputs sha (replicate 48 2) (witness_path w))"
proof -
  let ?sha = "\<lambda>_ :: bytes. replicate 48 (0 :: u8)"
  let ?w = "\<lparr>siblings = [(Left, replicate 48 7)], left_peaks = [], right_root = None\<rparr>"
  have "collision_between ?sha (path_inputs ?sha (replicate 48 1) (witness_path ?w))
      (path_inputs ?sha (replicate 48 2) (witness_path ?w))"
  proof (rule fold_witness_binding)
    show "(replicate 48 1, witness_path ?w) \<noteq> (replicate 48 (2 :: u8), witness_path ?w)"
      by (simp add: replicate_eq_replicate)
  qed (simp_all add: witness_path_def fold_witness_path fold_siblings_Cons sha384_len_def)
  then show ?thesis by simp
qed

end
