(* ===== verification/Material.thy ===== *)
theory Material
  imports Stream_Format Merkle
begin

text \<open>
  Extraction of proof material from raw block bytes, \<open>src/block/material.rs\<close>: the split of the
  packed signature, the ledger-id bootstrap, the scan that routes the exact bytes of every block
  item into one of five streaming trees and caps them with the fixed upper tree (\<open>scan_block\<close>),
  and the inclusion witness of one signed transaction with the recomputation of the block root
  from it. A panic of the source (a pop from an empty stack, the \<open>expect\<close> on the witness) is the
  outer \<open>None\<close> of a result; the lemmas show that it does not occur.
\<close>

section \<open>Data\<close>

datatype proof_path = AggregateSchnorr | WrapsCompressedProof | Unknown_Path

record proof_layout =
  path :: proof_path
  hints_verification_key :: bytes
  hints_signature :: bytes
  suffix_bytes :: bytes

definition HINTS_VK_LENGTH :: nat where "HINTS_VK_LENGTH = 1096"
definition HINTS_SIG_LENGTH :: nat where "HINTS_SIG_LENGTH = 1632"
definition FIXED_PREFIX_LENGTH :: nat where "FIXED_PREFIX_LENGTH = HINTS_VK_LENGTH + HINTS_SIG_LENGTH"
definition SCHNORR_SUFFIX_LENGTH :: nat where "SCHNORR_SUFFIX_LENGTH = 192"
definition WRAPS_SUFFIX_LENGTH :: nat where "WRAPS_SUFFIX_LENGTH = 704"

record node_contribution =
  node_id :: u64
  weight :: u64
  history_proof_key :: bytes

record bootstrap =
  ledger_id :: bytes
  history_proof_verification_key :: bytes
  node_contributions :: "node_contribution list"

record block_proof_material =
  block_number :: u64
  block_root :: bytes
  previous_block_root :: bytes
  layout :: proof_layout
  material_bootstrap :: "bootstrap option"

record block_chain_info =
  info_block_number :: u64
  info_block_root :: bytes
  info_previous_block_root :: bytes

record block_inclusion_witness =
  input_witness :: merkle_witness
  output_root :: bytes
  consensus_root :: bytes
  state_changes_root :: bytes
  trace_root :: bytes
  state_root :: bytes
  witness_previous_block_root :: bytes
  root_hash_of_all_block_hashes_tree :: bytes
  timestamp_bytes :: bytes

section \<open>The signature layout and the bootstrap\<close>

definition classify_layout :: "bytes \<Rightarrow> proof_layout" where
  "classify_layout block_signature =
     (if length block_signature < FIXED_PREFIX_LENGTH then
        \<lparr>path = Unknown_Path, hints_verification_key = [], hints_signature = [], suffix_bytes = block_signature\<rparr>
      else
        let suffix = drop FIXED_PREFIX_LENGTH block_signature;
            p = (if length suffix = SCHNORR_SUFFIX_LENGTH then AggregateSchnorr
                 else if length suffix = WRAPS_SUFFIX_LENGTH then WrapsCompressedProof
                 else Unknown_Path)
        in \<lparr>path = p,
            hints_verification_key = take HINTS_VK_LENGTH block_signature,
            hints_signature = slice HINTS_VK_LENGTH FIXED_PREFIX_LENGTH block_signature,
            suffix_bytes = suffix\<rparr>)"

definition bootstrap_from :: "externals \<Rightarrow> bytes \<Rightarrow> bootstrap option" where
  "bootstrap_from E signed_transaction_bytes =
     (case ok (dec_hapi_signed_transaction E signed_transaction_bytes) of
        None \<Rightarrow> None
      | Some body_bytes \<Rightarrow>
          (case ok (dec_hapi_transaction_body E body_bytes) of
             None \<Rightarrow> None
           | Some body \<Rightarrow>
               (case tb_data body of
                  Some (LedgerIdPublication p) \<Rightarrow>
                    Some \<lparr>ledger_id = pub_ledger_id p,
                          history_proof_verification_key = pub_history_proof_verification_key p,
                          node_contributions =
                            map (\<lambda>c. \<lparr>node_id = ncm_node_id c, weight = ncm_weight c,
                                      history_proof_key = ncm_history_proof_key c\<rparr>)
                              (pub_node_contributions p)\<rparr>
                | _ \<Rightarrow> None)))"

definition signed_block_signature :: "block_proof option \<Rightarrow> bytes option" where
  "signed_block_signature proof =
     (case proof of Some (SignedBlockProof block_signature) \<Rightarrow> Some block_signature | _ \<Rightarrow> None)"

section \<open>The scan\<close>

record scan_state =
  header :: "block_header option"
  footer :: "block_footer option"
  block_signature :: "bytes option"
  scan_bootstrap :: "bootstrap option"
  input_tree :: streaming_tree_hasher
  output_tree :: streaming_tree_hasher
  consensus_tree :: streaming_tree_hasher
  state_changes_tree :: streaming_tree_hasher
  trace_tree :: streaming_tree_hasher

definition scan_start :: scan_state where
  "scan_start = \<lparr>header = None, footer = None, block_signature = None, scan_bootstrap = None,
     input_tree = streaming_default, output_tree = streaming_default, consensus_tree = streaming_default,
     state_changes_tree = streaming_default, trace_tree = streaming_default\<rparr>"

definition unknown_field :: "u64 \<Rightarrow> error" where
  "unknown_field k = Proof (''unknown BlockItem field '' @ show_u64 k)"

definition filtered_item :: error where
  "filtered_item = Proof ''filtered/redacted block items are not supported''"

text \<open>The first \<open>match\<close> of the loop body: the item's bytes become a leaf of one of the trees.\<close>

definition hash_item :: "externals \<Rightarrow> scan_state \<Rightarrow> scanned_item \<Rightarrow> (error + scan_state) option" where
  "hash_item E st item =
     (let k = field_number item;
          leaf = hash_leaf (sha384 E) (item_bytes item)
      in if k \<in> {F_BLOCK_HEADER, F_TRANSACTION_RESULT, F_TRANSACTION_OUTPUT} then
           map_option (\<lambda>t. Inr (st\<lparr>output_tree := t\<rparr>)) (add_leaf (sha384 E) (output_tree st) leaf)
         else if k \<in> {F_EVENT_HEADER, F_ROUND_HEADER} then
           map_option (\<lambda>t. Inr (st\<lparr>consensus_tree := t\<rparr>)) (add_leaf (sha384 E) (consensus_tree st) leaf)
         else if k = F_SIGNED_TRANSACTION then
           map_option (\<lambda>t. Inr (st\<lparr>input_tree := t\<rparr>)) (add_leaf (sha384 E) (input_tree st) leaf)
         else if k = F_STATE_CHANGES then
           map_option (\<lambda>t. Inr (st\<lparr>state_changes_tree := t\<rparr>)) (add_leaf (sha384 E) (state_changes_tree st) leaf)
         else if k = F_TRACE_DATA then
           map_option (\<lambda>t. Inr (st\<lparr>trace_tree := t\<rparr>)) (add_leaf (sha384 E) (trace_tree st) leaf)
         else if k \<in> {F_BLOCK_PROOF, F_BLOCK_FOOTER, F_RECORD_FILE} then Some (Inr st)
         else if k \<in> {F_FILTERED_SINGLE_ITEM, F_REDACTED_ITEM} then Some (Inl filtered_item)
         else Some (Inl (unknown_field k)))"

text \<open>The second \<open>match\<close>: the typed views, decoded from the same bytes.\<close>

definition view_item :: "externals \<Rightarrow> scan_state \<Rightarrow> scanned_item \<Rightarrow> scan_state result" where
  "view_item E st item =
     (if field_number item \<in> {F_BLOCK_HEADER, F_BLOCK_FOOTER, F_BLOCK_PROOF, F_SIGNED_TRANSACTION} then
        and_then (map_err Decode (dec_block_item E (item_bytes item))) (\<lambda>decoded. Inr (case decoded of
            Some (BlockHeader h) \<Rightarrow> st\<lparr>header := Some h\<rparr>
          | Some (BlockFooter f) \<Rightarrow> st\<lparr>footer := Some f\<rparr>
          | Some (BlockProof p) \<Rightarrow>
              (case signed_block_signature p of
                 Some sig \<Rightarrow> st\<lparr>block_signature := Some sig\<rparr>
               | None \<Rightarrow> st)
          | Some (SignedTransaction tx_bytes) \<Rightarrow>
              (if scan_bootstrap st = None then st\<lparr>scan_bootstrap := bootstrap_from E tx_bytes\<rparr> else st)
          | _ \<Rightarrow> st))
      else Inr st)"

definition scan_item :: "externals \<Rightarrow> scan_state \<Rightarrow> scanned_item \<Rightarrow> (error + scan_state) option" where
  "scan_item E st item =
     map_option (\<lambda>r. and_then r (\<lambda>st'. view_item E st' item)) (hash_item E st item)"

record scanned_block =
  sb_block_number :: u64
  sb_block_root :: bytes
  sb_previous_block_root :: bytes
  sb_block_signature :: "bytes option"
  sb_bootstrap :: "bootstrap option"

definition encoded_timestamp :: "externals \<Rightarrow> block_header \<Rightarrow> bytes" where
  "encoded_timestamp E h = (case bh_block_timestamp h of Some t \<Rightarrow> enc_timestamp E t | None \<Rightarrow> [])"

text \<open>The fixed-shape upper tree over the five subtree roots, the footer's hashes and the timestamp.\<close>

definition upper_tree :: "(bytes \<Rightarrow> bytes) \<Rightarrow> bytes \<Rightarrow> bytes \<Rightarrow> bytes \<Rightarrow> bytes \<Rightarrow> bytes \<Rightarrow> bytes \<Rightarrow> bytes \<Rightarrow> bytes
    \<Rightarrow> bytes \<Rightarrow> bytes" where
  "upper_tree sha prev all_hashes state_hash consensus input output state_changes trace timestamp =
     (let depth5_1 = hash_internal sha prev all_hashes;
          depth5_2 = hash_internal sha state_hash consensus;
          depth5_3 = hash_internal sha input output;
          depth5_4 = hash_internal sha state_changes trace;
          depth4_1 = hash_internal sha depth5_1 depth5_2;
          depth4_2 = hash_internal sha depth5_3 depth5_4;
          fixed_root = hash_internal_single_child sha (hash_internal sha depth4_1 depth4_2)
      in hash_internal sha (hash_leaf sha timestamp) fixed_root)"

definition finish_scan :: "externals \<Rightarrow> scan_state \<Rightarrow> scanned_block result" where
  "finish_scan E st =
     and_then (ok_or (Proof ''block header missing'') (header st)) (\<lambda>h.
     and_then (ok_or (Proof ''block footer missing'') (footer st)) (\<lambda>f.
       let state_hash = (if bf_start_of_block_state_root_hash f = [] then replicate HASH_LENGTH 0
                         else bf_start_of_block_state_root_hash f);
           block_root = upper_tree (sha384 E) (bf_previous_block_root_hash f)
             (bf_root_hash_of_all_block_hashes_tree f) state_hash (root (sha384 E) (consensus_tree st))
             (root (sha384 E) (input_tree st)) (root (sha384 E) (output_tree st))
             (root (sha384 E) (state_changes_tree st)) (root (sha384 E) (trace_tree st))
             (encoded_timestamp E h)
       in Inr \<lparr>sb_block_number = bh_number h, sb_block_root = block_root,
               sb_previous_block_root = bf_previous_block_root_hash f,
               sb_block_signature = block_signature st, sb_bootstrap = scan_bootstrap st\<rparr>))"

definition scan_block :: "externals \<Rightarrow> bytes \<Rightarrow> scanned_block result option" where
  "scan_block E bytes =
     (case and_then (inflate E bytes) scan_block_items of
        Inl e \<Rightarrow> Some (Inl e)
      | Inr items \<Rightarrow> map_option (\<lambda>r. and_then r (finish_scan E)) (fold_panic (scan_item E) scan_start items))"

section \<open>The public views of a scan\<close>

definition extract_proof_material :: "externals \<Rightarrow> bytes \<Rightarrow> block_proof_material result option" where
  "extract_proof_material E bytes =
     map_option (\<lambda>r. and_then r (\<lambda>scanned.
         and_then (ok_or (Proof ''signed block proof missing'') (sb_block_signature scanned)) (\<lambda>sig.
           Inr \<lparr>block_number = sb_block_number scanned, block_root = sb_block_root scanned,
                previous_block_root = sb_previous_block_root scanned,
                layout = classify_layout sig, material_bootstrap = sb_bootstrap scanned\<rparr>)))
       (scan_block E bytes)"

definition resolve_bootstrap :: "externals \<Rightarrow> block_proof_material \<Rightarrow> bytes option \<Rightarrow> string \<Rightarrow> bootstrap result option" where
  "resolve_bootstrap E material genesis_bytes missing_hint =
     (case material_bootstrap material of
        Some b \<Rightarrow> Some (Inr b)
      | None \<Rightarrow>
          (case genesis_bytes of
             None \<Rightarrow> Some (Inl (Proof (''this block does not carry the ledger-ID publication; '' @ missing_hint)))
           | Some g \<Rightarrow>
               map_option (\<lambda>r. and_then r (\<lambda>m.
                   ok_or (Proof ''the genesis block carries no ledger-ID publication'') (material_bootstrap m)))
                 (extract_proof_material E g)))"

definition block_chain_info :: "externals \<Rightarrow> bytes \<Rightarrow> block_chain_info result option" where
  "block_chain_info E bytes =
     map_option (\<lambda>r. and_then r (\<lambda>scanned.
         Inr \<lparr>info_block_number = sb_block_number scanned, info_block_root = sb_block_root scanned,
              info_previous_block_root = sb_previous_block_root scanned\<rparr>))
       (scan_block E bytes)"

section \<open>Inclusion witnesses\<close>

definition to_hash48 :: "bytes \<Rightarrow> bytes result" where
  "to_hash48 bytes =
     (if length bytes = HASH_LENGTH then Inr bytes
      else Inl (Proof (''expected a '' @ show_nat HASH_LENGTH @ ''-byte hash, got '' @ show_nat (length bytes))))"

record witness_state =
  wit_header :: "block_header option"
  wit_footer :: "block_footer option"
  input_leaves :: "bytes list"
  input_item_bytes :: "bytes list"
  wit_output_tree :: streaming_tree_hasher
  wit_consensus_tree :: streaming_tree_hasher
  wit_state_changes_tree :: streaming_tree_hasher
  wit_trace_tree :: streaming_tree_hasher

definition witness_start :: witness_state where
  "witness_start = \<lparr>wit_header = None, wit_footer = None, input_leaves = [], input_item_bytes = [],
     wit_output_tree = streaming_default, wit_consensus_tree = streaming_default,
     wit_state_changes_tree = streaming_default, wit_trace_tree = streaming_default\<rparr>"

definition witness_hash_item :: "externals \<Rightarrow> witness_state \<Rightarrow> scanned_item \<Rightarrow> (error + witness_state) option" where
  "witness_hash_item E st item =
     (let k = field_number item;
          leaf = hash_leaf (sha384 E) (item_bytes item)
      in if k \<in> {F_BLOCK_HEADER, F_TRANSACTION_RESULT, F_TRANSACTION_OUTPUT} then
           map_option (\<lambda>t. Inr (st\<lparr>wit_output_tree := t\<rparr>)) (add_leaf (sha384 E) (wit_output_tree st) leaf)
         else if k \<in> {F_EVENT_HEADER, F_ROUND_HEADER} then
           map_option (\<lambda>t. Inr (st\<lparr>wit_consensus_tree := t\<rparr>)) (add_leaf (sha384 E) (wit_consensus_tree st) leaf)
         else if k = F_SIGNED_TRANSACTION then
           Some (Inr (st\<lparr>input_leaves := input_leaves st @ [leaf],
                         input_item_bytes := input_item_bytes st @ [item_bytes item]\<rparr>))
         else if k = F_STATE_CHANGES then
           map_option (\<lambda>t. Inr (st\<lparr>wit_state_changes_tree := t\<rparr>)) (add_leaf (sha384 E) (wit_state_changes_tree st) leaf)
         else if k = F_TRACE_DATA then
           map_option (\<lambda>t. Inr (st\<lparr>wit_trace_tree := t\<rparr>)) (add_leaf (sha384 E) (wit_trace_tree st) leaf)
         else if k \<in> {F_BLOCK_PROOF, F_BLOCK_FOOTER, F_RECORD_FILE} then Some (Inr st)
         else if k \<in> {F_FILTERED_SINGLE_ITEM, F_REDACTED_ITEM} then Some (Inl filtered_item)
         else Some (Inl (unknown_field k)))"

definition witness_view_item :: "externals \<Rightarrow> witness_state \<Rightarrow> scanned_item \<Rightarrow> witness_state result" where
  "witness_view_item E st item =
     (if field_number item \<in> {F_BLOCK_HEADER, F_BLOCK_FOOTER} then
        and_then (map_err Decode (dec_block_item E (item_bytes item))) (\<lambda>decoded. Inr (case decoded of
            Some (BlockHeader h) \<Rightarrow> st\<lparr>wit_header := Some h\<rparr>
          | Some (BlockFooter f) \<Rightarrow> st\<lparr>wit_footer := Some f\<rparr>
          | _ \<Rightarrow> st))
      else Inr st)"

definition witness_item :: "externals \<Rightarrow> witness_state \<Rightarrow> scanned_item \<Rightarrow> (error + witness_state) option" where
  "witness_item E st item =
     map_option (\<lambda>r. and_then r (\<lambda>st'. witness_view_item E st' item)) (witness_hash_item E st item)"

text \<open>What follows the loop: the index check, the witness (its \<open>expect\<close> is the \<open>None\<close>), and the
  footer's hashes, which must be 48 bytes here.\<close>

definition finish_witness :: "externals \<Rightarrow> nat \<Rightarrow> witness_state \<Rightarrow> (bytes \<times> block_inclusion_witness) result option" where
  "finish_witness E transaction_index st =
     (case and_then (ok_or (Proof ''block header missing'') (wit_header st)) (\<lambda>h.
           and_then (ok_or (Proof ''block footer missing'') (wit_footer st)) (\<lambda>f.
           and_then (ok_or (Proof (''transaction index '' @ show_nat transaction_index @ '' out of range (''
                         @ show_nat (length (input_item_bytes st)) @ '' signed transactions)''))
                       (get_at (input_item_bytes st) transaction_index)) (\<lambda>tx_bytes. Inr (h, f, tx_bytes)))) of
        Inl e \<Rightarrow> Some (Inl e)
      | Inr (h, f, tx_bytes) \<Rightarrow>
          (case witness_for (sha384 E) (input_leaves st) transaction_index of
             Some (Some w) \<Rightarrow>
               Some (and_then (if bf_start_of_block_state_root_hash f = [] then Inr (replicate HASH_LENGTH 0)
                               else to_hash48 (bf_start_of_block_state_root_hash f)) (\<lambda>state_hash.
                     and_then (to_hash48 (bf_previous_block_root_hash f)) (\<lambda>prev.
                     and_then (to_hash48 (bf_root_hash_of_all_block_hashes_tree f)) (\<lambda>all_hashes.
                       Inr (tx_bytes, \<lparr>input_witness = w,
                         output_root = root (sha384 E) (wit_output_tree st),
                         consensus_root = root (sha384 E) (wit_consensus_tree st),
                         state_changes_root = root (sha384 E) (wit_state_changes_tree st),
                         trace_root = root (sha384 E) (wit_trace_tree st),
                         state_root = state_hash,
                         witness_previous_block_root = prev,
                         root_hash_of_all_block_hashes_tree = all_hashes,
                         timestamp_bytes = encoded_timestamp E h\<rparr>)))))
           | _ \<Rightarrow> None))"

definition block_inclusion_witness :: "externals \<Rightarrow> bytes \<Rightarrow> nat \<Rightarrow> (bytes \<times> block_inclusion_witness) result option" where
  "block_inclusion_witness E bytes transaction_index =
     (case and_then (inflate E bytes) scan_block_items of
        Inl e \<Rightarrow> Some (Inl e)
      | Inr items \<Rightarrow>
          (case fold_panic (witness_item E) witness_start items of
             None \<Rightarrow> None
           | Some (Inl e) \<Rightarrow> Some (Inl e)
           | Some (Inr st) \<Rightarrow> finish_witness E transaction_index st))"

definition recompute_block_root :: "(bytes \<Rightarrow> bytes) \<Rightarrow> bytes \<Rightarrow> block_inclusion_witness \<Rightarrow> bytes" where
  "recompute_block_root sha tx_bytes w =
     (let input_root = fold_witness sha (hash_leaf sha tx_bytes) (input_witness w);
          depth5_1 = hash_internal sha (witness_previous_block_root w) (root_hash_of_all_block_hashes_tree w);
          depth5_2 = hash_internal sha (state_root w) (consensus_root w);
          depth5_3 = hash_internal sha input_root (output_root w);
          depth5_4 = hash_internal sha (state_changes_root w) (trace_root w);
          depth4_1 = hash_internal sha depth5_1 depth5_2;
          depth4_2 = hash_internal sha depth5_3 depth5_4;
          fixed_root = hash_internal_single_child sha (hash_internal sha depth4_1 depth4_2)
      in hash_internal sha (hash_leaf sha (timestamp_bytes w)) fixed_root)"

section \<open>The leaves of each tree\<close>

definition leaves_of :: "externals \<Rightarrow> u64 set \<Rightarrow> scanned_item list \<Rightarrow> bytes list" where
  "leaves_of E ks items =
     map (\<lambda>i. hash_leaf (sha384 E) (item_bytes i)) (filter (\<lambda>i. field_number i \<in> ks) items)"

definition output_kinds :: "u64 set" where
  "output_kinds = {F_BLOCK_HEADER, F_TRANSACTION_RESULT, F_TRANSACTION_OUTPUT}"

definition consensus_kinds :: "u64 set" where
  "consensus_kinds = {F_EVENT_HEADER, F_ROUND_HEADER}"

definition supported_kinds :: "u64 set" where
  "supported_kinds = output_kinds \<union> consensus_kinds \<union> {F_SIGNED_TRANSACTION, F_STATE_CHANGES, F_TRACE_DATA,
     F_BLOCK_PROOF, F_BLOCK_FOOTER, F_RECORD_FILE}"

lemma leaves_of_snoc:
  "leaves_of E ks (pre @ [item]) = leaves_of E ks pre @
     (if field_number item \<in> ks then [hash_leaf (sha384 E) (item_bytes item)] else [])"
  by (simp add: leaves_of_def)

lemma leaves_of_Nil [simp]: "leaves_of E ks [] = []"
  by (simp add: leaves_of_def)

lemma length_leaves_of: "length (leaves_of E ks items) \<le> length items"
  by (simp add: leaves_of_def)

lemma add_to_tree:
  assumes "represents sha t (leaves_of E ks pre)" "Suc (length pre) < 2 ^ 64"
  shows "\<exists>t'. add_leaf sha t leaf = Some t' \<and> represents sha t' (leaves_of E ks pre @ [leaf])"
proof -
  have "Suc (length (leaves_of E ks pre)) < 2 ^ 64"
    using length_leaves_of [of E ks pre] assms(2) by linarith
  then show ?thesis by (rule streaming.holds_add [OF assms(1)])
qed

text \<open>
  The decoder agrees with the scan about headers and footers: an item whose one field is another
  one does not decode to them. This is the protobuf encoding of the oneof (\<open>block_item.proto\<close>).
\<close>

definition oneof_law :: "externals \<Rightarrow> bool" where
  "oneof_law E \<longleftrightarrow>
     (\<forall>b k h. scan_item_kind b = Inr k \<longrightarrow> dec_block_item E b = Inr (Some (BlockHeader h)) \<longrightarrow> k = F_BLOCK_HEADER) \<and>
     (\<forall>b k f. scan_item_kind b = Inr k \<longrightarrow> dec_block_item E b = Inr (Some (BlockFooter f)) \<longrightarrow> k = F_BLOCK_FOOTER)"

definition header_after :: "externals \<Rightarrow> scanned_item \<Rightarrow> block_header option \<Rightarrow> block_header option" where
  "header_after E item acc =
     (if field_number item \<in> {F_BLOCK_HEADER, F_BLOCK_FOOTER} then
        (case dec_block_item E (item_bytes item) of Inr (Some (BlockHeader h)) \<Rightarrow> Some h | _ \<Rightarrow> acc)
      else acc)"

definition footer_after :: "externals \<Rightarrow> scanned_item \<Rightarrow> block_footer option \<Rightarrow> block_footer option" where
  "footer_after E item acc =
     (if field_number item \<in> {F_BLOCK_HEADER, F_BLOCK_FOOTER} then
        (case dec_block_item E (item_bytes item) of Inr (Some (BlockFooter f)) \<Rightarrow> Some f | _ \<Rightarrow> acc)
      else acc)"

definition header_of :: "externals \<Rightarrow> scanned_item list \<Rightarrow> block_header option" where
  "header_of E items = fold (header_after E) items None"

definition footer_of :: "externals \<Rightarrow> scanned_item list \<Rightarrow> block_footer option" where
  "footer_of E items = fold (footer_after E) items None"

section \<open>The invariants of the two loops\<close>

definition scan_trees :: "externals \<Rightarrow> scanned_item list \<Rightarrow> scan_state \<Rightarrow> bool" where
  "scan_trees E pre st \<longleftrightarrow>
     represents (sha384 E) (input_tree st) (leaves_of E {F_SIGNED_TRANSACTION} pre) \<and>
     represents (sha384 E) (output_tree st) (leaves_of E output_kinds pre) \<and>
     represents (sha384 E) (consensus_tree st) (leaves_of E consensus_kinds pre) \<and>
     represents (sha384 E) (state_changes_tree st) (leaves_of E {F_STATE_CHANGES} pre) \<and>
     represents (sha384 E) (trace_tree st) (leaves_of E {F_TRACE_DATA} pre)"

text \<open>The items the witness decodes are ones the scan has decoded.\<close>

definition readable :: "externals \<Rightarrow> scanned_item \<Rightarrow> bool" where
  "readable E item \<longleftrightarrow>
     (field_number item \<in> {F_BLOCK_HEADER, F_BLOCK_FOOTER} \<longrightarrow> (\<exists>d. dec_block_item E (item_bytes item) = Inr d))"

definition scan_inv :: "externals \<Rightarrow> scanned_item list \<Rightarrow> scan_state \<Rightarrow> bool" where
  "scan_inv E pre st \<longleftrightarrow>
     scan_trees E pre st \<and> header st = header_of E pre \<and> footer st = footer_of E pre \<and>
     (\<forall>it \<in> set pre. field_number it \<in> supported_kinds \<and> readable E it)"

lemma hash_item_step:
  assumes "scan_trees E pre st" "Suc (length pre) < 2 ^ 64"
  shows "\<exists>r. hash_item E st item = Some r \<and> (\<forall>st'. r = Inr st' \<longrightarrow>
     scan_trees E (pre @ [item]) st' \<and> header st' = header st \<and> footer st' = footer st \<and>
     field_number item \<in> supported_kinds)"
proof -
  let ?k = "field_number item" and ?leaf = "hash_leaf (sha384 E) (item_bytes item)"
  note inv = assms(1)[unfolded scan_trees_def]
  note defs = hash_item_def scan_trees_def leaves_of_snoc output_kinds_def consensus_kinds_def supported_kinds_def Let_def
  have reps: "represents (sha384 E) (input_tree st) (leaves_of E {F_SIGNED_TRANSACTION} pre)"
    "represents (sha384 E) (output_tree st) (leaves_of E output_kinds pre)"
    "represents (sha384 E) (consensus_tree st) (leaves_of E consensus_kinds pre)"
    "represents (sha384 E) (state_changes_tree st) (leaves_of E {F_STATE_CHANGES} pre)"
    "represents (sha384 E) (trace_tree st) (leaves_of E {F_TRACE_DATA} pre)"
    using inv by simp_all
  note reps' = reps[unfolded output_kinds_def consensus_kinds_def]
  consider "?k \<in> output_kinds" | "?k \<in> consensus_kinds" | "?k = F_SIGNED_TRANSACTION" | "?k = F_STATE_CHANGES"
    | "?k = F_TRACE_DATA" | "?k \<notin> output_kinds \<union> consensus_kinds \<union> {F_SIGNED_TRANSACTION, F_STATE_CHANGES, F_TRACE_DATA}"
    by blast
  then show ?thesis
  proof cases
    case 1
    obtain t where "add_leaf (sha384 E) (output_tree st) ?leaf = Some t"
      "represents (sha384 E) t (leaves_of E output_kinds pre @ [?leaf])"
      using add_to_tree [OF reps(2) assms(2)] by blast
    with 1 reps' show ?thesis by (auto simp: defs)
  next
    case 2
    obtain t where "add_leaf (sha384 E) (consensus_tree st) ?leaf = Some t"
      "represents (sha384 E) t (leaves_of E consensus_kinds pre @ [?leaf])"
      using add_to_tree [OF reps(3) assms(2)] by blast
    with 2 reps' show ?thesis by (auto simp: defs)
  next
    case 3
    obtain t where "add_leaf (sha384 E) (input_tree st) ?leaf = Some t"
      "represents (sha384 E) t (leaves_of E {F_SIGNED_TRANSACTION} pre @ [?leaf])"
      using add_to_tree [OF reps(1) assms(2)] by blast
    with 3 reps' show ?thesis by (simp add: defs)
  next
    case 4
    obtain t where "add_leaf (sha384 E) (state_changes_tree st) ?leaf = Some t"
      "represents (sha384 E) t (leaves_of E {F_STATE_CHANGES} pre @ [?leaf])"
      using add_to_tree [OF reps(4) assms(2)] by blast
    with 4 reps' show ?thesis by (simp add: defs)
  next
    case 5
    obtain t where "add_leaf (sha384 E) (trace_tree st) ?leaf = Some t"
      "represents (sha384 E) t (leaves_of E {F_TRACE_DATA} pre @ [?leaf])"
      using add_to_tree [OF reps(5) assms(2)] by blast
    with 5 reps' show ?thesis by (simp add: defs)
  next
    case 6
    then show ?thesis using reps' by (auto simp: defs)
  qed
qed

lemma view_item_step:
  assumes "view_item E st item = Inr st'" "oneof_law E" "scan_item_kind (item_bytes item) = Inr (field_number item)"
    and "scan_inv E pre st0" "header st = header st0" "footer st = footer st0"
    and "scan_trees E (pre @ [item]) st" "field_number item \<in> supported_kinds"
  shows "scan_inv E (pre @ [item]) st'"
proof -
  let ?d = "dec_block_item E (item_bytes item)"
  have trees: "scan_trees E (pre @ [item]) st'"
    using assms(1,7) by (cases ?d)
      (auto simp: view_item_def scan_trees_def split: if_splits option.splits item.splits)
  have h: "?d = Inr (Some (BlockHeader h)) \<Longrightarrow> field_number item = F_BLOCK_HEADER" for h
    using assms(2,3) unfolding oneof_law_def by blast
  have f: "?d = Inr (Some (BlockFooter f)) \<Longrightarrow> field_number item = F_BLOCK_FOOTER" for f
    using assms(2,3) unfolding oneof_law_def by blast
  have "header st' = header_after E item (header st)"
    using assms(1) h by (cases ?d)
      (auto simp: view_item_def header_after_def split: if_splits option.splits item.splits)
  moreover have "footer st' = footer_after E item (footer st)"
    using assms(1) f by (cases ?d)
      (auto simp: view_item_def footer_after_def split: if_splits option.splits item.splits)
  moreover have "readable E item"
    using assms(1) by (cases ?d) (auto simp: view_item_def readable_def split: if_splits)
  ultimately show ?thesis using trees assms(4-6,8)
    by (auto simp: scan_inv_def header_of_def footer_of_def)
qed

lemma scan_item_step:
  assumes "scan_inv E pre st" "Suc (length pre) < 2 ^ 64" "oneof_law E"
    and "scan_item_kind (item_bytes item) = Inr (field_number item)"
  shows "\<exists>r. scan_item E st item = Some r \<and> (\<forall>st'. r = Inr st' \<longrightarrow> scan_inv E (pre @ [item]) st')"
proof -
  have "scan_trees E pre st" using assms(1) by (simp add: scan_inv_def)
  from hash_item_step [OF this assms(2), of item] obtain r where r: "hash_item E st item = Some r"
    "\<forall>st'. r = Inr st' \<longrightarrow> scan_trees E (pre @ [item]) st' \<and> header st' = header st \<and> footer st' = footer st \<and>
       field_number item \<in> supported_kinds" by blast
  show ?thesis
  proof (cases r)
    case (Inl e)
    with r(1) show ?thesis by (simp add: scan_item_def)
  next
    case (Inr st1)
    have parts: "header st1 = header st" "footer st1 = footer st" "scan_trees E (pre @ [item]) st1"
      "field_number item \<in> supported_kinds"
      using r(2) [rule_format, OF Inr] by blast+
    have "scan_inv E (pre @ [item]) st'" if "view_item E st1 item = Inr st'" for st'
      by (rule view_item_step [OF that assms(3,4,1) parts])
    with Inr r(1) show ?thesis by (simp add: scan_item_def)
  qed
qed

lemma scan_inv_start: "scan_inv E [] scan_start"
  by (simp add: scan_inv_def scan_trees_def scan_start_def represents_default header_of_def footer_of_def)

lemma scan_loop_inv:
  assumes "oneof_law E" "\<forall>it \<in> set items. scan_item_kind (item_bytes it) = Inr (field_number it)"
    and "length items < 2 ^ 64"
  shows "\<exists>r. fold_panic (scan_item E) scan_start items = Some r \<and> (\<forall>st. r = Inr st \<longrightarrow> scan_inv E items st)"
proof -
  have "\<exists>r. fold_panic (scan_item E) scan_start items = Some r \<and> (\<forall>st. r = Inr st \<longrightarrow> scan_inv E ([] @ items) st)"
  proof (rule fold_panic_invariant)
    show "scan_inv E [] scan_start" by (rule scan_inv_start)
    show "length ([] @ items) < 2 ^ 64" using assms(3) by simp
    show "\<exists>r. scan_item E st item = Some r \<and> (\<forall>st'. r = Inr st' \<longrightarrow> scan_inv E (pre @ [item]) st')"
      if "scan_inv E pre st" "item \<in> set items" "Suc (length pre) < 2 ^ 64" for pre item st
      using scan_item_step [OF that(1,3) assms(1)] assms(2) that(2) by blast
  qed
  then show ?thesis by simp
qed

text \<open>Without the law about the decoder the loop still does not panic.\<close>

lemma scan_item_total:
  assumes "scan_trees E pre st" "Suc (length pre) < 2 ^ 64"
  shows "\<exists>r. scan_item E st item = Some r \<and> (\<forall>st'. r = Inr st' \<longrightarrow> scan_trees E (pre @ [item]) st')"
proof -
  from hash_item_step [OF assms, of item] obtain r where r: "hash_item E st item = Some r"
    "\<forall>st'. r = Inr st' \<longrightarrow> scan_trees E (pre @ [item]) st'" by blast
  have "scan_trees E ps st'" if "view_item E st1 item = Inr st'" "scan_trees E ps st1" for ps st1 st'
    using that by (cases "dec_block_item E (item_bytes item)")
      (auto simp: view_item_def scan_trees_def split: if_splits option.splits item.splits)
  then show ?thesis using r by (cases r) (auto simp: scan_item_def)
qed

lemma scan_loop_total:
  assumes "length items < 2 ^ 64"
  shows "fold_panic (scan_item E) scan_start items \<noteq> None"
proof -
  have "\<exists>r. fold_panic (scan_item E) scan_start items = Some r \<and> (\<forall>st. r = Inr st \<longrightarrow> scan_trees E ([] @ items) st)"
  proof (rule fold_panic_invariant)
    show "scan_trees E [] scan_start" using scan_inv_start [of E] by (simp add: scan_inv_def)
    show "length ([] @ items) < 2 ^ 64" using assms by simp
  qed (rule scan_item_total)
  then show ?thesis by auto
qed

section \<open>What the scan hands over\<close>

lemma scan_block_items_kinds:
  assumes "scan_block_items raw = Inr items"
  shows "\<forall>it \<in> set items. scan_item_kind (item_bytes it) = Inr (field_number it)" "length items \<le> length raw"
proof -
  obtain fs where fs: "reads read_field raw 0 fs"
      "map_result classify (map snd (filter is_item_field fs)) = Inr items"
    using assms by (auto simp: scan_block_items_spec)
  from map_result_classify [OF fs(2)]
  show "\<forall>it \<in> set items. scan_item_kind (item_bytes it) = Inr (field_number it)" by blast
  have "length items = length (filter is_item_field fs)"
    using arg_cong [OF conjunct1 [OF map_result_classify [OF fs(2)]], of length] by simp
  also have "\<dots> \<le> length fs" by (rule length_filter_le)
  also have "\<dots> \<le> length raw" using field.reads_length [OF fs(1)] by simp
  finally show "length items \<le> length raw" .
qed

definition witness_inv :: "externals \<Rightarrow> scanned_item list \<Rightarrow> witness_state \<Rightarrow> bool" where
  "witness_inv E pre st \<longleftrightarrow>
     input_leaves st = leaves_of E {F_SIGNED_TRANSACTION} pre \<and>
     input_item_bytes st = map item_bytes (filter (\<lambda>i. field_number i = F_SIGNED_TRANSACTION) pre) \<and>
     represents (sha384 E) (wit_output_tree st) (leaves_of E output_kinds pre) \<and>
     represents (sha384 E) (wit_consensus_tree st) (leaves_of E consensus_kinds pre) \<and>
     represents (sha384 E) (wit_state_changes_tree st) (leaves_of E {F_STATE_CHANGES} pre) \<and>
     represents (sha384 E) (wit_trace_tree st) (leaves_of E {F_TRACE_DATA} pre) \<and>
     wit_header st = header_of E pre \<and> wit_footer st = footer_of E pre"

definition witness_hashed :: "externals \<Rightarrow> scanned_item list \<Rightarrow> witness_state \<Rightarrow> witness_state \<Rightarrow> bool" where
  "witness_hashed E pre st0 st \<longleftrightarrow>
     input_leaves st = leaves_of E {F_SIGNED_TRANSACTION} pre \<and>
     input_item_bytes st = map item_bytes (filter (\<lambda>i. field_number i = F_SIGNED_TRANSACTION) pre) \<and>
     represents (sha384 E) (wit_output_tree st) (leaves_of E output_kinds pre) \<and>
     represents (sha384 E) (wit_consensus_tree st) (leaves_of E consensus_kinds pre) \<and>
     represents (sha384 E) (wit_state_changes_tree st) (leaves_of E {F_STATE_CHANGES} pre) \<and>
     represents (sha384 E) (wit_trace_tree st) (leaves_of E {F_TRACE_DATA} pre) \<and>
     wit_header st = wit_header st0 \<and> wit_footer st = wit_footer st0"

lemma witness_hash_item_step:
  assumes "witness_inv E pre st" "Suc (length pre) < 2 ^ 64"
  shows "\<exists>r. witness_hash_item E st item = Some r \<and> (\<forall>st'. r = Inr st' \<longrightarrow> witness_hashed E (pre @ [item]) st st')"
proof -
  let ?k = "field_number item" and ?leaf = "hash_leaf (sha384 E) (item_bytes item)"
  note defs = witness_hash_item_def witness_hashed_def leaves_of_snoc output_kinds_def consensus_kinds_def Let_def
  have inputs: "input_leaves st = leaves_of E {F_SIGNED_TRANSACTION} pre"
    "input_item_bytes st = map item_bytes (filter (\<lambda>i. field_number i = F_SIGNED_TRANSACTION) pre)"
    using assms(1) by (simp_all add: witness_inv_def)
  have reps: "represents (sha384 E) (wit_output_tree st) (leaves_of E output_kinds pre)"
    "represents (sha384 E) (wit_consensus_tree st) (leaves_of E consensus_kinds pre)"
    "represents (sha384 E) (wit_state_changes_tree st) (leaves_of E {F_STATE_CHANGES} pre)"
    "represents (sha384 E) (wit_trace_tree st) (leaves_of E {F_TRACE_DATA} pre)"
    using assms(1) by (simp_all add: witness_inv_def)
  note reps' = reps[unfolded output_kinds_def consensus_kinds_def] inputs
  consider "?k \<in> output_kinds" | "?k \<in> consensus_kinds" | "?k = F_SIGNED_TRANSACTION" | "?k = F_STATE_CHANGES"
    | "?k = F_TRACE_DATA" | "?k \<notin> output_kinds \<union> consensus_kinds \<union> {F_SIGNED_TRANSACTION, F_STATE_CHANGES, F_TRACE_DATA}"
    by blast
  then show ?thesis
  proof cases
    case 1
    obtain t where "add_leaf (sha384 E) (wit_output_tree st) ?leaf = Some t"
      "represents (sha384 E) t (leaves_of E output_kinds pre @ [?leaf])"
      using add_to_tree [OF reps(1) assms(2)] by blast
    with 1 reps' show ?thesis by (auto simp: defs)
  next
    case 2
    obtain t where "add_leaf (sha384 E) (wit_consensus_tree st) ?leaf = Some t"
      "represents (sha384 E) t (leaves_of E consensus_kinds pre @ [?leaf])"
      using add_to_tree [OF reps(2) assms(2)] by blast
    with 2 reps' show ?thesis by (auto simp: defs)
  next
    case 3
    with reps' show ?thesis by (simp add: defs)
  next
    case 4
    obtain t where "add_leaf (sha384 E) (wit_state_changes_tree st) ?leaf = Some t"
      "represents (sha384 E) t (leaves_of E {F_STATE_CHANGES} pre @ [?leaf])"
      using add_to_tree [OF reps(3) assms(2)] by blast
    with 4 reps' show ?thesis by (simp add: defs)
  next
    case 5
    obtain t where "add_leaf (sha384 E) (wit_trace_tree st) ?leaf = Some t"
      "represents (sha384 E) t (leaves_of E {F_TRACE_DATA} pre @ [?leaf])"
      using add_to_tree [OF reps(4) assms(2)] by blast
    with 5 reps' show ?thesis by (simp add: defs)
  next
    case 6
    then show ?thesis using reps' by (auto simp: defs)
  qed
qed

lemma witness_view_item_step:
  assumes "witness_view_item E st item = Inr st'" "witness_inv E pre st0" "witness_hashed E (pre @ [item]) st0 st"
  shows "witness_inv E (pre @ [item]) st'"
proof -
  let ?d = "dec_block_item E (item_bytes item)"
  have "witness_hashed E (pre @ [item]) st' st'"
    using assms(1,3) by (cases ?d)
      (auto simp: witness_view_item_def witness_hashed_def split: if_splits option.splits item.splits)
  moreover have "wit_header st' = header_after E item (wit_header st)"
    using assms(1) by (cases ?d)
      (auto simp: witness_view_item_def header_after_def split: if_splits option.splits item.splits)
  moreover have "wit_footer st' = footer_after E item (wit_footer st)"
    using assms(1) by (cases ?d)
      (auto simp: witness_view_item_def footer_after_def split: if_splits option.splits item.splits)
  ultimately show ?thesis using assms(2,3)
    by (simp add: witness_inv_def witness_hashed_def header_of_def footer_of_def)
qed

lemma witness_item_step:
  assumes "witness_inv E pre st" "Suc (length pre) < 2 ^ 64"
  shows "\<exists>r. witness_item E st item = Some r \<and> (\<forall>st'. r = Inr st' \<longrightarrow> witness_inv E (pre @ [item]) st')"
proof -
  from witness_hash_item_step [OF assms, of item] obtain r where r: "witness_hash_item E st item = Some r"
    "\<forall>st'. r = Inr st' \<longrightarrow> witness_hashed E (pre @ [item]) st st'" by blast
  show ?thesis
  proof (cases r)
    case (Inl e)
    with r(1) show ?thesis by (simp add: witness_item_def)
  next
    case (Inr st1)
    have "witness_inv E (pre @ [item]) st'" if "witness_view_item E st1 item = Inr st'" for st'
      by (rule witness_view_item_step [OF that assms(1) r(2) [rule_format, OF Inr]])
    with Inr r(1) show ?thesis by (simp add: witness_item_def)
  qed
qed

lemma witness_inv_start: "witness_inv E [] witness_start"
  by (simp add: witness_inv_def witness_start_def represents_default header_of_def footer_of_def)

lemma witness_loop_inv:
  assumes "length items < 2 ^ 64"
  shows "\<exists>r. fold_panic (witness_item E) witness_start items = Some r \<and> (\<forall>st. r = Inr st \<longrightarrow> witness_inv E items st)"
proof -
  have "\<exists>r. fold_panic (witness_item E) witness_start items = Some r \<and> (\<forall>st. r = Inr st \<longrightarrow> witness_inv E ([] @ items) st)"
  proof (rule fold_panic_invariant)
    show "witness_inv E [] witness_start" by (rule witness_inv_start)
    show "length ([] @ items) < 2 ^ 64" using assms by simp
  qed (rule witness_item_step)
  then show ?thesis by simp
qed

section \<open>The specified block root\<close>

definition block_root_spec :: "externals \<Rightarrow> scanned_item list \<Rightarrow> block_header \<Rightarrow> block_footer \<Rightarrow> bytes" where
  "block_root_spec E items h f =
     (let tree = (\<lambda>ks. mth (sha384 E) (leaves_of E ks items))
      in upper_tree (sha384 E) (bf_previous_block_root_hash f) (bf_root_hash_of_all_block_hashes_tree f)
           (if bf_start_of_block_state_root_hash f = [] then replicate 48 0 else bf_start_of_block_state_root_hash f)
           (tree consensus_kinds) (tree {F_SIGNED_TRANSACTION}) (tree output_kinds) (tree {F_STATE_CHANGES})
           (tree {F_TRACE_DATA}) (encoded_timestamp E h))"

lemma finish_scan_spec:
  assumes "scan_inv E items st"
  shows "finish_scan E st =
    (case header_of E items of
       None \<Rightarrow> Inl (Proof ''block header missing'')
     | Some h \<Rightarrow>
         (case footer_of E items of
            None \<Rightarrow> Inl (Proof ''block footer missing'')
          | Some f \<Rightarrow> Inr \<lparr>sb_block_number = bh_number h, sb_block_root = block_root_spec E items h f,
               sb_previous_block_root = bf_previous_block_root_hash f,
               sb_block_signature = block_signature st, sb_bootstrap = scan_bootstrap st\<rparr>))"
proof -
  have "header st = header_of E items" "footer st = footer_of E items" and t: "scan_trees E items st"
    using assms by (simp_all add: scan_inv_def)
  moreover note t[unfolded scan_trees_def]
  ultimately show ?thesis
    by (auto simp: finish_scan_def block_root_spec_def root_represents HASH_LENGTH_def Let_def split: option.split)
qed

lemma scan_block_cases:
  assumes "oneof_law E" "inflate E bytes = Inr raw" "scan_block_items raw = Inr items" "length raw < 2 ^ 64"
  shows "(\<exists>e. scan_block E bytes = Some (Inl e)) \<or>
    (\<exists>h f s. header_of E items = Some h \<and> footer_of E items = Some f \<and> scan_block E bytes = Some (Inr s) \<and>
       sb_block_number s = bh_number h \<and> sb_block_root s = block_root_spec E items h f \<and>
       sb_previous_block_root s = bf_previous_block_root_hash f \<and>
       (\<forall>it \<in> set items. field_number it \<in> supported_kinds \<and> readable E it))"
proof -
  note kinds = scan_block_items_kinds [OF assms(3)]
  have "length items < 2 ^ 64" using kinds(2) assms(4) by linarith
  from scan_loop_inv [OF assms(1) kinds(1) this] obtain r where
    r: "fold_panic (scan_item E) scan_start items = Some r" "\<forall>st. r = Inr st \<longrightarrow> scan_inv E items st" by blast
  have sb: "scan_block E bytes = Some (and_then r (finish_scan E))"
    using assms(2,3) r(1) by (simp add: scan_block_def)
  show ?thesis
  proof (cases r)
    case (Inl e)
    with sb show ?thesis by simp
  next
    case (Inr st)
    with r(2) have inv: "scan_inv E items st" by blast
    then have "\<forall>it \<in> set items. field_number it \<in> supported_kinds \<and> readable E it" by (simp add: scan_inv_def)
    then show ?thesis
      using sb Inr finish_scan_spec [OF inv] by (cases "header_of E items"; cases "footer_of E items") auto
  qed
qed

section \<open>The witness recomputes the root\<close>

lemma recompute_upper:
  "recompute_block_root sha tx w =
     upper_tree sha (witness_previous_block_root w) (root_hash_of_all_block_hashes_tree w) (state_root w)
       (consensus_root w) (fold_witness sha (hash_leaf sha tx) (input_witness w)) (output_root w)
       (state_changes_root w) (trace_root w) (timestamp_bytes w)"
  by (simp add: recompute_block_root_def upper_tree_def Let_def)

lemma to_hash48_Inr_iff: "to_hash48 b = Inr b' \<longleftrightarrow> length b = 48 \<and> b' = b"
  by (auto simp: to_hash48_def HASH_LENGTH_def)

definition transactions_of :: "scanned_item list \<Rightarrow> bytes list" where
  "transactions_of items = map item_bytes (filter (\<lambda>i. field_number i = F_SIGNED_TRANSACTION) items)"

lemma leaves_of_transactions: "leaves_of E {F_SIGNED_TRANSACTION} items = map (hash_leaf (sha384 E)) (transactions_of items)"
  by (simp add: leaves_of_def transactions_of_def)

lemma length_transactions_of: "length (transactions_of items) \<le> length items"
  by (simp add: transactions_of_def)

text \<open>The footer fields a witness can carry: 48 bytes each, the state root possibly absent.\<close>

definition footer_hashes_ok :: "block_footer \<Rightarrow> bool" where
  "footer_hashes_ok f \<longleftrightarrow> length (bf_previous_block_root_hash f) = 48 \<and>
     length (bf_root_hash_of_all_block_hashes_tree f) = 48 \<and>
     (bf_start_of_block_state_root_hash f = [] \<or> length (bf_start_of_block_state_root_hash f) = 48)"

lemma finish_witness_cases:
  assumes "witness_inv E items st" "length items < 2 ^ 64"
  shows "\<exists>r. finish_witness E i st = Some r \<and>
    (case r of
       Inr (tx, w) \<Rightarrow> \<exists>h f. header_of E items = Some h \<and> footer_of E items = Some f \<and> footer_hashes_ok f \<and>
         i < length (transactions_of items) \<and> tx = transactions_of items ! i \<and>
         recompute_block_root (sha384 E) tx w = block_root_spec E items h f
     | Inl _ \<Rightarrow> header_of E items = None \<or> footer_of E items = None \<or> length (transactions_of items) \<le> i \<or>
         (\<exists>f. footer_of E items = Some f \<and> \<not> footer_hashes_ok f))"
proof -
  let ?txs = "transactions_of items" and ?sha = "sha384 E"
  have st: "input_leaves st = map (hash_leaf ?sha) ?txs" "input_item_bytes st = ?txs"
    "wit_header st = header_of E items" "wit_footer st = footer_of E items"
    using assms(1) by (simp_all add: witness_inv_def leaves_of_transactions transactions_of_def [symmetric])
  note trees = assms(1)[unfolded witness_inv_def]
  consider "header_of E items = None \<or> footer_of E items = None \<or> length ?txs \<le> i"
    | h f where "header_of E items = Some h" "footer_of E items = Some f" "i < length ?txs"
    by (cases "header_of E items"; cases "footer_of E items"; cases "i < length ?txs") auto
  then show ?thesis
  proof cases
    case 1
    then have "\<exists>e. finish_witness E i st = Some (Inl e)"
      by (cases "header_of E items"; cases "footer_of E items") (auto simp: finish_witness_def st get_at_def)
    with 1 show ?thesis by auto
  next
    case (2 h f)
    have "i < length (map (hash_leaf ?sha) ?txs)" "length (map (hash_leaf ?sha) ?txs) < 2 ^ 64"
      using 2(3) length_transactions_of [of items] assms(2) by simp_all
    from witness_for_folds [OF this, of ?sha] obtain w where w: "witness_for ?sha (input_leaves st) i = Some (Some w)"
      "fold_witness ?sha (hash_leaf ?sha (?txs ! i)) w = mth ?sha (leaves_of E {F_SIGNED_TRANSACTION} items)"
      using 2(3) by (auto simp: st leaves_of_transactions)
    show ?thesis
    proof (cases "footer_hashes_ok f")
      case False
      then have "\<exists>e. finish_witness E i st = Some (Inl e)"
        using 2 w(1) by (auto simp: finish_witness_def st get_at_def footer_hashes_ok_def to_hash48_def HASH_LENGTH_def)
      with False 2 show ?thesis by auto
    next
      case True
      then have "bf_start_of_block_state_root_hash f \<noteq> [] \<Longrightarrow> to_hash48 (bf_start_of_block_state_root_hash f) = Inr (bf_start_of_block_state_root_hash f)"
        "to_hash48 (bf_previous_block_root_hash f) = Inr (bf_previous_block_root_hash f)"
        "to_hash48 (bf_root_hash_of_all_block_hashes_tree f) = Inr (bf_root_hash_of_all_block_hashes_tree f)"
        by (auto simp: footer_hashes_ok_def to_hash48_Inr_iff)
      then show ?thesis
        using 2 w True trees
        by (auto simp: finish_witness_def st get_at_def recompute_upper block_root_spec_def root_represents
            HASH_LENGTH_def Let_def)
    qed
  qed
qed

lemma map_Inr_not_Inl: "map_option (\<lambda>t. Inr (g t)) x \<noteq> Some (Inl e)"
  by (cases x) simp_all

lemma witness_hash_item_not_Inl: "field_number it \<in> supported_kinds \<Longrightarrow> witness_hash_item E st it \<noteq> Some (Inl e)"
  by (auto simp: witness_hash_item_def supported_kinds_def output_kinds_def consensus_kinds_def Let_def map_Inr_not_Inl
      simp del: map_option_eq_Some)

lemma witness_view_item_not_Inl: "readable E it \<Longrightarrow> witness_view_item E st it \<noteq> Inl e"
  by (auto simp: witness_view_item_def readable_def)

lemma witness_item_not_Inl:
  "field_number it \<in> supported_kinds \<Longrightarrow> readable E it \<Longrightarrow> witness_item E st it \<noteq> Some (Inl e)"
  using witness_hash_item_not_Inl [of it E st] witness_view_item_not_Inl [of E it]
  by (cases "witness_hash_item E st it") (auto simp: witness_item_def and_then_def split: sum.splits)

lemma block_inclusion_witness_cases:
  assumes "inflate E bytes = Inr raw" "scan_block_items raw = Inr items" "length raw < 2 ^ 64"
  shows "\<exists>r. block_inclusion_witness E bytes i = Some r \<and>
    (case r of
       Inr (tx, w) \<Rightarrow> \<exists>h f. header_of E items = Some h \<and> footer_of E items = Some f \<and> footer_hashes_ok f \<and>
         i < length (transactions_of items) \<and> tx = transactions_of items ! i \<and>
         recompute_block_root (sha384 E) tx w = block_root_spec E items h f
     | Inl e \<Rightarrow> (\<exists>it \<in> set items. field_number it \<notin> supported_kinds \<or> \<not> readable E it) \<or>
         header_of E items = None \<or> footer_of E items = None \<or> length (transactions_of items) \<le> i \<or>
         (\<exists>f. footer_of E items = Some f \<and> \<not> footer_hashes_ok f))"
proof -
  have len: "length items < 2 ^ 64" using scan_block_items_kinds(2) [OF assms(2)] assms(3) by linarith
  from witness_loop_inv [OF len, of E] obtain r where
    r: "fold_panic (witness_item E) witness_start items = Some r" "\<forall>st. r = Inr st \<longrightarrow> witness_inv E items st" by blast
  show ?thesis
  proof (cases r)
    case (Inl e)
    then obtain it st where it: "it \<in> set items" "witness_item E st it = Some (Inl e)"
      using fold_panic_Inl r(1) by fastforce
    then have "field_number it \<notin> supported_kinds \<or> \<not> readable E it"
      using witness_item_not_Inl by blast
    moreover have "block_inclusion_witness E bytes i = Some (Inl e)"
      using assms r(1) Inl by (simp add: block_inclusion_witness_def)
    ultimately show ?thesis using it(1) by auto
  next
    case (Inr st)
    with r(2) have "witness_inv E items st" by blast
    from finish_witness_cases [OF this len, of i] obtain q where q: "finish_witness E i st = Some q"
      "case q of
         Inr (tx, w) \<Rightarrow> \<exists>h f. header_of E items = Some h \<and> footer_of E items = Some f \<and> footer_hashes_ok f \<and>
           i < length (transactions_of items) \<and> tx = transactions_of items ! i \<and>
           recompute_block_root (sha384 E) tx w = block_root_spec E items h f
       | Inl _ \<Rightarrow> header_of E items = None \<or> footer_of E items = None \<or> length (transactions_of items) \<le> i \<or>
           (\<exists>f. footer_of E items = Some f \<and> \<not> footer_hashes_ok f)" by blast
    have "block_inclusion_witness E bytes i = Some q"
      using assms r(1) Inr q(1) by (simp add: block_inclusion_witness_def)
    then show ?thesis using q(2) by (auto split: sum.splits)
  qed
qed

lemma extract_proof_material_Inr_iff:
  "extract_proof_material E bytes = Some (Inr m) \<longleftrightarrow>
     (\<exists>s sig. scan_block E bytes = Some (Inr s) \<and> sb_block_signature s = Some sig \<and>
        m = \<lparr>block_number = sb_block_number s, block_root = sb_block_root s,
             previous_block_root = sb_previous_block_root s, layout = classify_layout sig,
             material_bootstrap = sb_bootstrap s\<rparr>)"
  by (auto simp: extract_proof_material_def and_then_eq_Inr_iff ok_or_eq_Inr_iff)

section \<open>Binding through the upper tree\<close>

text \<open>The byte strings hashed when a root is recomputed, from the leaf up.\<close>

definition upper_inputs :: "(bytes \<Rightarrow> bytes) \<Rightarrow> bytes \<Rightarrow> block_inclusion_witness \<Rightarrow> bytes list" where
  "upper_inputs sha input_root w =
     (let d51 = hash_internal sha (witness_previous_block_root w) (root_hash_of_all_block_hashes_tree w);
          d52 = hash_internal sha (state_root w) (consensus_root w);
          d53 = hash_internal sha input_root (output_root w);
          d54 = hash_internal sha (state_changes_root w) (trace_root w);
          d41 = hash_internal sha d51 d52;
          d42 = hash_internal sha d53 d54;
          d3 = hash_internal sha d41 d42
      in [0x02 # input_root @ output_root w, 0x02 # d53 @ d54, 0x02 # d41 @ d42, 0x01 # d3,
          0x02 # hash_leaf sha (timestamp_bytes w) @ hash_internal_single_child sha d3])"

definition inclusion_inputs :: "(bytes \<Rightarrow> bytes) \<Rightarrow> bytes \<Rightarrow> block_inclusion_witness \<Rightarrow> bytes list" where
  "inclusion_inputs sha tx w =
     upper_inputs sha (fold_witness sha (hash_leaf sha tx) (input_witness w)) w
     @ path_inputs sha (hash_leaf sha tx) (witness_path (input_witness w)) @ [0x00 # tx]"

text \<open>A witness whose parts have the size of a hash, as \<open>[u8; 48]\<close> makes sure of.\<close>

definition witness_sized :: "block_inclusion_witness \<Rightarrow> bool" where
  "witness_sized w \<longleftrightarrow> length (output_root w) = 48 \<and>
     (\<forall>s \<in> set (witness_path (input_witness w)). length (snd s) = 48)"

lemma collision_between_append:
  "length us = length vs \<Longrightarrow>
     collision_between sha (us @ us') (vs @ vs') \<longleftrightarrow> collision_between sha us vs \<or> collision_between sha us' vs'"
  by (simp add: collision_between_def)

lemma upper_inputs_binding:
  assumes len: "\<And>x. length (sha x) = 48"
    and "recompute_block_root sha tx w = recompute_block_root sha tx' w'"
    and "length (output_root w) = 48" "length (output_root w') = 48"
    and "\<not> collision_between sha
      (upper_inputs sha (fold_witness sha (hash_leaf sha tx) (input_witness w)) w)
      (upper_inputs sha (fold_witness sha (hash_leaf sha tx') (input_witness w')) w')"
  shows "fold_witness sha (hash_leaf sha tx) (input_witness w) = fold_witness sha (hash_leaf sha tx') (input_witness w')"
  using assms
  by (auto simp: recompute_block_root_def upper_inputs_def Let_def collision_between_def
      hash_internal_def hash_internal_single_child_def hash_leaf_def)

section \<open>A concrete block\<close>

text \<open>The demo environment with a decoder for items: one header, one footer with 48-byte hashes, one
  signed proof, and signed transactions that are their own bytes.\<close>

definition demo_block_item :: "bytes \<Rightarrow> decode_error + item option" where
  "demo_block_item b =
     (case scan_item_kind b of
        Inl _ \<Rightarrow> Inl ''invalid item''
      | Inr k \<Rightarrow> Inr (
          if k = F_BLOCK_HEADER then
            Some (BlockHeader \<lparr>bh_number = 7, bh_hapi_proto_version = None, bh_block_timestamp = None\<rparr>)
          else if k = F_BLOCK_FOOTER then
            Some (BlockFooter \<lparr>bf_previous_block_root_hash = replicate 48 1,
              bf_root_hash_of_all_block_hashes_tree = replicate 48 2, bf_start_of_block_state_root_hash = []\<rparr>)
          else if k = F_BLOCK_PROOF then Some (BlockProof (Some (SignedBlockProof [9])))
          else if k = F_SIGNED_TRANSACTION then Some (SignedTransaction b)
          else Some Other_Item))"

definition demo_env :: externals where
  "demo_env = demo\<lparr>dec_block_item := demo_block_item\<rparr>"

definition demo_block :: bytes where
  "demo_block = encode_block (map encode_item [(F_BLOCK_HEADER, []), (F_SIGNED_TRANSACTION, [5]), (F_BLOCK_PROOF, []), (F_BLOCK_FOOTER, [])])"

lemma oneof_law_demo: "oneof_law demo_env"
  by (auto simp: oneof_law_def demo_env_def demo_block_item_def split: if_splits)

lemma demo_block_bytes:
  "demo_block = [0x0a, 2, 0x0a, 0, 0x0a, 3, 0x22, 1, 5, 0x0a, 2, 0x4a, 0, 0x0a, 2, 0x62, 0]"
  by (simp add: demo_block_def encode_block_def encode_item_def encode_field_def encode_varint.simps)

lemma demo_block_scan:
  "scan_block_items demo_block = Inr [\<lparr>field_number = 1, item_bytes = [0x0a, 0]\<rparr>,
     \<lparr>field_number = 4, item_bytes = [0x22, 1, 5]\<rparr>, \<lparr>field_number = 9, item_bytes = [0x4a, 0]\<rparr>,
     \<lparr>field_number = 12, item_bytes = [0x62, 0]\<rparr>]"
  unfolding demo_block_bytes
  by (simp add: scan_block_items_def scan_block_loop.simps read_varint_def read_varint_loop.simps
        get_at_def read_length_delimited_def checked_add_usize_def usize_limit_def slice_def scan_item_kind_def
        scan_item_kind_loop.simps)

lemma demo_block_inflate: "inflate demo_env demo_block = Inr demo_block"
  by (simp add: inflate_def is_gzip_def GZIP_MAGIC_def demo_block_bytes)

lemma demo_decode:
  "dec_block_item demo_env [0x0a, 0] =
     Inr (Some (BlockHeader \<lparr>bh_number = 7, bh_hapi_proto_version = None, bh_block_timestamp = None\<rparr>))"
  "dec_block_item demo_env [0x22, 1, 5] = Inr (Some (SignedTransaction [0x22, 1, 5]))"
  "dec_block_item demo_env [0x4a, 0] = Inr (Some (BlockProof (Some (SignedBlockProof [9]))))"
  "dec_block_item demo_env [0x62, 0] = Inr (Some (BlockFooter \<lparr>bf_previous_block_root_hash = replicate 48 1,
      bf_root_hash_of_all_block_hashes_tree = replicate 48 2, bf_start_of_block_state_root_hash = []\<rparr>))"
  by (simp_all add: demo_env_def demo_block_item_def scan_item_kind_def scan_item_kind_loop.simps read_varint_def
      read_varint_loop.simps get_at_def read_length_delimited_def checked_add_usize_def usize_limit_def slice_def)

lemma demo_add_leaf: "add_leaf sha streaming_default h = Some \<lparr>stack = [h], leaf_count = 1\<rparr>"
  by (simp add: add_leaf_def streaming_default_def fold_up.simps)

lemma demo_extract:
  "\<exists>m. extract_proof_material demo_env demo_block = Some (Inr m) \<and> block_number m = 7 \<and> layout m = classify_layout [9]"
proof -
  have "\<exists>st. fold_panic (scan_item demo_env) scan_start [\<lparr>field_number = 1, item_bytes = [0x0a, 0]\<rparr>,
     \<lparr>field_number = 4, item_bytes = [0x22, 1, 5]\<rparr>, \<lparr>field_number = 9, item_bytes = [0x4a, 0]\<rparr>,
     \<lparr>field_number = 12, item_bytes = [0x62, 0]\<rparr>] = Some (Inr st) \<and>
     header st = Some \<lparr>bh_number = 7, bh_hapi_proto_version = None, bh_block_timestamp = None\<rparr> \<and>
     footer st \<noteq> None \<and> block_signature st = Some [9]"
    by (simp add: scan_item_def hash_item_def view_item_def scan_start_def demo_decode demo_add_leaf
        signed_block_signature_def)
  then show ?thesis
    by (auto simp: extract_proof_material_def scan_block_def demo_block_inflate demo_block_scan finish_scan_def Let_def)
qed

lemma demo_kinds:
  "transactions_of [\<lparr>field_number = 1, item_bytes = [0x0a, 0]\<rparr>, \<lparr>field_number = 4, item_bytes = [0x22, 1, 5]\<rparr>,
     \<lparr>field_number = 9, item_bytes = [0x4a, 0]\<rparr>, \<lparr>field_number = 12, item_bytes = [0x62, 0]\<rparr>] = [[0x22, 1, 5]]"
  by (simp add: transactions_of_def)

lemma demo_footer:
  "footer_of demo_env [\<lparr>field_number = 1, item_bytes = [0x0a, 0]\<rparr>, \<lparr>field_number = 4, item_bytes = [0x22, 1, 5]\<rparr>,
     \<lparr>field_number = 9, item_bytes = [0x4a, 0]\<rparr>, \<lparr>field_number = 12, item_bytes = [0x62, 0]\<rparr>] =
   Some \<lparr>bf_previous_block_root_hash = replicate 48 1, bf_root_hash_of_all_block_hashes_tree = replicate 48 2,
         bf_start_of_block_state_root_hash = []\<rparr>"
  by (simp add: footer_of_def footer_after_def demo_decode)

section \<open>The theorems\<close>

lemma inclusion_recomputes:
  assumes "oneof_law E" "inflate E bytes = Inr raw" "length raw < 2 ^ 64"
    and "extract_proof_material E bytes = Some (Inr m)"
    and "block_inclusion_witness E bytes i = Some (Inr (tx, w))"
  shows "recompute_block_root (sha384 E) tx w = block_root m \<and>
    (\<exists>items. scan_block_items raw = Inr items \<and> i < length (transactions_of items) \<and> tx = transactions_of items ! i)"
proof -
  obtain s where s: "scan_block E bytes = Some (Inr s)" "block_root m = sb_block_root s"
    using assms(4) by (auto simp: extract_proof_material_Inr_iff)
  then obtain items where items: "scan_block_items raw = Inr items"
    using assms(2) by (cases "scan_block_items raw") (auto simp: scan_block_def)
  from scan_block_cases [OF assms(1,2) items assms(3)] s(1) obtain h f where
    "header_of E items = Some h" "footer_of E items = Some f" "sb_block_root s = block_root_spec E items h f" by auto
  moreover from block_inclusion_witness_cases [OF assms(2) items assms(3), of i] assms(5) obtain h' f' where
    "header_of E items = Some h'" "footer_of E items = Some f'" "i < length (transactions_of items)"
    "tx = transactions_of items ! i" "recompute_block_root (sha384 E) tx w = block_root_spec E items h' f'" by auto
  ultimately show ?thesis using s(2) items by auto
qed

text \<open>C1. Inclusion: whenever the block's proof material and an inclusion witness can both be extracted
  from the same bytes, the witness recomputes exactly the root the material carries (the message
  the network signed), from the exact bytes of the transaction's own item.\<close>

theorem inclusion_witness_recomputes_root:
  assumes "oneof_law E" "inflate E bytes = Inr raw" "length raw < 2 ^ 64"
    and "extract_proof_material E bytes = Some (Inr m)"
    and "block_inclusion_witness E bytes i = Some (Inr (tx, w))"
  shows "recompute_block_root (sha384 E) tx w = block_root m \<and>
    (\<exists>items. scan_block_items raw = Inr items \<and> i < length (transactions_of items) \<and> tx = transactions_of items ! i)"
  by (rule inclusion_recomputes [OF assms])

lemma demo_inclusion: "\<exists>w. block_inclusion_witness demo_env demo_block 0 = Some (Inr ([0x22, 1, 5], w))"
proof -
  let ?leaf = "hash_leaf (sha384 demo_env) [0x22, 1, 5]"
  obtain v where v: "witness_for (sha384 demo_env) [?leaf] 0 = Some (Some v)"
    using witness_for_folds [of 0 "[?leaf]" "sha384 demo_env"] by auto
  show ?thesis
    using v by (simp add: block_inclusion_witness_def demo_block_inflate demo_block_scan witness_item_def
        witness_hash_item_def witness_view_item_def witness_start_def demo_decode demo_add_leaf finish_witness_def
        get_at_def to_hash48_def HASH_LENGTH_def)
qed

lemma inclusion_witness_recomputes_root_witness:
  "\<exists>m w. extract_proof_material demo_env demo_block = Some (Inr m) \<and>
     block_inclusion_witness demo_env demo_block 0 = Some (Inr ([0x22, 1, 5], w)) \<and>
     recompute_block_root (sha384 demo_env) [0x22, 1, 5] w = block_root m"
proof -
  obtain m where m: "extract_proof_material demo_env demo_block = Some (Inr m)" using demo_extract by blast
  obtain w where w: "block_inclusion_witness demo_env demo_block 0 = Some (Inr ([0x22, 1, 5], w))" using demo_inclusion by blast
  have "length demo_block < 2 ^ 64" by (simp add: demo_block_bytes)
  from inclusion_witness_recomputes_root [OF oneof_law_demo demo_block_inflate this m w] m w show ?thesis by auto
qed

text \<open>C10. Every signed transaction of a readable block has its witness: when the material can be
  extracted and the footer's hashes have 48 bytes, each index below the number of signed
  transactions gives a witness, for that transaction's item; and an index beyond it, like a footer
  hash of another size, is an error and not a panic.\<close>

theorem inclusion_witness_exists:
  assumes "oneof_law E" "inflate E bytes = Inr raw" "length raw < 2 ^ 64"
    and "extract_proof_material E bytes = Some (Inr m)"
  shows "\<exists>items f. scan_block_items raw = Inr items \<and> footer_of E items = Some f \<and>
    (if i < length (transactions_of items) \<and> footer_hashes_ok f
     then \<exists>w. block_inclusion_witness E bytes i = Some (Inr (transactions_of items ! i, w))
     else \<exists>e. block_inclusion_witness E bytes i = Some (Inl e))"
proof -
  obtain s where s: "scan_block E bytes = Some (Inr s)"
    using assms(4) by (auto simp: extract_proof_material_Inr_iff)
  then obtain items where items: "scan_block_items raw = Inr items"
    using assms(2) by (cases "scan_block_items raw") (auto simp: scan_block_def)
  from scan_block_cases [OF assms(1,2) items assms(3)] s obtain h f where hf:
    "header_of E items = Some h" "footer_of E items = Some f"
    "\<forall>it \<in> set items. field_number it \<in> supported_kinds \<and> readable E it" by auto
  obtain r where r: "block_inclusion_witness E bytes i = Some r" "case r of
       Inr (tx, w) \<Rightarrow> \<exists>h f. header_of E items = Some h \<and> footer_of E items = Some f \<and> footer_hashes_ok f \<and>
         i < length (transactions_of items) \<and> tx = transactions_of items ! i \<and>
         recompute_block_root (sha384 E) tx w = block_root_spec E items h f
     | Inl e \<Rightarrow> (\<exists>it \<in> set items. field_number it \<notin> supported_kinds \<or> \<not> readable E it) \<or>
         header_of E items = None \<or> footer_of E items = None \<or> length (transactions_of items) \<le> i \<or>
         (\<exists>f. footer_of E items = Some f \<and> \<not> footer_hashes_ok f)"
    using block_inclusion_witness_cases [OF assms(2) items assms(3), of i] by blast
  show ?thesis
  proof (cases r)
    case (Inl e)
    with r hf have "\<not> (i < length (transactions_of items) \<and> footer_hashes_ok f)" by auto
    with r(1) Inl items hf(2) show ?thesis by auto
  next
    case (Inr q)
    obtain tx w where "q = (tx, w)" by (cases q)
    with Inr r hf items show ?thesis by auto
  qed
qed

lemma inclusion_witness_exists_witness:
  "(\<exists>w. block_inclusion_witness demo_env demo_block 0 = Some (Inr ([0x22, 1, 5], w))) \<and>
   (\<exists>e. block_inclusion_witness demo_env demo_block 1 = Some (Inl e))"
proof -
  obtain m where m: "extract_proof_material demo_env demo_block = Some (Inr m)" using demo_extract by blast
  have len: "length demo_block < 2 ^ 64" by (simp add: demo_block_bytes)
  note ex = inclusion_witness_exists [OF oneof_law_demo demo_block_inflate len m]
  from ex [of 0] ex [of 1] show ?thesis
    by (auto simp: demo_block_scan demo_kinds demo_footer footer_hashes_ok_def)
qed

text \<open>C38. Reading a block never panics: neither the streaming trees' pops nor the \<open>expect\<close> of the witness
  construction can fail, on any input that fits in memory, for any behaviour of the decoders.\<close>

theorem block_reading_never_panics:
  assumes "\<And>raw. inflate E bytes = Inr raw \<Longrightarrow> length raw < 2 ^ 64"
  shows "extract_proof_material E bytes \<noteq> None \<and> block_chain_info E bytes \<noteq> None \<and>
    block_inclusion_witness E bytes i \<noteq> None"
proof (cases "and_then (inflate E bytes) scan_block_items")
  case (Inl e)
  then show ?thesis
    by (simp add: extract_proof_material_def block_chain_info_def scan_block_def block_inclusion_witness_def)
next
  case (Inr items)
  then obtain raw where raw: "inflate E bytes = Inr raw" "scan_block_items raw = Inr items"
    by (auto simp: and_then_eq_Inr_iff)
  have "length items < 2 ^ 64" using scan_block_items_kinds(2) [OF raw(2)] assms [OF raw(1)] by linarith
  then have "fold_panic (scan_item E) scan_start items \<noteq> None"
    using scan_loop_total [of items E] by simp
  moreover have "block_inclusion_witness E bytes i \<noteq> None"
    using block_inclusion_witness_cases [OF raw assms [OF raw(1)], of i] by auto
  ultimately show ?thesis
    using Inr by (simp add: extract_proof_material_def block_chain_info_def scan_block_def)
qed

lemma block_reading_never_panics_witness: "block_inclusion_witness demo_env demo_block 3 \<noteq> None"
proof -
  have "\<And>raw. inflate demo_env demo_block = Inr raw \<Longrightarrow> length raw < 2 ^ 64"
    by (simp add: demo_block_inflate) (simp add: demo_block_bytes)
  from block_reading_never_panics [of demo_env demo_block, OF this] show ?thesis by blast
qed

text \<open>Binding: two transactions whose witnesses have the same shape and recompute one root are the
  same transaction, unless they show a SHA-384 collision among the strings hashed on the two
  ways up: a signed root admits one transaction at one position.\<close>

theorem inclusion_binding:
  assumes "sha384_len sha" "witness_sized w" "witness_sized w'"
    and "map fst (witness_path (input_witness w)) = map fst (witness_path (input_witness w'))"
    and "recompute_block_root sha tx w = recompute_block_root sha tx' w'" "tx \<noteq> tx'"
  shows "collision_between sha (inclusion_inputs sha tx w) (inclusion_inputs sha tx' w')"
proof (rule ccontr)
  assume no: "\<not> collision_between sha (inclusion_inputs sha tx w) (inclusion_inputs sha tx' w')"
  let ?l = "hash_leaf sha tx" and ?l' = "hash_leaf sha tx'"
  let ?p = "witness_path (input_witness w)" and ?p' = "witness_path (input_witness w')"
  have len: "length (sha x) = 48" for x using assms(1) by (simp add: sha384_len_def)
  have plen: "length ?p = length ?p'" using arg_cong [OF assms(4), of length] by simp
  have ulen: "length (upper_inputs sha x v) = 5" for x v by (simp add: upper_inputs_def Let_def)
  have parts: "\<not> collision_between sha (upper_inputs sha (fold_witness sha ?l (input_witness w)) w)
       (upper_inputs sha (fold_witness sha ?l' (input_witness w')) w')"
    "\<not> collision_between sha (path_inputs sha ?l ?p) (path_inputs sha ?l' ?p')"
    "\<not> collision_between sha [0x00 # tx] [0x00 # tx']"
    using no plen ulen by (simp_all add: inclusion_inputs_def collision_between_append)
  from parts(3) assms(6) have neq: "?l \<noteq> ?l'" by (simp add: collision_between_def hash_leaf_def)
  have "fold_witness sha ?l (input_witness w) = fold_witness sha ?l' (input_witness w')"
    using assms(2,3,5) parts(1) len by (intro upper_inputs_binding) (simp_all add: witness_sized_def)
  then have "fold_siblings sha ?p ?l = fold_siblings sha ?p' ?l'" by (simp add: fold_witness_path)
  moreover have "\<forall>s \<in> set ?p \<union> set ?p'. length (snd s) = 48" using assms(2,3) by (auto simp: witness_sized_def)
  ultimately have "collision_between sha (path_inputs sha ?l ?p) (path_inputs sha ?l' ?p')"
    using neq assms(1,4) len by (intro path_binding) (simp_all add: hash_leaf_def)
  with parts(2) show False by contradiction
qed

lemma inclusion_binding_witness:
  "let w = \<lparr>input_witness = \<lparr>siblings = [(Right, replicate 48 7)], left_peaks = [], right_root = None\<rparr>,
       output_root = replicate 48 1, consensus_root = [], state_changes_root = [], trace_root = [],
       state_root = [], witness_previous_block_root = [], root_hash_of_all_block_hashes_tree = [],
       timestamp_bytes = []\<rparr>;
     sha = (\<lambda>_. replicate 48 0)
   in collision_between sha (inclusion_inputs sha [1] w) (inclusion_inputs sha [2] w)"
proof -
  let ?w = "\<lparr>input_witness = \<lparr>siblings = [(Right, replicate 48 7)], left_peaks = [], right_root = None\<rparr>,
       output_root = replicate 48 1, consensus_root = [], state_changes_root = [], trace_root = [],
       state_root = [], witness_previous_block_root = [], root_hash_of_all_block_hashes_tree = [],
       timestamp_bytes = []\<rparr>"
  let ?sha = "\<lambda>_ :: bytes. replicate 48 (0 :: u8)"
  have "collision_between ?sha (inclusion_inputs ?sha [1] ?w) (inclusion_inputs ?sha [2] ?w)"
    by (rule inclusion_binding)
      (simp_all add: sha384_len_def witness_sized_def witness_path_def recompute_block_root_def hash_internal_def Let_def)
  then show ?thesis by (simp add: Let_def)
qed

text \<open>The split of the packed signature loses nothing: the three parts are the signature's bytes in
  order, and the scheme is decided by the total length alone (2920 bytes is the aggregate Schnorr
  proof, 3432 bytes the WRAPS proof, anything else unknown).\<close>

theorem classify_layout_lossless:
  "hints_verification_key (classify_layout sig) @ hints_signature (classify_layout sig) @ suffix_bytes (classify_layout sig) = sig \<and>
   path (classify_layout sig) =
     (if length sig = 2920 then AggregateSchnorr else if length sig = 3432 then WrapsCompressedProof else Unknown_Path) \<and>
   length (hints_verification_key (classify_layout sig)) = (if length sig \<ge> 2728 then 1096 else 0) \<and>
   length (hints_signature (classify_layout sig)) = (if length sig \<ge> 2728 then 1632 else 0)"
proof -
  have s: "take 1096 sig @ slice 1096 2728 sig @ drop 2728 sig = sig" if "2728 \<le> length sig"
    using slice_split [of 1096 2728 sig] that by simp
  have c: "FIXED_PREFIX_LENGTH = 2728" "HINTS_VK_LENGTH = 1096"
    by (simp_all add: FIXED_PREFIX_LENGTH_def HINTS_VK_LENGTH_def HINTS_SIG_LENGTH_def)
  note defs = classify_layout_def c SCHNORR_SUFFIX_LENGTH_def WRAPS_SUFFIX_LENGTH_def Let_def
  show ?thesis
  proof (cases "length sig < 2728")
    case True
    then show ?thesis by (simp add: defs)
  next
    case False
    moreover from this have "length sig - 2728 = 192 \<longleftrightarrow> length sig = 2920" "length sig - 2728 = 704 \<longleftrightarrow> length sig = 3432"
      by linarith+
    ultimately show ?thesis using s by (simp add: defs length_slice)
  qed
qed

text \<open>The root does not determine where the footer's two chain hashes meet: the scan hashes them
  one after the other without checking their lengths, so a footer that moves a byte from the
  second to the first has the same root with another claim about the previous block. (An
  inclusion witness cannot be made for such a footer: it requires 48 bytes for each.)\<close>

theorem footer_split_ambiguous:
  "let f = \<lparr>bf_previous_block_root_hash = [1], bf_root_hash_of_all_block_hashes_tree = [2, 3],
            bf_start_of_block_state_root_hash = []\<rparr>;
       f' = f\<lparr>bf_previous_block_root_hash := [1, 2], bf_root_hash_of_all_block_hashes_tree := [3]\<rparr>
   in \<exists>s s'. finish_scan E (st\<lparr>header := Some h, footer := Some f\<rparr>) = Inr s \<and>
        finish_scan E (st\<lparr>header := Some h, footer := Some f'\<rparr>) = Inr s' \<and>
        sb_block_root s = sb_block_root s' \<and> sb_previous_block_root s \<noteq> sb_previous_block_root s'"
  by (simp add: upper_tree_def hash_internal_def finish_scan_def Let_def)

end
