(* ===== verification/Pairing.thy ===== *)
theory Pairing
  imports Main
begin

text \<open>
  What the proof verification relies on of a pairing-friendly curve, for BLS12-381 and BN254 alike:
  the two groups are cyclic of prime order, so a point is a scalar times a generator (\<open>lg1\<close> and
  \<open>lg2\<close> are the discrete logarithms, which nobody has to be able to compute), and a product of pairings is
  one exactly when the sum of the products of the logarithms is zero (the pairing is bilinear and
  not degenerate). With it a pairing check becomes an equation between scalars.
\<close>

definition pairing_group :: "('g1::ab_group_add \<Rightarrow> 'fr::field \<Rightarrow> 'g1) \<Rightarrow> ('g2::ab_group_add \<Rightarrow> 'fr \<Rightarrow> 'g2) \<Rightarrow>
    ('g1 list \<Rightarrow> 'g2 list \<Rightarrow> bool) \<Rightarrow> ('g1 \<Rightarrow> 'fr) \<Rightarrow> ('g2 \<Rightarrow> 'fr) \<Rightarrow> bool" where
  "pairing_group mul1 mul2 product_is_one lg1 lg2 \<longleftrightarrow>
     (\<forall>a b. lg1 (a + b) = lg1 a + lg1 b) \<and> (\<forall>a s. lg1 (mul1 a s) = s * lg1 a) \<and>
     (\<forall>a b. lg2 (a + b) = lg2 a + lg2 b) \<and> (\<forall>a s. lg2 (mul2 a s) = s * lg2 a) \<and>
     (\<forall>ps qs. length ps = length qs \<longrightarrow>
        (product_is_one ps qs \<longleftrightarrow> sum_list (map2 (\<lambda>p q. lg1 p * lg2 q) ps qs) = 0))"

lemma additive_group:
  fixes lg :: "'g::ab_group_add \<Rightarrow> 'fr::field"
  assumes "\<And>a b. lg (a + b) = lg a + lg b"
  shows "lg 0 = 0" "lg (- a) = - lg a" "lg (a - b) = lg a - lg b"
proof -
  show zero: "lg 0 = 0" using assms [of 0 0] by (simp only: add_0_left add_cancel_right_right)
  show neg: "lg (- x) = - lg x" for x using assms [of x "- x"] zero by (simp add: add_eq_0_iff)
  show "lg (a - b) = lg a - lg b" using assms [of a "- b"] neg by simp
qed

lemma pairing_group_simps:
  assumes "pairing_group mul1 mul2 product_is_one lg1 lg2"
  shows "lg1 0 = 0" "lg1 (- a) = - lg1 a" "lg1 (a + b) = lg1 a + lg1 b" "lg1 (a - b) = lg1 a - lg1 b"
    "lg1 (mul1 a s) = s * lg1 a" "lg2 (- c) = - lg2 c" "lg2 (c - d) = lg2 c - lg2 d" "lg2 (mul2 c s) = s * lg2 c"
    "length ps = length qs \<Longrightarrow> product_is_one ps qs \<longleftrightarrow> sum_list (map2 (\<lambda>p q. lg1 p * lg2 q) ps qs) = 0"
proof -
  have l1: "\<And>a b. lg1 (a + b) = lg1 a + lg1 b" and l2: "\<And>a b. lg2 (a + b) = lg2 a + lg2 b"
    using assms by (simp_all add: pairing_group_def)
  show "lg1 0 = 0" "lg1 (- a) = - lg1 a" "lg1 (a - b) = lg1 a - lg1 b" using additive_group [OF l1] by simp_all
  show "lg2 (- c) = - lg2 c" "lg2 (c - d) = lg2 c - lg2 d" using additive_group [OF l2] by simp_all
qed (use assms in \<open>simp_all add: pairing_group_def\<close>)

end
