(* ===== verification/Demo_Field.thy ===== *)
theory Demo_Field
  imports Main
begin

text \<open>
  The field of two elements. The curve libraries are parameters of the proof theories, over any
  field of scalars and any groups of points; the concrete instances at which their theorems are
  applied use this field for the scalars and, with its addition, for the points.
\<close>

datatype gf2 = Zero | One

instantiation gf2 :: field
begin

definition zero_gf2 :: gf2 where "zero_gf2 = Zero"
definition one_gf2 :: gf2 where "one_gf2 = One"

fun plus_gf2 :: "gf2 \<Rightarrow> gf2 \<Rightarrow> gf2" where
  "plus_gf2 Zero b = b"
| "plus_gf2 One Zero = One"
| "plus_gf2 One One = Zero"

fun times_gf2 :: "gf2 \<Rightarrow> gf2 \<Rightarrow> gf2" where
  "times_gf2 Zero b = Zero"
| "times_gf2 One b = b"

definition uminus_gf2 :: "gf2 \<Rightarrow> gf2" where "uminus_gf2 a = a"
definition minus_gf2 :: "gf2 \<Rightarrow> gf2 \<Rightarrow> gf2" where "minus_gf2 a b = a + b"
definition inverse_gf2 :: "gf2 \<Rightarrow> gf2" where "inverse_gf2 a = a"
definition divide_gf2 :: "gf2 \<Rightarrow> gf2 \<Rightarrow> gf2" where "divide_gf2 a b = a * b"

text \<open>Every law is checked on the two elements.\<close>

lemmas gf2_defs = zero_gf2_def one_gf2_def uminus_gf2_def minus_gf2_def inverse_gf2_def divide_gf2_def

instance
proof
  fix u v w :: gf2
  show "(0 :: gf2) \<noteq> 1" by (simp add: gf2_defs)
  show "u * v = v * u" by (cases u; cases v) simp_all
  show "u + v = v + u" by (cases u; cases v) simp_all
  show "u * v * w = u * (v * w)" by (cases u; cases v; cases w) simp_all
  show "(u + v) * w = u * w + v * w" by (cases u; cases v; cases w) simp_all
  show "u + v + w = u + (v + w)" by (cases u; cases v; cases w) simp_all
  show "inverse (0 :: gf2) = 0" by (simp add: gf2_defs)
  show "1 * u = u" by (simp add: gf2_defs)
  show "0 + u = u" by (simp add: gf2_defs)
  show "u div v = u * inverse v" by (simp add: gf2_defs)
  show "u - v = u + - v" by (simp add: gf2_defs)
  show "- u + u = 0" by (cases u) (simp_all add: gf2_defs)
  show "u \<noteq> 0 \<Longrightarrow> inverse u * u = 1" by (cases u) (simp_all add: gf2_defs)
qed

end

end
