(* ===== verification/Hints.thy ===== *)
theory Hints
  imports Material Pairing Demo_Field
begin

text \<open>
  \<open>src/block/proof/hints.rs\<close>: the hinTS threshold signature over the block root. The curve BLS12-381
  is third-party code (arkworks), so its functions are the fields of \<open>bls\<close>: the scalar field is a type of
  class \<open>field\<close>, the two groups are types of class \<open>ab_group_add\<close> (a point is the same value
  in its affine and its projective representation), and a coordinate is a value of \<open>'fq\<close>. What
  the crate does itself is defined here: the byte layouts of the key and the signature, the big-endian
  point encodings and their flags, the transcript and its hash expansion, the threshold on canonical
  integers, and which points enter which pairing with which sign.

  A division by zero in the scalar field panics; the multiplication of the threshold is left
  unchecked by the code, so it panics or wraps with the build (\<open>checks\<close>).
\<close>

type_synonym u128 = "128 word"

section \<open>The curve\<close>

text \<open>
  \<open>fq_deserialize\<close> is \<open>Fq::deserialize_uncompressed\<close> of little-endian bytes, \<open>fq_bigint\<close> is
  \<open>into_bigint\<close>, \<open>fq_bytes_be\<close> its \<open>to_bytes_be\<close>; \<open>fr_limbs\<close> the four limbs of a scalar.
  \<open>g1_new\<close> is \<open>new_unchecked\<close>; the two checks of the curve are on the coordinates.
  \<open>pairing_is_one\<close> is \<open>multi_pairing(..).0.is_one()\<close>. \<open>g2_hasher\<close> is \<open>MapToCurveBasedHasher::new\<close>
  and the \<open>hash\<close> of what it returns.
\<close>

record ('fr, 'fq, 'g1, 'g2) bls =
  fq_deserialize :: "bytes \<Rightarrow> string + 'fq"
  fq_bigint :: "'fq \<Rightarrow> nat"
  fq_modulus :: nat
  fq_bytes_be :: "'fq \<Rightarrow> bytes"
  fr_from_le :: "bytes \<Rightarrow> 'fr"
  fr_from_be :: "bytes \<Rightarrow> 'fr"
  fr_bytes_le :: "'fr \<Rightarrow> bytes"
  fr_limbs :: "'fr \<Rightarrow> u64 \<times> u64 \<times> u64 \<times> u64"
  fr_from_u64 :: "u64 \<Rightarrow> 'fr"
  fr_root_of_unity :: "u64 \<Rightarrow> 'fr option"
  g1_new :: "'fq \<Rightarrow> 'fq \<Rightarrow> 'g1"
  g1_on_curve :: "'fq \<Rightarrow> 'fq \<Rightarrow> bool"
  g1_in_subgroup :: "'fq \<Rightarrow> 'fq \<Rightarrow> bool"
  g1_x :: "'g1 \<Rightarrow> 'fq"
  g1_y :: "'g1 \<Rightarrow> 'fq"
  g1_mul :: "'g1 \<Rightarrow> 'fr \<Rightarrow> 'g1"
  g2_new :: "'fq \<times> 'fq \<Rightarrow> 'fq \<times> 'fq \<Rightarrow> 'g2"
  g2_on_curve :: "'fq \<times> 'fq \<Rightarrow> 'fq \<times> 'fq \<Rightarrow> bool"
  g2_in_subgroup :: "'fq \<times> 'fq \<Rightarrow> 'fq \<times> 'fq \<Rightarrow> bool"
  g2_x :: "'g2 \<Rightarrow> 'fq \<times> 'fq"
  g2_y :: "'g2 \<Rightarrow> 'fq \<times> 'fq"
  g2_mul :: "'g2 \<Rightarrow> 'fr \<Rightarrow> 'g2"
  g2_hasher :: "bytes \<Rightarrow> string + (bytes \<Rightarrow> string + 'g2)"
  pairing_is_one :: "'g1 list \<Rightarrow> 'g2 list \<Rightarrow> bool"
  sha256 :: "bytes \<Rightarrow> bytes"

definition VK_LENGTH :: nat where "VK_LENGTH = 1096"
definition SIG_LENGTH :: nat where "SIG_LENGTH = 1632"

definition HASH_TO_G2_DST :: bytes where
  "HASH_TO_G2_DST = map (\<lambda>c. of_nat (of_char c)) ''BLS_SIG_BLS12381G2_XMD:SHA-256_SSWU_RO_POP_''"

definition FIAT_SHAMIR_DST :: bytes where
  "FIAT_SHAMIR_DST = map (\<lambda>c. of_nat (of_char c)) ''HINTS_SIG_BLS12381:FIAT_SHAMIR''"

definition THRESHOLD_NUMERATOR :: u128 where "THRESHOLD_NUMERATOR = 1"
definition THRESHOLD_DENOMINATOR :: u128 where "THRESHOLD_DENOMINATOR = 3"

section \<open>The outcome\<close>

record hints_checks =
  threshold_met :: bool
  bls_signature_valid :: bool
  merged_kzg_valid :: bool
  parsum_kzg_valid :: bool
  b_sk_identity_valid :: bool
  parsum_accumulation_valid :: bool
  parsum_constraint_valid :: bool
  bitmap_well_formedness_valid :: bool
  bitmap_constraint_valid :: bool
  degree_check_valid :: bool

definition all_passed :: "hints_checks \<Rightarrow> bool" where
  "all_passed h \<longleftrightarrow> threshold_met h \<and> bls_signature_valid h \<and> merged_kzg_valid h \<and> parsum_kzg_valid h \<and>
     b_sk_identity_valid h \<and> parsum_accumulation_valid h \<and> parsum_constraint_valid h \<and>
     bitmap_well_formedness_valid h \<and> bitmap_constraint_valid h \<and> degree_check_valid h"

section \<open>Reading points\<close>

definition fq_from_be :: "('fr, 'fq, 'g1, 'g2) bls \<Rightarrow> bytes \<Rightarrow> 'fq result" where
  "fq_from_be B bytes = map_err (\<lambda>e. Proof (''Fq: '' @ e)) (fq_deserialize B (rev bytes))"

definition read_g1_uncompressed :: "('fr, 'fq::zero, 'g1::zero, 'g2) bls \<Rightarrow> bytes \<Rightarrow> 'g1 result" where
  "read_g1_uncompressed B bytes =
     and_then (fq_from_be B (slice 0 48 bytes)) (\<lambda>x.
     and_then (fq_from_be B (slice 48 96 bytes)) (\<lambda>y.
       if x = 0 \<and> y = 0 then Inr 0
       else if \<not> g1_on_curve B x y \<or> \<not> g1_in_subgroup B x y then
         Inl (Proof ''G1 point not in the prime-order subgroup'')
       else Inr (g1_new B x y)))"

definition read_g2_uncompressed :: "('fr, 'fq::zero, 'g1, 'g2::zero) bls \<Rightarrow> bytes \<Rightarrow> 'g2 result" where
  "read_g2_uncompressed B bytes =
     and_then (fq_from_be B (slice 0 48 bytes)) (\<lambda>x_c1.
     and_then (fq_from_be B (slice 48 96 bytes)) (\<lambda>x_c0.
     and_then (fq_from_be B (slice 96 144 bytes)) (\<lambda>y_c1.
     and_then (fq_from_be B (slice 144 192 bytes)) (\<lambda>y_c0.
       if x_c0 = 0 \<and> x_c1 = 0 \<and> y_c0 = 0 \<and> y_c1 = 0 then Inr 0
       else if \<not> g2_on_curve B (x_c0, x_c1) (y_c0, y_c1) \<or> \<not> g2_in_subgroup B (x_c0, x_c1) (y_c0, y_c1) then
         Inl (Proof ''G2 point not in the prime-order subgroup'')
       else Inr (g2_new B (x_c0, x_c1) (y_c0, y_c1))))))"

definition read_fr_le :: "('fr, 'fq, 'g1, 'g2) bls \<Rightarrow> bytes \<Rightarrow> 'fr" where
  "read_fr_le B bytes = fr_from_le B bytes"

section \<open>Compressed points\<close>

text \<open>The copy into the last bytes of a zeroed buffer of 48.\<close>

definition fq_to_be48 :: "('fr, 'fq, 'g1, 'g2) bls \<Rightarrow> 'fq \<Rightarrow> bytes" where
  "fq_to_be48 B v = (let bs = fq_bytes_be B v in replicate (48 - length bs) 0 @ bs)"

definition FLAG_COMPRESSED :: u8 where "FLAG_COMPRESSED = 0x80"
definition FLAG_INFINITY :: u8 where "FLAG_INFINITY = 0x40"
definition FLAG_Y_NEGATIVE :: u8 where "FLAG_Y_NEGATIVE = 0x20"

definition fq_is_negative :: "('fr, 'fq, 'g1, 'g2) bls \<Rightarrow> 'fq \<Rightarrow> bool" where
  "fq_is_negative B v \<longleftrightarrow> fq_bigint B v > fq_modulus B div 2"

text \<open>\<open>buf[0] |= flag\<close>\<close>

definition or_first :: "u8 \<Rightarrow> bytes \<Rightarrow> bytes" where
  "or_first flag_bits buf = buf[0 := (buf ! 0) OR flag_bits]"

definition compress_g1 :: "('fr, 'fq, 'g1::zero, 'g2) bls \<Rightarrow> 'g1 \<Rightarrow> bytes" where
  "compress_g1 B point =
     (if point = 0 then (replicate 48 0)[0 := FLAG_COMPRESSED OR FLAG_INFINITY]
      else
        let buf = or_first FLAG_COMPRESSED (fq_to_be48 B (g1_x B point))
        in if fq_is_negative B (g1_y B point) then or_first FLAG_Y_NEGATIVE buf else buf)"

definition compress_g2 :: "('fr, 'fq::zero, 'g1, 'g2::zero) bls \<Rightarrow> 'g2 \<Rightarrow> bytes" where
  "compress_g2 B point =
     (if point = 0 then (replicate 96 0)[0 := FLAG_COMPRESSED OR FLAG_INFINITY]
      else
        let (x_c0, x_c1) = g2_x B point;
            (y_c0, y_c1) = g2_y B point;
            buf = or_first FLAG_COMPRESSED (fq_to_be48 B x_c1 @ fq_to_be48 B x_c0);
            y_negative = (if y_c1 = 0 then fq_is_negative B y_c0 else fq_is_negative B y_c1)
        in if y_negative then or_first FLAG_Y_NEGATIVE buf else buf)"

section \<open>The key and the signature\<close>

record ('fr, 'g1, 'g2) hints_vk =
  vk_n :: u64
  vk_total_weight :: 'fr
  vk_g0 :: 'g1
  vk_h0 :: 'g2
  vk_h1 :: 'g2
  vk_ln_minus_1_of_tau_com :: 'g1
  vk_w_of_tau_com :: 'g1
  vk_sk_of_tau_com :: 'g2
  vk_z_of_tau_com :: 'g2

record ('fr, 'g1, 'g2) hints_sig =
  sg_agg_pk :: 'g1
  sg_agg_weight :: 'fr
  sg_agg_sig :: 'g2
  sg_b_of_tau_com :: 'g1
  sg_qx_of_tau_com :: 'g1
  sg_qx_of_tau_mul_tau_com :: 'g1
  sg_qz_of_tau_com :: 'g1
  sg_parsum_of_tau_com :: 'g1
  sg_q1_of_tau_com :: 'g1
  sg_q3_of_tau_com :: 'g1
  sg_q2_of_tau_com :: 'g1
  sg_q4_of_tau_com :: 'g1
  sg_opening_proof_r :: 'g1
  sg_opening_proof_r_div_omega :: 'g1
  sg_parsum_of_r :: 'fr
  sg_parsum_of_r_div_omega :: 'fr
  sg_w_of_r :: 'fr
  sg_b_of_r :: 'fr
  sg_q1_of_r :: 'fr
  sg_q3_of_r :: 'fr
  sg_q2_of_r :: 'fr
  sg_q4_of_r :: 'fr

definition deserialize_vk :: "('fr, 'fq::zero, 'g1::zero, 'g2::zero) bls \<Rightarrow> bytes \<Rightarrow> ('fr, 'g1, 'g2) hints_vk result" where
  "deserialize_vk B bytes =
     (if length bytes \<noteq> VK_LENGTH then
        Inl (Proof (''hints VK is '' @ show_nat (length bytes) @ '' bytes, expected '' @ show_nat VK_LENGTH))
      else
        and_then (read_g1_uncompressed B (slice 40 136 bytes)) (\<lambda>g0.
        and_then (read_g2_uncompressed B (slice 136 328 bytes)) (\<lambda>h0.
        and_then (read_g2_uncompressed B (slice 328 520 bytes)) (\<lambda>h1.
        and_then (read_g1_uncompressed B (slice 520 616 bytes)) (\<lambda>ln_minus_1.
        and_then (read_g1_uncompressed B (slice 616 712 bytes)) (\<lambda>w.
        and_then (read_g2_uncompressed B (slice 712 904 bytes)) (\<lambda>sk.
        and_then (read_g2_uncompressed B (slice 904 1096 bytes)) (\<lambda>z.
          Inr \<lparr>vk_n = of_nat (be_nat (rev (slice 0 8 bytes))),
               vk_total_weight = read_fr_le B (slice 8 40 bytes),
               vk_g0 = g0, vk_h0 = h0, vk_h1 = h1, vk_ln_minus_1_of_tau_com = ln_minus_1,
               vk_w_of_tau_com = w, vk_sk_of_tau_com = sk, vk_z_of_tau_com = z\<rparr>))))))))"

text \<open>The closures \<open>g1\<close> and \<open>fr\<close> of \<open>deserialize_signature\<close>.\<close>

definition sig_g1 :: "('fr, 'fq::zero, 'g1::zero, 'g2) bls \<Rightarrow> bytes \<Rightarrow> nat \<Rightarrow> 'g1 result" where
  "sig_g1 B bytes offset = read_g1_uncompressed B (slice offset (offset + 96) bytes)"

definition sig_fr :: "('fr, 'fq, 'g1, 'g2) bls \<Rightarrow> bytes \<Rightarrow> nat \<Rightarrow> 'fr" where
  "sig_fr B bytes offset = read_fr_le B (slice offset (offset + 32) bytes)"

definition deserialize_signature :: "('fr, 'fq::zero, 'g1::zero, 'g2::zero) bls \<Rightarrow> bytes \<Rightarrow> ('fr, 'g1, 'g2) hints_sig result" where
  "deserialize_signature B bytes =
     (if length bytes \<noteq> SIG_LENGTH then
        Inl (Proof (''hints signature is '' @ show_nat (length bytes) @ '' bytes, expected '' @ show_nat SIG_LENGTH))
      else
        and_then (sig_g1 B bytes 0) (\<lambda>agg_pk.
        and_then (read_g2_uncompressed B (slice 128 320 bytes)) (\<lambda>agg_sig.
        and_then (sig_g1 B bytes 320) (\<lambda>b.
        and_then (sig_g1 B bytes 416) (\<lambda>qx.
        and_then (sig_g1 B bytes 512) (\<lambda>qx_mul_tau.
        and_then (sig_g1 B bytes 608) (\<lambda>qz.
        and_then (sig_g1 B bytes 704) (\<lambda>parsum.
        and_then (sig_g1 B bytes 800) (\<lambda>q1.
        and_then (sig_g1 B bytes 896) (\<lambda>q3.
        and_then (sig_g1 B bytes 992) (\<lambda>q2.
        and_then (sig_g1 B bytes 1088) (\<lambda>q4.
        and_then (sig_g1 B bytes 1184) (\<lambda>opening_r.
        and_then (sig_g1 B bytes 1280) (\<lambda>opening_r_div_omega.
          Inr \<lparr>sg_agg_pk = agg_pk, sg_agg_weight = sig_fr B bytes 96, sg_agg_sig = agg_sig,
               sg_b_of_tau_com = b, sg_qx_of_tau_com = qx, sg_qx_of_tau_mul_tau_com = qx_mul_tau,
               sg_qz_of_tau_com = qz, sg_parsum_of_tau_com = parsum,
               sg_q1_of_tau_com = q1, sg_q3_of_tau_com = q3, sg_q2_of_tau_com = q2, sg_q4_of_tau_com = q4,
               sg_opening_proof_r = opening_r, sg_opening_proof_r_div_omega = opening_r_div_omega,
               sg_parsum_of_r = sig_fr B bytes 1376, sg_parsum_of_r_div_omega = sig_fr B bytes 1408,
               sg_w_of_r = sig_fr B bytes 1440, sg_b_of_r = sig_fr B bytes 1472,
               sg_q1_of_r = sig_fr B bytes 1504, sg_q3_of_r = sig_fr B bytes 1536,
               sg_q2_of_r = sig_fr B bytes 1568, sg_q4_of_r = sig_fr B bytes 1600\<rparr>))))))))))))))"

section \<open>The transcript\<close>

text \<open>The blocks \<open>i ..= ell\<close> of the expansion: \<open>b0\<close> itself first, then \<open>b0\<close> xor the block before.\<close>

fun xmd_blocks :: "(bytes \<Rightarrow> bytes) \<Rightarrow> bytes \<Rightarrow> bytes \<Rightarrow> bytes \<Rightarrow> nat \<Rightarrow> nat \<Rightarrow> bytes list" where
  "xmd_blocks sha dst_prime b0 prev i 0 = []"
| "xmd_blocks sha dst_prime b0 prev i (Suc n) =
     (let block = sha ((if i = 1 then b0 else map2 (XOR) b0 prev) @ [of_nat i] @ dst_prime)
      in block # xmd_blocks sha dst_prime b0 block (Suc i) n)"

text \<open>\<open>None\<close>: the tag does not fit its length byte, or the slice at the end is out of range.\<close>

definition arkworks_expand_message_xmd :: "(bytes \<Rightarrow> bytes) \<Rightarrow> bytes \<Rightarrow> bytes \<Rightarrow> nat \<Rightarrow> bytes option" where
  "arkworks_expand_message_xmd sha msg dst len_in_bytes =
     (let ell = div_ceil len_in_bytes 32
      in if 256 \<le> length dst then None
         else
           let dst_prime = dst @ [of_nat (length dst)];
               b0 = sha (replicate len_in_bytes 0 @ msg
                     @ [of_nat (len_in_bytes mod 2 ^ 16 div 256), of_nat (len_in_bytes mod 2 ^ 16)]
                     @ [0] @ dst_prime);
               blocks = xmd_blocks sha dst_prime b0 b0 1 ell
           in get_slice 0 len_in_bytes (concat blocks))"

definition hash_to_fr :: "('fr, 'fq, 'g1, 'g2) bls \<Rightarrow> bytes \<Rightarrow> bytes \<Rightarrow> 'fr option" where
  "hash_to_fr B data dst = map_option (fr_from_be B) (arkworks_expand_message_xmd (sha256 B) data dst 48)"

definition transcript_of :: "('fr, 'fq::zero, 'g1::zero, 'g2::zero) bls \<Rightarrow> ('fr, 'g1, 'g2) hints_vk \<Rightarrow>
    ('fr, 'g1, 'g2) hints_sig \<Rightarrow> bytes" where
  "transcript_of B vk sig =
     compress_g2 B (vk_sk_of_tau_com vk)
     @ compress_g2 B (vk_h1 vk)
     @ compress_g1 B (sg_agg_pk sig)
     @ fr_bytes_le B (sg_agg_weight sig)
     @ compress_g1 B (vk_w_of_tau_com vk)
     @ compress_g1 B (sg_b_of_tau_com sig)
     @ compress_g1 B (sg_parsum_of_tau_com sig)
     @ compress_g1 B (sg_qx_of_tau_com sig)
     @ compress_g1 B (sg_qz_of_tau_com sig)
     @ compress_g1 B (sg_qx_of_tau_mul_tau_com sig)
     @ compress_g1 B (sg_q1_of_tau_com sig)
     @ compress_g1 B (sg_q2_of_tau_com sig)
     @ compress_g1 B (sg_q3_of_tau_com sig)
     @ compress_g1 B (sg_q4_of_tau_com sig)"

definition fiat_shamir_challenge :: "('fr, 'fq::zero, 'g1::zero, 'g2::zero) bls \<Rightarrow> ('fr, 'g1, 'g2) hints_vk \<Rightarrow>
    ('fr, 'g1, 'g2) hints_sig \<Rightarrow> 'fr option" where
  "fiat_shamir_challenge B vk sig = hash_to_fr B (transcript_of B vk sig) FIAT_SHAMIR_DST"

section \<open>The steps of the verification\<close>

definition fr_to_u128 :: "('fr, 'fq, 'g1, 'g2) bls \<Rightarrow> 'fr \<Rightarrow> u128 result" where
  "fr_to_u128 B v =
     (case fr_limbs B v of (limb0, limb1, limb2, limb3) \<Rightarrow>
        if limb2 \<noteq> 0 \<or> limb3 \<noteq> 0 then Inl (Proof ''weight exceeds 128 bits'')
        else Inr ((ucast limb0 :: u128) OR push_bit 64 (ucast limb1 :: u128)))"

definition build_mul_u128 :: "bool \<Rightarrow> u128 \<Rightarrow> u128 \<Rightarrow> u128 option" where
  "build_mul_u128 checks a b = (if checks \<and> 2 ^ 128 \<le> unat a * unat b then None else Some (a * b))"

text \<open>Step 0, in the order of evaluation: the left product before the right weight is read.\<close>

definition threshold_step :: "bool \<Rightarrow> ('fr, 'fq, 'g1, 'g2) bls \<Rightarrow> 'fr \<Rightarrow> 'fr \<Rightarrow> (error + bool) option" where
  "threshold_step checks B agg_weight total_weight =
     and_then_panic (Some (fr_to_u128 B agg_weight)) (\<lambda>agg.
     and_then_panic (map_option Inr (build_mul_u128 checks THRESHOLD_DENOMINATOR agg)) (\<lambda>lhs.
     and_then_panic (Some (fr_to_u128 B total_weight)) (\<lambda>total.
     and_then_panic (map_option Inr (build_mul_u128 checks THRESHOLD_NUMERATOR total)) (\<lambda>rhs.
       Some (Inr (lhs > rhs))))))"

definition pairing_product_is_one :: "('fr, 'fq, 'g1, 'g2) bls \<Rightarrow> 'g1 list \<Rightarrow> 'g2 list \<Rightarrow> bool" where
  "pairing_product_is_one B g1s g2s = pairing_is_one B g1s g2s"

definition bls_step :: "('fr, 'fq, 'g1::ab_group_add, 'g2) bls \<Rightarrow> ('fr, 'g1, 'g2) hints_vk \<Rightarrow> ('fr, 'g1, 'g2) hints_sig \<Rightarrow>
    'g2 \<Rightarrow> bool" where
  "bls_step B vk sig h_msg = pairing_product_is_one B [sg_agg_pk sig, - vk_g0 vk] [h_msg, sg_agg_sig sig]"

text \<open>Step 3: the seven openings in the order of the code, and their sum with powers of the challenge.\<close>

definition mk_arg :: "('fr, 'fq, 'g1::ab_group_add, 'g2) bls \<Rightarrow> 'g1 \<Rightarrow> 'g1 \<Rightarrow> 'fr \<Rightarrow> 'g1" where
  "mk_arg B g0 com eval_at_r = com - g1_mul B g0 eval_at_r"

definition opening_args :: "('fr, 'fq, 'g1::ab_group_add, 'g2) bls \<Rightarrow> ('fr, 'g1, 'g2) hints_vk \<Rightarrow> ('fr, 'g1, 'g2) hints_sig \<Rightarrow>
    'g1 list" where
  "opening_args B vk sig =
     (let w_adjusted = vk_w_of_tau_com vk - g1_mul B (vk_ln_minus_1_of_tau_com vk) (sg_agg_weight sig);
          g0 = vk_g0 vk
      in [mk_arg B g0 (sg_parsum_of_tau_com sig) (sg_parsum_of_r sig),
          mk_arg B g0 w_adjusted (sg_w_of_r sig),
          mk_arg B g0 (sg_b_of_tau_com sig) (sg_b_of_r sig),
          mk_arg B g0 (sg_q1_of_tau_com sig) (sg_q1_of_r sig),
          mk_arg B g0 (sg_q3_of_tau_com sig) (sg_q3_of_r sig),
          mk_arg B g0 (sg_q2_of_tau_com sig) (sg_q2_of_r sig),
          mk_arg B g0 (sg_q4_of_tau_com sig) (sg_q4_of_r sig)])"

fun merge_loop :: "('fr::field, 'fq, 'g1::ab_group_add, 'g2) bls \<Rightarrow> 'fr \<Rightarrow> 'g1 \<Rightarrow> 'fr \<Rightarrow> 'g1 list \<Rightarrow> 'g1" where
  "merge_loop B r merged r_pow [] = merged"
| "merge_loop B r merged r_pow (arg # args) = merge_loop B r (merged + g1_mul B arg r_pow) (r_pow * r) args"

definition merged_kzg_step :: "('fr::field, 'fq, 'g1::ab_group_add, 'g2::ab_group_add) bls \<Rightarrow> ('fr, 'g1, 'g2) hints_vk \<Rightarrow>
    ('fr, 'g1, 'g2) hints_sig \<Rightarrow> 'fr \<Rightarrow> bool" where
  "merged_kzg_step B vk sig r =
     (let args = opening_args B vk sig;
          merged = merge_loop B r (hd args) r (tl args);
          kzg_rhs_g2 = vk_h1 vk - g2_mul B (vk_h0 vk) r
      in pairing_product_is_one B [merged, - sg_opening_proof_r sig] [vk_h0 vk, kzg_rhs_g2])"

text \<open>Step 4: the opening of the partial sums at the challenge over \<open>omega\<close>.\<close>

definition parsum_kzg_step :: "('fr::field, 'fq, 'g1::ab_group_add, 'g2::ab_group_add) bls \<Rightarrow> ('fr, 'g1, 'g2) hints_vk \<Rightarrow>
    ('fr, 'g1, 'g2) hints_sig \<Rightarrow> 'fr \<Rightarrow> bool" where
  "parsum_kzg_step B vk sig r_div_omega =
     (let parsum_arg = sg_parsum_of_tau_com sig - g1_mul B (vk_g0 vk) (sg_parsum_of_r_div_omega sig);
          parsum_rhs_g2 = vk_h1 vk - g2_mul B (vk_h0 vk) r_div_omega
      in pairing_product_is_one B [parsum_arg, - sg_opening_proof_r_div_omega sig] [vk_h0 vk, parsum_rhs_g2])"

definition b_sk_step :: "('fr, 'fq, 'g1::ab_group_add, 'g2) bls \<Rightarrow> ('fr, 'g1, 'g2) hints_vk \<Rightarrow> ('fr, 'g1, 'g2) hints_sig \<Rightarrow>
    bool" where
  "b_sk_step B vk sig = pairing_product_is_one B
     [sg_b_of_tau_com sig, - sg_qz_of_tau_com sig, - sg_qx_of_tau_com sig, - sg_agg_pk sig]
     [vk_sk_of_tau_com vk, vk_z_of_tau_com vk, vk_h1 vk, vk_h0 vk]"

definition degree_step :: "('fr, 'fq, 'g1::ab_group_add, 'g2) bls \<Rightarrow> ('fr, 'g1, 'g2) hints_vk \<Rightarrow> ('fr, 'g1, 'g2) hints_sig \<Rightarrow>
    bool" where
  "degree_step B vk sig = pairing_product_is_one B
     [sg_qx_of_tau_com sig, - sg_qx_of_tau_mul_tau_com sig] [vk_h1 vk, vk_h0 vk]"

text \<open>Step 6: a division by zero panics, \<open>inverse\<close> answers \<open>None\<close>.\<close>

definition fr_div :: "'fr::field \<Rightarrow> 'fr \<Rightarrow> 'fr option" where
  "fr_div a b = (if b = 0 then None else Some (a / b))"

definition fr_inverse :: "'fr::field \<Rightarrow> 'fr option" where
  "fr_inverse a = (if a = 0 then None else Some (1 / a))"

text \<open>The message starts with the two bytes of a small omega.\<close>

definition omega_is_zero :: string where
  "omega_is_zero = map char_of [0xcf :: nat, 0x89] @ '' is zero''"

definition ln_minus_1_at :: "bool \<Rightarrow> ('fr::field, 'fq, 'g1, 'g2) bls \<Rightarrow> u64 \<Rightarrow> 'fr \<Rightarrow> 'fr \<Rightarrow> 'fr option" where
  "ln_minus_1_at checks B n omega r =
     Option.bind (build_sub checks n 1) (\<lambda>n_minus_1.
       let n_fr = fr_from_u64 B n;
           vanishing_of_r = r ^ unat n - 1;
           omega_pow_n_minus_1 = omega ^ unat n_minus_1
       in Option.bind (fr_div omega_pow_n_minus_1 n_fr) (\<lambda>a.
          Option.bind (fr_div vanishing_of_r (r - omega_pow_n_minus_1)) (\<lambda>b. Some (a * b))))"

section \<open>The whole verification\<close>

definition verify_hints :: "bool \<Rightarrow> ('fr::field, 'fq::zero, 'g1::ab_group_add, 'g2::ab_group_add) bls \<Rightarrow> proof_layout \<Rightarrow> bytes \<Rightarrow>
    (error + hints_checks) option" where
  "verify_hints checks B lay block_root_bytes =
     and_then_panic (Some (deserialize_vk B (hints_verification_key lay))) (\<lambda>vk.
     and_then_panic (Some (deserialize_signature B (hints_signature lay))) (\<lambda>sig.
     and_then_panic (threshold_step checks B (sg_agg_weight sig) (vk_total_weight vk)) (\<lambda>threshold.
     and_then_panic (Some (map_err (\<lambda>e. Proof (''hash-to-curve init: '' @ e)) (g2_hasher B HASH_TO_G2_DST))) (\<lambda>hasher.
     and_then_panic (Some (map_err (\<lambda>e. Proof (''hash-to-curve: '' @ e)) (hasher block_root_bytes))) (\<lambda>h_msg.
     and_then_panic (map_option Inr (fiat_shamir_challenge B vk sig)) (\<lambda>r.
     and_then_panic (Some (ok_or (Proof (''no root of unity of order '' @ show_u64 (vk_n vk)))
         (fr_root_of_unity B (vk_n vk)))) (\<lambda>omega.
     and_then_panic (Some (and_then (ok_or (Proof omega_is_zero) (fr_inverse omega)) (\<lambda>i. Inr (r * i)))) (\<lambda>r_div_omega.
     and_then_panic (map_option Inr (ln_minus_1_at checks B (vk_n vk) omega r)) (\<lambda>ln_minus_1_of_r.
       let vanishing_of_r = r ^ unat (vk_n vk) - 1
       in Some (Inr \<lparr>
            threshold_met = threshold,
            bls_signature_valid = bls_step B vk sig h_msg,
            merged_kzg_valid = merged_kzg_step B vk sig r,
            parsum_kzg_valid = parsum_kzg_step B vk sig r_div_omega,
            b_sk_identity_valid = b_sk_step B vk sig,
            parsum_accumulation_valid =
              (sg_parsum_of_r sig - sg_parsum_of_r_div_omega sig - sg_w_of_r sig * sg_b_of_r sig
                 = sg_q1_of_r sig * vanishing_of_r),
            parsum_constraint_valid = (ln_minus_1_of_r * sg_parsum_of_r sig = vanishing_of_r * sg_q3_of_r sig),
            bitmap_well_formedness_valid =
              (sg_b_of_r sig * sg_b_of_r sig - sg_b_of_r sig = sg_q2_of_r sig * vanishing_of_r),
            bitmap_constraint_valid = (ln_minus_1_of_r * (sg_b_of_r sig - 1) = vanishing_of_r * sg_q4_of_r sig),
            degree_check_valid = degree_step B vk sig\<rparr>))))))))))"

section \<open>The threshold\<close>

text \<open>The value of a weight that fits 128 bits.\<close>

definition weight_value :: "('fr, 'fq, 'g1, 'g2) bls \<Rightarrow> 'fr \<Rightarrow> nat option" where
  "weight_value B v =
     (case fr_limbs B v of (limb0, limb1, limb2, limb3) \<Rightarrow>
        if limb2 = 0 \<and> limb3 = 0 then Some (unat limb0 + 2 ^ 64 * unat limb1) else None)"

lemma unat_limbs:
  fixes a b :: u64
  shows "unat ((ucast a :: u128) OR push_bit 64 (ucast b :: u128)) = unat a + 2 ^ 64 * unat b"
proof -
  have "(ucast a :: u128) OR push_bit 64 (ucast b) = ucast a + push_bit 64 (ucast b)"
    by (rule disjunctive_add_eq_or [symmetric]) (rule bit_eqI, auto simp: bit_simps dest: bit_imp_le_length)
  moreover have "push_bit 64 (ucast b :: u128) = ucast b * 2 ^ 64" by (simp add: push_bit_eq_mult)
  moreover have "unat (ucast b * 2 ^ 64 :: u128) = unat b * 2 ^ 64"
    using unsigned_less [of b, where ?'a = nat] by (simp add: unat_word_ariths unsigned_ucast_eq take_bit_nat_eq_self)
  moreover have "unat (ucast a :: u128) = unat a"
    using unsigned_less [of a, where ?'a = nat] by (simp add: unsigned_ucast_eq take_bit_nat_eq_self)
  ultimately show ?thesis
    using unsigned_less [of a, where ?'a = nat] unsigned_less [of b, where ?'a = nat]
    by (simp add: unat_word_ariths)
qed

lemma weight_value_Some: "weight_value B v = Some w \<Longrightarrow> \<exists>u. fr_to_u128 B v = Inr u \<and> w = unat u"
  by (auto simp: fr_to_u128_def weight_value_def unat_limbs split: prod.splits if_splits)

lemma fr_to_u128_Inr: "fr_to_u128 B v = Inr u \<Longrightarrow> weight_value B v = Some (unat u)"
  by (auto simp: fr_to_u128_def weight_value_def unat_limbs split: prod.splits if_splits)

lemma threshold_step_weights:
  assumes "weight_value B agg_weight = Some w" "weight_value B total_weight = Some t"
  shows "threshold_step checks B agg_weight total_weight =
    (if 3 * w < 2 ^ 128 then Some (Inr (t < 3 * w))
     else if checks then None
     else Some (Inr (t < 3 * w mod 2 ^ 128)))"
proof -
  obtain u v where u: "fr_to_u128 B agg_weight = Inr u" "w = unat u" and v: "fr_to_u128 B total_weight = Inr v" "t = unat v"
    using weight_value_Some [OF assms(1)] weight_value_Some [OF assms(2)] by blast
  have one: "build_mul_u128 checks THRESHOLD_NUMERATOR v = Some v"
    using unsigned_less [of v, where ?'a = nat] by (simp add: build_mul_u128_def THRESHOLD_NUMERATOR_def)
  have den: "unat THRESHOLD_DENOMINATOR = 3" by (simp add: THRESHOLD_DENOMINATOR_def)
  define p where "p = THRESHOLD_DENOMINATOR * u"
  have three: "unat p = 3 * w mod 2 ^ 128"
    unfolding p_def using den by (simp add: unat_word_ariths u(2))
  have mul: "build_mul_u128 checks THRESHOLD_DENOMINATOR u = (if checks \<and> 2 ^ 128 \<le> 3 * w then None else Some p)"
    unfolding build_mul_u128_def den u(2) p_def by (rule refl)
  have "threshold_step checks B agg_weight total_weight =
      (if checks \<and> 2 ^ 128 \<le> 3 * w then None else Some (Inr (v < p)))"
    unfolding threshold_step_def u(1) v(1) and_then_panic_simps one option.map mul
    by (simp only: if_distrib [of "map_option Inr"] option.map if_distrib [of "\<lambda>z. and_then_panic z _"]
        and_then_panic_simps)
  moreover have "v < p \<longleftrightarrow> t < 3 * w mod 2 ^ 128" unfolding v(2) three [symmetric] by (rule word_less_nat_alt)
  moreover have "2 ^ 128 \<le> 3 * w \<longleftrightarrow> \<not> 3 * w < 2 ^ 128" by (rule not_less [symmetric])
  ultimately show ?thesis by (cases "3 * w < 2 ^ 128"; cases checks) (simp_all only: mod_less if_True if_False simp_thms)
qed

text \<open>The threshold, on the canonical integers: the aggregate weight must exceed one third of
  the total. Three times a weight of \<open>2 ^ 128 / 3\<close> or more is out of range although the weight
  itself is accepted: with overflow checks the verification panics, without them the product wraps
  and the comparison is of its remainder.\<close>

theorem threshold_step_exact:
  assumes "weight_value B agg_weight = Some w" "weight_value B total_weight = Some t"
  shows "threshold_step checks B agg_weight total_weight =
    (if 3 * w < 2 ^ 128 then Some (Inr (t < 3 * w))
     else if checks then None
     else Some (Inr (t < 3 * w mod 2 ^ 128)))"
  using assms by (rule threshold_step_weights)

lemma threshold_step_met:
  assumes "threshold_step True B agg_weight total_weight = Some (Inr thr)"
  shows "\<exists>w t. weight_value B agg_weight = Some w \<and> weight_value B total_weight = Some t \<and> (thr \<longleftrightarrow> t < 3 * w)"
proof -
  from assms obtain u v where u: "fr_to_u128 B agg_weight = Inr u" and v: "fr_to_u128 B total_weight = Inr v"
    by (auto simp: threshold_step_def and_then_panic_eq_Inr_iff)
  from assms threshold_step_weights [OF fr_to_u128_Inr [OF u] fr_to_u128_Inr [OF v], of True]
  have "thr \<longleftrightarrow> unat v < 3 * unat u" by (simp only: if_True split: if_splits) simp_all
  with fr_to_u128_Inr [OF u] fr_to_u128_Inr [OF v] show ?thesis by blast
qed

section \<open>The pairings in exponents\<close>

definition pairing_laws :: "('fr::field, 'fq, 'g1::ab_group_add, 'g2::ab_group_add) bls \<Rightarrow> ('g1 \<Rightarrow> 'fr) \<Rightarrow> ('g2 \<Rightarrow> 'fr) \<Rightarrow> bool" where
  "pairing_laws B lg1 lg2 \<longleftrightarrow> pairing_group (g1_mul B) (g2_mul B) (pairing_is_one B) lg1 lg2"

lemmas pairing_laws_simps = pairing_group_simps [OF pairing_laws_def [THEN iffD1]]

lemma lg_merge_loop:
  "pairing_laws B lg1 lg2 \<Longrightarrow> lg1 (merge_loop B r m p args) = lg1 m + p * horner_sum lg1 r args"
  by (induction B r m p args rule: merge_loop.induct) (simp_all add: pairing_laws_simps algebra_simps)

lemma length_opening_args [simp]: "length (opening_args B vk sig) = 7"
  by (simp add: opening_args_def Let_def)

lemma steps_iff:
  assumes L: "pairing_laws B lg1 lg2"
  shows "bls_step B vk sig h \<longleftrightarrow> lg1 (sg_agg_pk sig) * lg2 h = lg1 (vk_g0 vk) * lg2 (sg_agg_sig sig)"
    and "merged_kzg_step B vk sig r \<longleftrightarrow>
      horner_sum lg1 r (opening_args B vk sig) * lg2 (vk_h0 vk) =
        lg1 (sg_opening_proof_r sig) * (lg2 (vk_h1 vk) - r * lg2 (vk_h0 vk))"
    and "parsum_kzg_step B vk sig s \<longleftrightarrow>
      (lg1 (sg_parsum_of_tau_com sig) - sg_parsum_of_r_div_omega sig * lg1 (vk_g0 vk)) * lg2 (vk_h0 vk) =
        lg1 (sg_opening_proof_r_div_omega sig) * (lg2 (vk_h1 vk) - s * lg2 (vk_h0 vk))"
    and "b_sk_step B vk sig \<longleftrightarrow>
      lg1 (sg_b_of_tau_com sig) * lg2 (vk_sk_of_tau_com vk) =
        lg1 (sg_qz_of_tau_com sig) * lg2 (vk_z_of_tau_com vk) + lg1 (sg_qx_of_tau_com sig) * lg2 (vk_h1 vk)
        + lg1 (sg_agg_pk sig) * lg2 (vk_h0 vk)"
    and "degree_step B vk sig \<longleftrightarrow>
      lg1 (sg_qx_of_tau_com sig) * lg2 (vk_h1 vk) = lg1 (sg_qx_of_tau_mul_tau_com sig) * lg2 (vk_h0 vk)"
proof -
  note pl = pairing_laws_simps [OF L] and lgm = lg_merge_loop [OF L]
  obtain a as where as: "opening_args B vk sig = a # as" by (simp add: opening_args_def Let_def)
  have neg: "x + - y * z = 0 \<longleftrightarrow> x = y * z" for x y z :: 'a by (simp add: add_eq_0_iff2)
  show "bls_step B vk sig h \<longleftrightarrow> lg1 (sg_agg_pk sig) * lg2 h = lg1 (vk_g0 vk) * lg2 (sg_agg_sig sig)"
    by (simp add: bls_step_def pairing_product_is_one_def pl)
  show "merged_kzg_step B vk sig r \<longleftrightarrow>
      horner_sum lg1 r (opening_args B vk sig) * lg2 (vk_h0 vk) =
        lg1 (sg_opening_proof_r sig) * (lg2 (vk_h1 vk) - r * lg2 (vk_h0 vk))"
    by (simp add: merged_kzg_step_def pairing_product_is_one_def pl lgm as Let_def)
  show "parsum_kzg_step B vk sig s \<longleftrightarrow>
      (lg1 (sg_parsum_of_tau_com sig) - sg_parsum_of_r_div_omega sig * lg1 (vk_g0 vk)) * lg2 (vk_h0 vk) =
        lg1 (sg_opening_proof_r_div_omega sig) * (lg2 (vk_h1 vk) - s * lg2 (vk_h0 vk))"
    by (simp add: parsum_kzg_step_def pairing_product_is_one_def pl Let_def)
  show "b_sk_step B vk sig \<longleftrightarrow>
      lg1 (sg_b_of_tau_com sig) * lg2 (vk_sk_of_tau_com vk) =
        lg1 (sg_qz_of_tau_com sig) * lg2 (vk_z_of_tau_com vk) + lg1 (sg_qx_of_tau_com sig) * lg2 (vk_h1 vk)
        + lg1 (sg_agg_pk sig) * lg2 (vk_h0 vk)"
    by (simp add: b_sk_step_def pairing_product_is_one_def pl) (simp add: algebra_simps)
  show "degree_step B vk sig \<longleftrightarrow>
      lg1 (sg_qx_of_tau_com sig) * lg2 (vk_h1 vk) = lg1 (sg_qx_of_tau_mul_tau_com sig) * lg2 (vk_h0 vk)"
    by (simp add: degree_step_def pairing_product_is_one_def pl)
qed

section \<open>What an accepted signature satisfies\<close>

text \<open>The answers of \<open>verify_hints\<close>, with everything they are computed from.\<close>

lemma verify_hints_Inr:
  "verify_hints checks B lay root_bytes = Some (Inr c) \<Longrightarrow>
    (\<exists>vk sig thr hasher h r omega ln.
       deserialize_vk B (hints_verification_key lay) = Inr vk \<and>
       deserialize_signature B (hints_signature lay) = Inr sig \<and>
       threshold_step checks B (sg_agg_weight sig) (vk_total_weight vk) = Some (Inr thr) \<and>
       g2_hasher B HASH_TO_G2_DST = Inr hasher \<and> hasher root_bytes = Inr h \<and>
       fiat_shamir_challenge B vk sig = Some r \<and>
       fr_root_of_unity B (vk_n vk) = Some omega \<and> omega \<noteq> 0 \<and>
       ln_minus_1_at checks B (vk_n vk) omega r = Some ln \<and>
       c = \<lparr>threshold_met = thr,
            bls_signature_valid = bls_step B vk sig h,
            merged_kzg_valid = merged_kzg_step B vk sig r,
            parsum_kzg_valid = parsum_kzg_step B vk sig (r / omega),
            b_sk_identity_valid = b_sk_step B vk sig,
            parsum_accumulation_valid =
              (sg_parsum_of_r sig - sg_parsum_of_r_div_omega sig - sg_w_of_r sig * sg_b_of_r sig
                 = sg_q1_of_r sig * (r ^ unat (vk_n vk) - 1)),
            parsum_constraint_valid = (ln * sg_parsum_of_r sig = (r ^ unat (vk_n vk) - 1) * sg_q3_of_r sig),
            bitmap_well_formedness_valid =
              (sg_b_of_r sig * sg_b_of_r sig - sg_b_of_r sig = sg_q2_of_r sig * (r ^ unat (vk_n vk) - 1)),
            bitmap_constraint_valid = (ln * (sg_b_of_r sig - 1) = (r ^ unat (vk_n vk) - 1) * sg_q4_of_r sig),
            degree_check_valid = degree_step B vk sig\<rparr>)"
  by (auto simp: verify_hints_def and_then_panic_eq_Inr_iff and_then_eq_Inr_iff map_err_eq_Inr_iff ok_or_eq_Inr_iff
      fr_inverse_def Let_def split: if_splits)

text \<open>C4. A signature that passes every check, by a build with overflow checks: its weight exceeds a
  third of the total, the aggregate key signs the block root, the batched opening and the opening
  of the partial sums fit the setup, the aggregate key is the selection of the committed keys, the degree bound
  holds, and the four identities hold at the challenge of the transcript; and a signature for which these hold
  passes every check.\<close>

theorem verify_hints_accepts_iff:
  assumes "pairing_laws B lg1 lg2" "verify_hints True B lay root_bytes = Some (Inr c)"
  shows "\<exists>vk sig hasher h r omega ln.
    deserialize_vk B (hints_verification_key lay) = Inr vk \<and>
    deserialize_signature B (hints_signature lay) = Inr sig \<and>
    g2_hasher B HASH_TO_G2_DST = Inr hasher \<and> hasher root_bytes = Inr h \<and>
    fiat_shamir_challenge B vk sig = Some r \<and> fr_root_of_unity B (vk_n vk) = Some omega \<and>
    ln_minus_1_at True B (vk_n vk) omega r = Some ln \<and>
    (all_passed c \<longleftrightarrow>
       (\<exists>w t. weight_value B (sg_agg_weight sig) = Some w \<and> weight_value B (vk_total_weight vk) = Some t \<and> t < 3 * w) \<and>
       lg1 (sg_agg_pk sig) * lg2 h = lg1 (vk_g0 vk) * lg2 (sg_agg_sig sig) \<and>
       horner_sum lg1 r (opening_args B vk sig) * lg2 (vk_h0 vk) =
         lg1 (sg_opening_proof_r sig) * (lg2 (vk_h1 vk) - r * lg2 (vk_h0 vk)) \<and>
       (lg1 (sg_parsum_of_tau_com sig) - sg_parsum_of_r_div_omega sig * lg1 (vk_g0 vk)) * lg2 (vk_h0 vk) =
         lg1 (sg_opening_proof_r_div_omega sig) * (lg2 (vk_h1 vk) - r / omega * lg2 (vk_h0 vk)) \<and>
       lg1 (sg_b_of_tau_com sig) * lg2 (vk_sk_of_tau_com vk) =
         lg1 (sg_qz_of_tau_com sig) * lg2 (vk_z_of_tau_com vk) + lg1 (sg_qx_of_tau_com sig) * lg2 (vk_h1 vk)
         + lg1 (sg_agg_pk sig) * lg2 (vk_h0 vk) \<and>
       lg1 (sg_qx_of_tau_com sig) * lg2 (vk_h1 vk) = lg1 (sg_qx_of_tau_mul_tau_com sig) * lg2 (vk_h0 vk) \<and>
       sg_parsum_of_r sig - sg_parsum_of_r_div_omega sig - sg_w_of_r sig * sg_b_of_r sig
         = sg_q1_of_r sig * (r ^ unat (vk_n vk) - 1) \<and>
       ln * sg_parsum_of_r sig = (r ^ unat (vk_n vk) - 1) * sg_q3_of_r sig \<and>
       sg_b_of_r sig * sg_b_of_r sig - sg_b_of_r sig = sg_q2_of_r sig * (r ^ unat (vk_n vk) - 1) \<and>
       ln * (sg_b_of_r sig - 1) = (r ^ unat (vk_n vk) - 1) * sg_q4_of_r sig)"
proof -
  obtain vk sig thr hasher h r omega ln where
    d: "deserialize_vk B (hints_verification_key lay) = Inr vk" "deserialize_signature B (hints_signature lay) = Inr sig"
       "g2_hasher B HASH_TO_G2_DST = Inr hasher" "hasher root_bytes = Inr h"
       "fiat_shamir_challenge B vk sig = Some r" "fr_root_of_unity B (vk_n vk) = Some omega"
       "ln_minus_1_at True B (vk_n vk) omega r = Some ln"
    and thr: "threshold_step True B (sg_agg_weight sig) (vk_total_weight vk) = Some (Inr thr)"
    and c: "c = \<lparr>threshold_met = thr, bls_signature_valid = bls_step B vk sig h,
            merged_kzg_valid = merged_kzg_step B vk sig r, parsum_kzg_valid = parsum_kzg_step B vk sig (r / omega),
            b_sk_identity_valid = b_sk_step B vk sig,
            parsum_accumulation_valid =
              (sg_parsum_of_r sig - sg_parsum_of_r_div_omega sig - sg_w_of_r sig * sg_b_of_r sig
                 = sg_q1_of_r sig * (r ^ unat (vk_n vk) - 1)),
            parsum_constraint_valid = (ln * sg_parsum_of_r sig = (r ^ unat (vk_n vk) - 1) * sg_q3_of_r sig),
            bitmap_well_formedness_valid =
              (sg_b_of_r sig * sg_b_of_r sig - sg_b_of_r sig = sg_q2_of_r sig * (r ^ unat (vk_n vk) - 1)),
            bitmap_constraint_valid = (ln * (sg_b_of_r sig - 1) = (r ^ unat (vk_n vk) - 1) * sg_q4_of_r sig),
            degree_check_valid = degree_step B vk sig\<rparr>"
    using verify_hints_Inr [OF assms(2)] by blast
  have "thr \<longleftrightarrow> (\<exists>w t. weight_value B (sg_agg_weight sig) = Some w \<and> weight_value B (vk_total_weight vk) = Some t \<and> t < 3 * w)"
    using threshold_step_met [OF thr] by auto
  with d show ?thesis
    unfolding c all_passed_def hints_checks.simps steps_iff [OF assms(1)] by blast
qed

section \<open>The batched opening\<close>

lemma horner_sum_diff:
  fixes f g :: "'a \<Rightarrow> 'fr::field"
  shows "length xs = length ys \<Longrightarrow>
    horner_sum f r xs - k * horner_sum g r ys = horner_sum (\<lambda>(x, y). f x - k * g y) r (zip xs ys)"
  by (induction rule: list_induct2) (simp_all add: algebra_simps)

text \<open>With a setup at \<open>tau\<close> and an opening proof batched from seven quotients with the same powers of
  the challenge, the merged check passes exactly when the challenge is a root of the polynomial whose
  coefficients are the errors of the seven single openings. So it passes when each opening is
  valid, and a wrong opening passes for at most six challenges.\<close>

theorem merged_kzg_batches:
  assumes "pairing_laws B lg1 lg2" "lg2 (vk_h1 vk) = tau * lg2 (vk_h0 vk)" "lg2 (vk_h0 vk) \<noteq> 0"
    and "length quotients = 7" "sg_opening_proof_r sig = merge_loop B r (hd quotients) r (tl quotients)"
  shows "merged_kzg_step B vk sig r \<longleftrightarrow>
    horner_sum (\<lambda>(arg, q). lg1 arg - (tau - r) * lg1 q) r (zip (opening_args B vk sig) quotients) = 0"
proof -
  obtain q qs where q: "quotients = q # qs" using assms(4) by (cases quotients) simp_all
  then have open_r: "lg1 (sg_opening_proof_r sig) = horner_sum lg1 r quotients"
    using assms(5) lg_merge_loop [OF assms(1)] by simp
  have "merged_kzg_step B vk sig r \<longleftrightarrow>
      horner_sum lg1 r (opening_args B vk sig) * lg2 (vk_h0 vk) =
        (tau - r) * horner_sum lg1 r quotients * lg2 (vk_h0 vk)"
    unfolding steps_iff(2) [OF assms(1)] assms(2) open_r by (simp add: algebra_simps)
  also have "\<dots> \<longleftrightarrow> horner_sum lg1 r (opening_args B vk sig) - (tau - r) * horner_sum lg1 r quotients = 0"
    using assms(3) by simp
  also have "\<dots> \<longleftrightarrow> horner_sum (\<lambda>(arg, q). lg1 arg - (tau - r) * lg1 q) r (zip (opening_args B vk sig) quotients) = 0"
    by (simp add: horner_sum_diff assms(4))
  finally show ?thesis .
qed

section \<open>Panics\<close>

lemma xmd_blocks_length:
  "(\<And>b. length (sha b) = 32) \<Longrightarrow> length (concat (xmd_blocks sha d b0 prev i n)) = 32 * n"
  by (induction n arbitrary: prev i) (simp_all add: Let_def)

lemma expand_message_length:
  assumes "\<And>b. length (sha b) = 32" "length dst < 256"
  shows "\<exists>out. arkworks_expand_message_xmd sha msg dst n = Some out \<and> length out = n"
proof -
  have "n \<le> 32 * div_ceil n 32" by (simp add: div_ceil_def)
  with assms show ?thesis
    by (simp add: arkworks_expand_message_xmd_def get_slice_def xmd_blocks_length slice_def Let_def)
qed

lemma fiat_shamir_total:
  assumes "\<And>b. length (sha256 B b) = 32"
  shows "fiat_shamir_challenge B vk sig \<noteq> None"
proof -
  have "length FIAT_SHAMIR_DST < 256" by (simp add: FIAT_SHAMIR_DST_def)
  then show ?thesis
    using expand_message_length [of "sha256 B" FIAT_SHAMIR_DST "transcript_of B vk sig" 48, OF assms]
    by (auto simp: fiat_shamir_challenge_def hash_to_fr_def)
qed

lemma threshold_step_None:
  assumes "threshold_step checks B a t = None"
  shows "checks \<and> (\<exists>w. weight_value B a = Some w \<and> 2 ^ 128 \<le> 3 * w)"
proof -
  have num: "build_mul_u128 c THRESHOLD_NUMERATOR v \<noteq> None" for c v
    using unsigned_less [of v, where ?'a = nat] by (simp add: build_mul_u128_def THRESHOLD_NUMERATOR_def)
  have den: "unat THRESHOLD_DENOMINATOR = 3" by (simp add: THRESHOLD_DENOMINATOR_def)
  obtain u where u: "fr_to_u128 B a = Inr u" "build_mul_u128 checks THRESHOLD_DENOMINATOR u = None"
    using assms num by (auto simp: threshold_step_def and_then_panic_eq_None_iff)
  then have "checks \<and> 2 ^ 128 \<le> 3 * unat u"
    unfolding build_mul_u128_def den by (metis option.distinct(1))
  with fr_to_u128_Inr [OF u(1)] show ?thesis by blast
qed

lemma ln_minus_1_at_None:
  "ln_minus_1_at checks B n omega r = None \<Longrightarrow>
     checks \<and> n = 0 \<or> fr_from_u64 B n = 0 \<or> r = omega ^ unat (n - 1)"
  by (auto simp: ln_minus_1_at_def build_sub_def fr_div_def Let_def bind_eq_None_conv split: if_splits)

text \<open>The only panics of the verification, for a hash of 32 bytes: the tripled weight out of range in
  a build with overflow checks, and the division of step 6, by the domain size or by the difference
  of the challenge and the last point of the domain. Everything else, on any bytes, is an answer or an error.\<close>

lemma verify_hints_panics:
  assumes "\<And>b. length (sha256 B b) = 32" "verify_hints checks B lay root_bytes = None"
  shows "\<exists>vk sig.
    deserialize_vk B (hints_verification_key lay) = Inr vk \<and> deserialize_signature B (hints_signature lay) = Inr sig \<and>
    ((checks \<and> (\<exists>w. weight_value B (sg_agg_weight sig) = Some w \<and> 2 ^ 128 \<le> 3 * w)) \<or>
     (\<exists>r omega. fiat_shamir_challenge B vk sig = Some r \<and> fr_root_of_unity B (vk_n vk) = Some omega \<and>
        (checks \<and> vk_n vk = 0 \<or> fr_from_u64 B (vk_n vk) = 0 \<or> r = omega ^ unat (vk_n vk - 1))))"
proof -
  note none = assms(2) [unfolded verify_hints_def]
  obtain vk where vk: "deserialize_vk B (hints_verification_key lay) = Inr vk"
    using none by (cases "deserialize_vk B (hints_verification_key lay)") simp_all
  obtain sig where sig: "deserialize_signature B (hints_signature lay) = Inr sig"
    using none vk by (cases "deserialize_signature B (hints_signature lay)") simp_all
  show ?thesis
  proof (cases "threshold_step checks B (sg_agg_weight sig) (vk_total_weight vk)")
    case None
    from threshold_step_None [OF this] vk sig show ?thesis by blast
  next
    case (Some t)
    with none vk sig obtain thr where thr: "t = Inr thr" by (cases t) simp_all
    obtain hasher where ha: "g2_hasher B HASH_TO_G2_DST = Inr hasher"
      using none vk sig Some thr by (cases "g2_hasher B HASH_TO_G2_DST") simp_all
    obtain h where h: "hasher root_bytes = Inr h"
      using none vk sig Some thr ha by (cases "hasher root_bytes") simp_all
    obtain r where r: "fiat_shamir_challenge B vk sig = Some r"
      using fiat_shamir_total [OF assms(1)] by fastforce
    obtain omega where om: "fr_root_of_unity B (vk_n vk) = Some omega"
      using none vk sig Some thr ha h r by (cases "fr_root_of_unity B (vk_n vk)") simp_all
    have "ln_minus_1_at checks B (vk_n vk) omega r = None"
      using none vk sig Some thr ha h r om
      by (cases "omega = 0"; cases "ln_minus_1_at checks B (vk_n vk) omega r") (simp_all add: fr_inverse_def Let_def)
    from ln_minus_1_at_None [OF this] vk sig r om show ?thesis by blast
  qed
qed

section \<open>A concrete instance\<close>

text \<open>
  \<open>demo_bls\<close>: scalars and points are the field of two elements, a pairing is a product. The key is all
  zero but for the domain size 1; in the signature the weight and the opened value of the bitmap
  are 1. The verification accepts it.
\<close>

definition demo_bls :: "(gf2, int, gf2, gf2) bls" where
  "demo_bls = \<lparr>
     fq_deserialize = (\<lambda>b. Inr (int (sum_list (map unat b)))), fq_bigint = nat, fq_modulus = 13,
     fq_bytes_be = (\<lambda>v. [of_int v]),
     fr_from_le = (\<lambda>b. if hd b = 0 then 0 else 1), fr_from_be = (\<lambda>b. 0), fr_bytes_le = (\<lambda>v. replicate 32 0),
     fr_limbs = (\<lambda>v. (if v = 0 then 0 else 1, 0, 0, 0)), fr_from_u64 = (\<lambda>n. if n = 0 then 0 else 1),
     fr_root_of_unity = (\<lambda>n. if n = 1 then Some 1 else None),
     g1_new = (\<lambda>x y. if even x then 0 else 1), g1_on_curve = (\<lambda>x y. True), g1_in_subgroup = (\<lambda>x y. True),
     g1_x = (\<lambda>p. 1), g1_y = (\<lambda>p. 1), g1_mul = (\<lambda>p s. s * p),
     g2_new = (\<lambda>x y. if even (fst x) then 0 else 1), g2_on_curve = (\<lambda>x y. True), g2_in_subgroup = (\<lambda>x y. True),
     g2_x = (\<lambda>p. (1, 1)), g2_y = (\<lambda>p. (1, 1)), g2_mul = (\<lambda>p s. s * p),
     g2_hasher = (\<lambda>dst. Inr (\<lambda>msg. Inr 1)),
     pairing_is_one = (\<lambda>ps qs. sum_list (map2 (*) ps qs) = 0),
     sha256 = (\<lambda>b. replicate 32 0)\<rparr>"

definition demo_layout :: proof_layout where
  "demo_layout = \<lparr>path = AggregateSchnorr,
     hints_verification_key = 1 # replicate 1095 0,
     hints_signature = replicate 96 0 @ 1 # replicate 1375 0 @ 1 # replicate 159 0,
     suffix_bytes = replicate 192 0\<rparr>"

lemma pairing_laws_demo: "pairing_laws demo_bls (\<lambda>p. p) (\<lambda>q. q)"
  by (simp add: pairing_laws_def pairing_group_def demo_bls_def)

lemma slice_replicate: "b \<le> n \<Longrightarrow> slice a b (replicate n x) = replicate (b - a) x"
  by (simp add: slice_def min_def)

lemma slice_append_zeros: "slice a b (xs @ ys) = slice a b xs @ slice (a - length xs) (b - length xs) ys"
  by (cases "a \<le> length xs"; cases "b \<le> length xs") (simp_all add: slice_def)

lemma demo_points:
  "n = 96 \<Longrightarrow> read_g1_uncompressed demo_bls (replicate n 0) = Inr 0"
  "m = 192 \<Longrightarrow> read_g2_uncompressed demo_bls (replicate m 0) = Inr 0"
  by (simp_all add: read_g1_uncompressed_def read_g2_uncompressed_def fq_from_be_def slice_replicate demo_bls_def
      sum_list_replicate)

definition demo_vk :: "(gf2, gf2, gf2) hints_vk" where
  "demo_vk = \<lparr>vk_n = 1, vk_total_weight = 0, vk_g0 = 0, vk_h0 = 0, vk_h1 = 0, vk_ln_minus_1_of_tau_com = 0,
     vk_w_of_tau_com = 0, vk_sk_of_tau_com = 0, vk_z_of_tau_com = 0\<rparr>"

definition demo_sig :: "(gf2, gf2, gf2) hints_sig" where
  "demo_sig = \<lparr>sg_agg_pk = 0, sg_agg_weight = 1, sg_agg_sig = 0, sg_b_of_tau_com = 0, sg_qx_of_tau_com = 0,
     sg_qx_of_tau_mul_tau_com = 0, sg_qz_of_tau_com = 0, sg_parsum_of_tau_com = 0, sg_q1_of_tau_com = 0,
     sg_q3_of_tau_com = 0, sg_q2_of_tau_com = 0, sg_q4_of_tau_com = 0, sg_opening_proof_r = 0,
     sg_opening_proof_r_div_omega = 0, sg_parsum_of_r = 0, sg_parsum_of_r_div_omega = 0, sg_w_of_r = 0,
     sg_b_of_r = 1, sg_q1_of_r = 0, sg_q3_of_r = 0, sg_q2_of_r = 0, sg_q4_of_r = 0\<rparr>"

lemma demo_deserialize:
  "deserialize_vk demo_bls (hints_verification_key demo_layout) = Inr demo_vk"
  "deserialize_signature demo_bls (hints_signature demo_layout) = Inr demo_sig"
proof -
  have scalar: "read_fr_le demo_bls b = (if hd b = 0 then 0 else 1)" for b by (simp add: read_fr_le_def demo_bls_def)
  have eight: "be_nat (replicate 7 0 @ [1]) = 1" by (simp add: be_nat_def eval_nat_numeral)
  show "deserialize_vk demo_bls (hints_verification_key demo_layout) = Inr demo_vk"
    by (simp add: deserialize_vk_def demo_layout_def VK_LENGTH_def slice_def demo_points scalar eight demo_vk_def)
  show "deserialize_signature demo_bls (hints_signature demo_layout) = Inr demo_sig"
    by (simp add: deserialize_signature_def demo_layout_def SIG_LENGTH_def sig_g1_def sig_fr_def slice_def
        demo_points scalar demo_sig_def)
qed

lemma demo_challenge: "fiat_shamir_challenge demo_bls vk sig = Some 0"
  using fiat_shamir_total [of demo_bls vk sig] by (auto simp: fiat_shamir_challenge_def hash_to_fr_def demo_bls_def)

lemma gf2_simps: "(1 :: gf2) + 1 = 0" "- (x :: gf2) = x" "(x :: gf2) - y = x + y" "(x :: gf2) / 1 = x"
  by (simp_all add: zero_gf2_def one_gf2_def uminus_gf2_def minus_gf2_def divide_gf2_def)

lemma demo_accepted: "\<exists>c. verify_hints checks demo_bls demo_layout root_bytes = Some (Inr c) \<and> all_passed c"
proof -
  have thr: "threshold_step checks demo_bls (sg_agg_weight demo_sig) (vk_total_weight demo_vk) = Some (Inr True)"
    using threshold_step_weights [of demo_bls 1 1 0 0 checks]
    by (simp add: weight_value_def demo_sig_def demo_vk_def) (simp add: demo_bls_def)
  have ln: "ln_minus_1_at checks demo_bls (vk_n demo_vk) 1 0 = Some 1"
    by (simp add: ln_minus_1_at_def build_sub_def fr_div_def demo_vk_def gf2_simps Let_def) (simp add: demo_bls_def)
  have om: "g2_hasher demo_bls HASH_TO_G2_DST = Inr (\<lambda>msg. Inr 1)" "fr_root_of_unity demo_bls (vk_n demo_vk) = Some 1"
    by (simp_all add: demo_bls_def demo_vk_def)
  have steps: "bls_step demo_bls demo_vk demo_sig 1" "merged_kzg_step demo_bls demo_vk demo_sig 0"
    "parsum_kzg_step demo_bls demo_vk demo_sig 0" "b_sk_step demo_bls demo_vk demo_sig" "degree_step demo_bls demo_vk demo_sig"
    unfolding steps_iff [OF pairing_laws_demo] by (simp_all add: demo_vk_def demo_sig_def)
  show ?thesis
    using steps
    by (simp add: verify_hints_def demo_deserialize thr om demo_challenge fr_inverse_def ln Let_def all_passed_def)
      (simp add: demo_vk_def demo_sig_def gf2_simps)
qed

lemma verify_hints_accepts_iff_witness:
  "\<exists>c vk sig. verify_hints True demo_bls demo_layout [5] = Some (Inr c) \<and> all_passed c \<and>
     deserialize_vk demo_bls (hints_verification_key demo_layout) = Inr vk \<and>
     deserialize_signature demo_bls (hints_signature demo_layout) = Inr sig \<and>
     (\<exists>w t. weight_value demo_bls (sg_agg_weight sig) = Some w \<and> weight_value demo_bls (vk_total_weight vk) = Some t \<and> t < 3 * w)"
proof -
  obtain c where c: "verify_hints True demo_bls demo_layout [5] = Some (Inr c)" "all_passed c"
    using demo_accepted by blast
  from verify_hints_accepts_iff [OF pairing_laws_demo c(1)] c show ?thesis by blast
qed

lemma threshold_step_exact_witness:
  "threshold_step True (demo_bls\<lparr>fr_limbs := \<lambda>v. (-1, -1, 0, 0)\<rparr>) 1 0 = None \<and>
   threshold_step False (demo_bls\<lparr>fr_limbs := \<lambda>v. if v = 0 then (2, 0, 0, 0) else (0x5555555555555556, 0x5555555555555555, 0, 0)\<rparr>) 1 0 =
     Some (Inr False)"
proof -
  have a: "weight_value (demo_bls\<lparr>fr_limbs := \<lambda>v. (-1, -1, 0, 0)\<rparr>) x = Some (2 ^ 128 - 1)" for x
    by (simp add: weight_value_def unsigned_minus_1_eq_mask mask_eq_exp_minus_1)
  let ?B = "demo_bls\<lparr>fr_limbs := \<lambda>v. if v = 0 then (2, 0, 0, 0) else (0x5555555555555556, 0x5555555555555555, 0, 0)\<rparr>"
  have b: "weight_value ?B 1 = Some 0x55555555555555555555555555555556" "weight_value ?B 0 = Some 2"
    by (simp_all add: weight_value_def)
  show ?thesis
    using threshold_step_exact [OF a a, of True] threshold_step_exact [OF b, of False] by simp
qed

lemma merged_kzg_batches_witness:
  "let vk = demo_vk\<lparr>vk_h0 := 1, vk_h1 := 1\<rparr> in merged_kzg_step demo_bls vk demo_sig 0"
proof -
  let ?vk = "demo_vk\<lparr>vk_h0 := 1, vk_h1 := 1\<rparr>"
  have args: "opening_args demo_bls ?vk demo_sig = replicate 7 0"
    by (simp add: opening_args_def mk_arg_def demo_vk_def demo_sig_def demo_bls_def numeral_eq_Suc Let_def)
  have merge: "sg_opening_proof_r demo_sig = merge_loop demo_bls 0 (hd (replicate 7 0)) 0 (tl (replicate 7 0))"
    by (simp add: demo_sig_def demo_bls_def numeral_eq_Suc)
  show ?thesis
    using merged_kzg_batches [OF pairing_laws_demo, of ?vk 1 "replicate 7 0" demo_sig 0] merge args
    by (simp add: demo_vk_def numeral_eq_Suc Let_def)
qed

text \<open>The challenge hits the last point of a domain of one point.\<close>

lemma demo_hints_panic: "verify_hints False (demo_bls\<lparr>fr_from_be := \<lambda>b. 1\<rparr>) demo_layout r = None"
proof -
  let ?B = "demo_bls\<lparr>fr_from_be := \<lambda>b. 1\<rparr>"
  have same: "read_g1_uncompressed ?B = read_g1_uncompressed demo_bls" "read_g2_uncompressed ?B = read_g2_uncompressed demo_bls"
    "read_fr_le ?B = read_fr_le demo_bls"
    by (rule ext, simp add: read_g1_uncompressed_def read_g2_uncompressed_def fq_from_be_def read_fr_le_def cong: if_cong)+
  have vk: "deserialize_vk ?B (hints_verification_key demo_layout) = Inr demo_vk"
    and sig: "deserialize_signature ?B (hints_signature demo_layout) = Inr demo_sig"
    using demo_deserialize by (simp_all add: deserialize_vk_def deserialize_signature_def sig_g1_def sig_fr_def same cong: if_cong)
  have len: "\<And>b. length (sha256 ?B b) = 32" by (simp add: demo_bls_def)
  have ch: "fiat_shamir_challenge ?B demo_vk demo_sig = Some 1"
    using fiat_shamir_total [of ?B demo_vk demo_sig, OF len] by (auto simp: fiat_shamir_challenge_def hash_to_fr_def)
  have thr: "threshold_step False ?B (sg_agg_weight demo_sig) (vk_total_weight demo_vk) = Some (Inr True)"
    using threshold_step_weights [of ?B 1 1 0 0 False]
    by (simp add: weight_value_def demo_sig_def demo_vk_def) (simp add: demo_bls_def)
  have om: "g2_hasher demo_bls HASH_TO_G2_DST = Inr (\<lambda>msg. Inr 1)" "fr_root_of_unity demo_bls (vk_n demo_vk) = Some 1"
    by (simp_all add: demo_bls_def demo_vk_def)
  have ln: "ln_minus_1_at False ?B (vk_n demo_vk) 1 1 = None"
    by (simp add: ln_minus_1_at_def build_sub_def fr_div_def demo_vk_def bind_eq_None_conv Let_def)
  show ?thesis by (simp add: verify_hints_def vk sig thr om ch fr_inverse_def ln)
qed

end
