(* ===== verification/Schnorr.thy ===== *)
theory Schnorr
  imports Material Demo_Field
begin

text \<open>
  \<open>src/block/proof/poseidon.rs\<close> and \<open>src/block/proof/schnorr.rs\<close>: the Poseidon hash of the hinTS
  verification key and the aggregate Schnorr signature with which the nodes of the bootstrap address book
  endorse it. The sponge, the curve BabyJubjub and Blake2s are third-party code, the fields of \<open>sponge_lib\<close> and
  \<open>jubjub\<close>; the scalars are a type of class \<open>field\<close>, the points a type of class \<open>ab_group_add\<close>. The
  bitvector, the aggregation, the acceptance gate, the message and the transcript are the crate's.
\<close>

section \<open>Poseidon\<close>

record 'p poseidon_config =
  pc_full_rounds :: nat
  pc_partial_rounds :: nat
  pc_alpha :: nat
  pc_mds :: "'p list list"
  pc_ark :: "'p list list"
  pc_rate :: nat
  pc_capacity :: nat

text \<open>\<open>p_from_le\<close> is \<open>Fr::from_le_bytes_mod_order\<close>, \<open>p_bytes_le\<close> is \<open>into_bigint().to_bytes_le()\<close>.\<close>

record ('p, 's) sponge_lib =
  modulus_bit_size :: nat
  find_poseidon_ark_and_mds :: "nat \<Rightarrow> nat \<Rightarrow> nat \<Rightarrow> nat \<Rightarrow> nat \<Rightarrow> 'p list list \<times> 'p list list"
  sponge_new :: "'p poseidon_config \<Rightarrow> 's"
  absorb :: "'s \<Rightarrow> 'p \<Rightarrow> 's"
  squeeze :: "'s \<Rightarrow> nat \<Rightarrow> 'p list"
  p_from_le :: "bytes \<Rightarrow> 'p"
  p_bytes_le :: "'p \<Rightarrow> bytes"

definition canonical_config :: "('p, 's) sponge_lib \<Rightarrow> 'p poseidon_config" where
  "canonical_config P =
     (let full_rounds = 8; partial_rounds = 60; alpha = 5; rate = 4;
          (ark, mds) = find_poseidon_ark_and_mds P (modulus_bit_size P) rate full_rounds partial_rounds 0
      in \<lparr>pc_full_rounds = full_rounds, pc_partial_rounds = partial_rounds, pc_alpha = alpha, pc_mds = mds,
          pc_ark = ark, pc_rate = rate, pc_capacity = 1\<rparr>)"

text \<open>\<open>None\<close>: nothing was squeezed.\<close>

definition poseidon_hash :: "('p, 's) sponge_lib \<Rightarrow> 'p list \<Rightarrow> 'p option" where
  "poseidon_hash P inputs = get_at (squeeze P (foldl (absorb P) (sponge_new P (canonical_config P)) inputs) 1) 0"

definition hash_hints_vk :: "('p, 's) sponge_lib \<Rightarrow> bytes \<Rightarrow> 'p option" where
  "hash_hints_vk P vk_bytes = poseidon_hash P (map (p_from_le P) (chunks 32 vk_bytes))"

section \<open>The curve\<close>

text \<open>\<open>ed_deserialize\<close> is \<open>deserialize_uncompressed\<close> with its checks, \<open>ed_serialize\<close> the 64 bytes of
  \<open>serialize_uncompressed\<close> of the affine point.\<close>

record ('fr, 'e) jubjub =
  ed_deserialize :: "bytes \<Rightarrow> string + 'e"
  ed_serialize :: "'e \<Rightarrow> bytes"
  ed_generator :: 'e
  ed_mul :: "'e \<Rightarrow> 'fr \<Rightarrow> 'e"
  jub_from_le :: "bytes \<Rightarrow> 'fr"
  blake2s256 :: "bytes \<Rightarrow> bytes"

definition SUFFIX_LENGTH :: nat where "SUFFIX_LENGTH = 192"
definition BITVECTOR_LENGTH :: nat where "BITVECTOR_LENGTH = 128"
definition NODE_KEY_LENGTH :: nat where "NODE_KEY_LENGTH = 192"

record schnorr_verification =
  schnorr_valid :: bool
  signer_count :: nat
  total_nodes :: nat

definition point_from_key_bytes :: "('fr, 'e) jubjub \<Rightarrow> bytes \<Rightarrow> 'e result" where
  "point_from_key_bytes J bytes = map_err (\<lambda>e. Proof (''node public key: '' @ e)) (ed_deserialize J (slice 0 64 bytes))"

definition serialize_point :: "('fr, 'e) jubjub \<Rightarrow> 'e \<Rightarrow> bytes" where
  "serialize_point J point = ed_serialize J point"

section \<open>The verification\<close>

text \<open>One node of the address book, with its index.\<close>

definition add_signer :: "('fr, 'e::ab_group_add) jubjub \<Rightarrow> bytes \<Rightarrow> 'e \<times> nat \<Rightarrow> nat \<times> node_contribution \<Rightarrow> ('e \<times> nat) result" where
  "add_signer J bitvector st node =
     (let (agg_pk, count) = st; (i, contribution) = node
      in if i \<ge> BITVECTOR_LENGTH \<or> bitvector ! i = 0 then Inr (agg_pk, count)
         else if length (history_proof_key contribution) \<noteq> NODE_KEY_LENGTH then
           Inl (Proof (''node '' @ show_u64 (node_id contribution) @ '' history proof key is ''
             @ show_nat (length (history_proof_key contribution)) @ '' bytes, expected '' @ show_nat NODE_KEY_LENGTH))
         else and_then (point_from_key_bytes J (history_proof_key contribution)) (\<lambda>p. Inr (agg_pk + p, count + 1)))"

text \<open>\<open>ledger_id || Poseidon(hinTS VK)\<close>: the ledger id cut or padded to 32 bytes.\<close>

definition rotation_message :: "('p, 's) sponge_lib \<Rightarrow> proof_layout \<Rightarrow> bootstrap \<Rightarrow> bytes option" where
  "rotation_message P lay boot =
     (let hints_vk = (if hints_verification_key lay = [] then history_proof_verification_key boot
                      else hints_verification_key lay);
          message = slice 0 (min 32 (length (ledger_id boot))) (ledger_id boot)
      in map_option (\<lambda>h. message @ replicate (32 - length message) 0 @ p_bytes_le P h) (hash_hints_vk P hints_vk))"

definition schnorr_challenge :: "('fr, 'e) jubjub \<Rightarrow> 'e \<Rightarrow> 'e \<Rightarrow> bytes \<Rightarrow> 'fr" where
  "schnorr_challenge J agg_pk commitment message =
     jub_from_le J (slice 0 31 (blake2s256 J (serialize_point J agg_pk @ serialize_point J commitment @ message)))"

definition verify_schnorr :: "('p, 's) sponge_lib \<Rightarrow> ('fr, 'e::ab_group_add) jubjub \<Rightarrow> proof_layout \<Rightarrow> bootstrap \<Rightarrow>
    (error + schnorr_verification) option" where
  "verify_schnorr P J lay boot =
     (if path lay \<noteq> AggregateSchnorr then Some (Inl (Proof ''not a Schnorr-path proof''))
      else if length (suffix_bytes lay) \<noteq> SUFFIX_LENGTH then
        Some (Inl (Proof (''expected '' @ show_nat SUFFIX_LENGTH @ ''-byte Schnorr suffix, got ''
          @ show_nat (length (suffix_bytes lay)))))
      else if node_contributions boot = [] then Some (Inl (Proof ''bootstrap has no node contributions''))
      else
        let bitvector = slice 0 BITVECTOR_LENGTH (suffix_bytes lay);
            prover_response = jub_from_le J (slice BITVECTOR_LENGTH (BITVECTOR_LENGTH + 32) (suffix_bytes lay));
            verifier_challenge = jub_from_le J (drop (BITVECTOR_LENGTH + 32) (suffix_bytes lay));
            total = length (node_contributions boot)
        in and_then_panic (Some (fold_result (add_signer J bitvector) (0, 0) (enumerate 0 (node_contributions boot))))
          (\<lambda>(agg_pk, count).
             if count = 0 \<or> agg_pk = 0 then
               Some (Inr \<lparr>schnorr_valid = False, signer_count = count, total_nodes = total\<rparr>)
             else
               map_option (\<lambda>message.
                 let claimed_commitment = ed_mul J (ed_generator J) prover_response + ed_mul J agg_pk verifier_challenge;
                     recomputed = schnorr_challenge J agg_pk claimed_commitment message
                 in Inr \<lparr>schnorr_valid = (recomputed = verifier_challenge), signer_count = count, total_nodes = total\<rparr>)
               (rotation_message P lay boot)))"

section \<open>Who signs\<close>

text \<open>The nodes the bitvector selects, and the aggregation in one step.\<close>

definition selected_nodes :: "bytes \<Rightarrow> (nat \<times> node_contribution) list \<Rightarrow> node_contribution list" where
  "selected_nodes bitvector nodes = map snd (filter (\<lambda>(i, n). i < BITVECTOR_LENGTH \<and> bitvector ! i \<noteq> 0) nodes)"

definition node_point :: "('fr, 'e) jubjub \<Rightarrow> node_contribution \<Rightarrow> 'e result" where
  "node_point J n = point_from_key_bytes J (history_proof_key n)"

lemma add_signers:
  "fold_result (add_signer J bv) (agg, count) nodes = Inr (agg', count') \<Longrightarrow>
     \<exists>ps. map_result (node_point J) (selected_nodes bv nodes) = Inr ps \<and>
       agg' = agg + sum_list ps \<and> count' = count + length ps"
proof (induction nodes arbitrary: agg count)
  case (Cons node nodes)
  obtain i n where node: "node = (i, n)" by (cases node)
  show ?case
  proof (cases "i < BITVECTOR_LENGTH \<and> bv ! i \<noteq> 0")
    case True
    with Cons.prems obtain p where p: "node_point J n = Inr p"
      and rest: "fold_result (add_signer J bv) (agg + p, count + 1) nodes = Inr (agg', count')"
      by (auto simp: node add_signer_def [of J bv "(agg, count)" "(i, n)"] node_point_def and_then_eq_Inr_iff split: if_splits)
    from Cons.IH [OF rest] obtain ps where "map_result (node_point J) (selected_nodes bv nodes) = Inr ps"
      "agg' = agg + p + sum_list ps" "count' = count + 1 + length ps" by blast
    with True p show ?thesis by (simp add: node selected_nodes_def add.assoc)
  next
    case False
    with Cons.prems have "fold_result (add_signer J bv) (agg, count) nodes = Inr (agg', count')"
      by (auto simp: node add_signer_def [of J bv "(agg, count)" "(i, n)"])
    from Cons.IH [OF this] False show ?thesis by (auto simp: node selected_nodes_def)
  qed
qed (simp add: selected_nodes_def)

lemma selected_bound:
  "length (selected_nodes bv (enumerate 0 nodes)) \<le> min BITVECTOR_LENGTH (length nodes)"
proof -
  let ?P = "\<lambda>(i, n :: node_contribution). i < BITVECTOR_LENGTH \<and> bv ! i \<noteq> 0"
  let ?xs = "filter ?P (enumerate 0 nodes)"
  have "distinct (map fst ?xs)" by (rule distinct_map_filter) simp
  from distinct_card [OF this] have "length ?xs = card (set (map fst ?xs))" by simp
  also have "\<dots> \<le> card {..<BITVECTOR_LENGTH}" by (rule card_mono) auto
  finally have "length ?xs \<le> BITVECTOR_LENGTH" by simp
  moreover have "length ?xs \<le> length nodes" using length_filter_le [of ?P "enumerate 0 nodes"] by simp
  ultimately show ?thesis by (simp add: selected_nodes_def)
qed

text \<open>C5. A valid aggregate signature has signers: the aggregate key is the sum of the keys of the nodes the
  bitvector selects, there is at least one and at most 128 of them, the sum is not the identity (the
  forgery with the empty selection is refused), and the challenge in the signature is the hash of that
  key, the commitment \<open>response * G + challenge * key\<close> and the rotation message.\<close>

theorem schnorr_valid_sound:
  assumes "verify_schnorr P J lay boot = Some (Inr v)" "schnorr_valid v"
  shows "\<exists>ps message.
    map_result (node_point J) (selected_nodes (slice 0 BITVECTOR_LENGTH (suffix_bytes lay)) (enumerate 0 (node_contributions boot))) = Inr ps \<and>
    signer_count v = length ps \<and> 1 \<le> length ps \<and> length ps \<le> min 128 (total_nodes v) \<and>
    total_nodes v = length (node_contributions boot) \<and> sum_list ps \<noteq> 0 \<and>
    rotation_message P lay boot = Some message \<and>
    (let response = jub_from_le J (slice 128 160 (suffix_bytes lay));
         challenge = jub_from_le J (drop 160 (suffix_bytes lay))
     in schnorr_challenge J (sum_list ps) (ed_mul J (ed_generator J) response + ed_mul J (sum_list ps) challenge) message
          = challenge)"
proof -
  let ?bv = "slice 0 BITVECTOR_LENGTH (suffix_bytes lay)"
  from assms obtain agg count where f: "fold_result (add_signer J ?bv) (0, 0) (enumerate 0 (node_contributions boot)) = Inr (agg, count)"
    and v: "signer_count v = count" "total_nodes v = length (node_contributions boot)" "count \<noteq> 0" "agg \<noteq> 0"
    and m: "\<exists>message. rotation_message P lay boot = Some message \<and>
      schnorr_challenge J agg (ed_mul J (ed_generator J) (jub_from_le J (slice 128 160 (suffix_bytes lay)))
        + ed_mul J agg (jub_from_le J (drop 160 (suffix_bytes lay)))) message = jub_from_le J (drop 160 (suffix_bytes lay))"
    by (auto simp: verify_schnorr_def and_then_panic_eq_Inr_iff BITVECTOR_LENGTH_def Let_def split: if_splits)
  from add_signers [OF f] obtain ps where
    ps: "map_result (node_point J) (selected_nodes ?bv (enumerate 0 (node_contributions boot))) = Inr ps"
      "agg = sum_list ps" "count = length ps" by auto
  have "length ps = length (selected_nodes ?bv (enumerate 0 (node_contributions boot)))"
    using ps(1) by (metis map_result_Inr_iff list_all2_lengthD)
  then have "length ps \<le> min 128 (length (node_contributions boot))"
    using selected_bound [of ?bv "node_contributions boot"] by (simp add: BITVECTOR_LENGTH_def)
  with ps v m show ?thesis by (auto simp: Let_def Suc_le_eq)
qed

section \<open>Honest signatures\<close>

text \<open>Multiplication of points by scalars, as every prime-order group has it.\<close>

definition curve_laws :: "('fr::field, 'e::ab_group_add) jubjub \<Rightarrow> bool" where
  "curve_laws J \<longleftrightarrow>
     (\<forall>p a b. ed_mul J p (a + b) = ed_mul J p a + ed_mul J p b) \<and>
     (\<forall>p a b. ed_mul J (ed_mul J p a) b = ed_mul J p (a * b))"

text \<open>C33. The signature that the selected signers make verifies: with an aggregate key \<open>sk * G\<close>, a nonce
  \<open>k\<close>, the challenge hashed from the commitment \<open>k * G\<close> and the response \<open>k - challenge * sk\<close>.\<close>

theorem schnorr_complete:
  assumes "curve_laws J" "path lay = AggregateSchnorr" "length (suffix_bytes lay) = 192" "node_contributions boot \<noteq> []"
    and "fold_result (add_signer J (slice 0 128 (suffix_bytes lay))) (0, 0) (enumerate 0 (node_contributions boot)) = Inr (agg, count)"
    and "count \<noteq> 0" "agg \<noteq> 0" "agg = ed_mul J (ed_generator J) sk"
    and "rotation_message P lay boot = Some message"
    and "e = schnorr_challenge J agg (ed_mul J (ed_generator J) k) message"
    and "jub_from_le J (slice 128 160 (suffix_bytes lay)) = k - e * sk" "jub_from_le J (drop 160 (suffix_bytes lay)) = e"
  shows "verify_schnorr P J lay boot =
    Some (Inr \<lparr>schnorr_valid = True, signer_count = count, total_nodes = length (node_contributions boot)\<rparr>)"
proof -
  have mul: "ed_mul J p a + ed_mul J p b = ed_mul J p (a + b)" "ed_mul J (ed_mul J p a) b = ed_mul J p (a * b)" for p a b
    using assms(1) by (simp_all add: curve_laws_def)
  have "ed_mul J (ed_generator J) (k - e * sk) + ed_mul J agg e = ed_mul J (ed_generator J) k"
    unfolding assms(8) mul by (simp add: mult.commute)
  with assms show ?thesis
    by (simp add: verify_schnorr_def SUFFIX_LENGTH_def BITVECTOR_LENGTH_def Let_def)
qed

text \<open>The outcome does not depend on the weights of the address book: neither the validity nor the
  counts read them, so one signer of any weight is enough for a valid aggregate signature.\<close>

theorem schnorr_ignores_weights:
  "verify_schnorr P J lay (boot\<lparr>node_contributions := map (\<lambda>n. n\<lparr>weight := f n\<rparr>) (node_contributions boot)\<rparr>)
     = verify_schnorr P J lay boot"
proof -
  have step: "add_signer J bv st (i, n\<lparr>weight := w\<rparr>) = add_signer J bv st (i, n)" for bv st i w and n :: node_contribution
    by (simp add: add_signer_def split: prod.split)
  have "fold_result (add_signer J bv) st (enumerate j (map (\<lambda>n. n\<lparr>weight := f n\<rparr>) ns)) =
    fold_result (add_signer J bv) st (enumerate j ns)" for bv st j ns
    by (induction ns arbitrary: st j) (simp_all add: step and_then_def split: sum.split)
  then show ?thesis by (simp add: verify_schnorr_def rotation_message_def Let_def cong: if_cong)
qed

section \<open>A concrete instance\<close>

definition demo_sponge :: "(nat, nat) sponge_lib" where
  "demo_sponge = \<lparr>modulus_bit_size = 254, find_poseidon_ark_and_mds = (\<lambda>_ _ _ _ _. ([], [])), sponge_new = (\<lambda>_. 0),
     absorb = (+), squeeze = (\<lambda>s n. replicate n s), p_from_le = (\<lambda>b. sum_list (map unat b)),
     p_bytes_le = (\<lambda>p. replicate 32 (of_nat p))\<rparr>"

definition demo_jubjub :: "(gf2, gf2) jubjub" where
  "demo_jubjub = \<lparr>ed_deserialize = (\<lambda>b. Inr (if hd b = 0 then 0 else 1)), ed_serialize = (\<lambda>p. replicate 64 0),
     ed_generator = 1, ed_mul = (\<lambda>p s. s * p), jub_from_le = (\<lambda>b. if hd b = 0 then 0 else 1),
     blake2s256 = (\<lambda>b. replicate 32 1)\<rparr>"

text \<open>The first of two nodes signs.\<close>

definition demo_book :: bootstrap where
  "demo_book = \<lparr>ledger_id = replicate 32 7, history_proof_verification_key = [],
     node_contributions = [\<lparr>node_id = 0, weight = 1, history_proof_key = 1 # replicate 191 0\<rparr>,
                           \<lparr>node_id = 1, weight = 99, history_proof_key = 1 # replicate 191 0\<rparr>]\<rparr>"

definition demo_schnorr :: proof_layout where
  "demo_schnorr = \<lparr>path = AggregateSchnorr, hints_verification_key = replicate 1096 0, hints_signature = [],
     suffix_bytes = 1 # replicate 127 0 @ replicate 32 0 @ 1 # replicate 31 0\<rparr>"

lemma demo_signers:
  "fold_result (add_signer demo_jubjub (slice 0 128 (suffix_bytes demo_schnorr))) (0, 0) (enumerate 0 (node_contributions demo_book))
     = Inr (1, 1)"
  by (simp add: demo_schnorr_def demo_book_def add_signer_def slice_def BITVECTOR_LENGTH_def NODE_KEY_LENGTH_def
      point_from_key_bytes_def demo_jubjub_def)

lemma demo_message: "\<exists>m. rotation_message demo_sponge demo_schnorr demo_book = Some m"
  by (simp add: rotation_message_def hash_hints_vk_def poseidon_hash_def get_at_def demo_sponge_def Let_def)

lemma demo_schnorr_verifies:
  "verify_schnorr demo_sponge demo_jubjub demo_schnorr demo_book =
     Some (Inr \<lparr>schnorr_valid = True, signer_count = 1, total_nodes = 2\<rparr>)"
proof -
  obtain m where "rotation_message demo_sponge demo_schnorr demo_book = Some m" using demo_message by blast
  with demo_signers show ?thesis
    by (simp add: verify_schnorr_def SUFFIX_LENGTH_def BITVECTOR_LENGTH_def Let_def)
      (simp add: demo_schnorr_def demo_book_def schnorr_challenge_def demo_jubjub_def slice_def)
qed

lemma schnorr_valid_sound_witness:
  "\<exists>ps. map_result (node_point demo_jubjub) (selected_nodes (slice 0 BITVECTOR_LENGTH (suffix_bytes demo_schnorr))
      (enumerate 0 (node_contributions demo_book))) = Inr ps \<and> length ps = 1 \<and> sum_list ps \<noteq> 0"
  using schnorr_valid_sound [OF demo_schnorr_verifies] by fastforce

lemma schnorr_complete_witness:
  "verify_schnorr demo_sponge demo_jubjub demo_schnorr demo_book =
     Some (Inr \<lparr>schnorr_valid = True, signer_count = 1, total_nodes = 2\<rparr>)"
proof -
  obtain m where m: "rotation_message demo_sponge demo_schnorr demo_book = Some m" using demo_message by blast
  have laws: "curve_laws demo_jubjub" by (simp add: curve_laws_def demo_jubjub_def algebra_simps)
  have ch: "schnorr_challenge demo_jubjub a c m = 1" for a c by (simp add: schnorr_challenge_def demo_jubjub_def slice_def)
  have scalars: "jub_from_le demo_jubjub (slice 128 160 (suffix_bytes demo_schnorr)) = 1 - 1 * 1"
    "jub_from_le demo_jubjub (drop 160 (suffix_bytes demo_schnorr)) = 1"
    by (simp_all add: demo_jubjub_def demo_schnorr_def slice_def)
  have gen: "(1 :: gf2) = ed_mul demo_jubjub (ed_generator demo_jubjub) 1" by (simp add: demo_jubjub_def)
  have shape: "path demo_schnorr = AggregateSchnorr" "length (suffix_bytes demo_schnorr) = 192"
    "node_contributions demo_book \<noteq> []" "length (node_contributions demo_book) = 2"
    by (simp_all add: demo_schnorr_def demo_book_def)
  show ?thesis
    using schnorr_complete [OF laws shape(1-3) demo_signers _ _ gen m ch [symmetric] scalars] shape(4) by simp
qed

end
