(* ===== verification/Wraps.thy ===== *)
theory Wraps
  imports Schnorr Pairing
begin

text \<open>
  \<open>src/block/proof/wraps.rs\<close>: the compressed WRAPS proof of settled blocks, a Groth16 proof and two KZG
  openings over BN254. The curve library is the record \<open>bn254\<close>, its fields the readers of the
  arkworks compressed encoding (an element and the rest of the input), the conversions and the groups. The
  order of the fields on the wire, the limbs of a coordinate, the public input of 40 elements and the
  pairing equations are the crate's.
\<close>

text \<open>
  A reader is \<open>deserialize_with_mode\<close> with \<open>Compress::Yes\<close> and \<open>Validate::Yes\<close>, \<open>rd_fr_vec\<close> and \<open>rd_g1_vec\<close> the
  library's vectors. \<open>g1_xy\<close> is \<open>None\<close> for the identity. \<open>fq_bytes_le\<close> is \<open>into_bigint().to_bytes_le()\<close>.
\<close>

record ('fr, 'fq, 'g1, 'g2) bn254 =
  rd_fr :: "bytes \<Rightarrow> string + 'fr \<times> bytes"
  rd_g1 :: "bytes \<Rightarrow> string + 'g1 \<times> bytes"
  rd_g2 :: "bytes \<Rightarrow> string + 'g2 \<times> bytes"
  rd_fr_vec :: "bytes \<Rightarrow> string + 'fr list \<times> bytes"
  rd_g1_vec :: "bytes \<Rightarrow> string + 'g1 list \<times> bytes"
  bn_fr_from_le :: "bytes \<Rightarrow> 'fr"
  bn_fr_from_u64 :: "u64 \<Rightarrow> 'fr"
  bn_fr_bigint :: "'fr \<Rightarrow> nat"
  bn_fq_bytes_le :: "'fq \<Rightarrow> bytes"
  bn_g1_xy :: "'g1 \<Rightarrow> ('fq \<times> 'fq) option"
  bn_g1_mul :: "'g1 \<Rightarrow> 'fr \<Rightarrow> 'g1"
  bn_g2_mul :: "'g2 \<Rightarrow> 'fr \<Rightarrow> 'g2"
  bn_pairing_is_one :: "'g1 list \<Rightarrow> 'g2 list \<Rightarrow> bool"

definition SUFFIX_LENGTH :: nat where "SUFFIX_LENGTH = 704"
definition VERIFIER_PARAM_LENGTH :: nat where "VERIFIER_PARAM_LENGTH = 1768"
definition PUBLIC_INPUT_LENGTH :: nat where "PUBLIC_INPUT_LENGTH = 40"

record wraps_checks =
  ledger_id_match :: bool
  hints_vk_hash_match :: bool
  iteration_guard :: bool
  u_cm_e_is_zero :: bool
  groth16_ok :: bool
  kzg0_ok :: bool
  kzg1_ok :: bool

definition all_passed :: "wraps_checks \<Rightarrow> bool" where
  "all_passed w \<longleftrightarrow> ledger_id_match w \<and> hints_vk_hash_match w \<and> iteration_guard w \<and> u_cm_e_is_zero w \<and>
     groth16_ok w \<and> kzg0_ok w \<and> kzg1_ok w"

section \<open>Wire structs\<close>

record ('fr, 'g1) kzg_eval_proof =
  ke_eval :: 'fr
  ke_proof :: 'g1

record ('fr, 'g1, 'g2) eth_proof =
  ep_a :: 'g1
  ep_b :: 'g2
  ep_c :: 'g1
  ep_kzg_proofs :: "('fr, 'g1) kzg_eval_proof list"
  ep_cm_t :: 'g1
  ep_r :: 'fr
  ep_kzg_challenges :: "'fr list"

record ('fr, 'g1, 'g2) proof_data =
  pd_i :: 'fr
  pd_z_0 :: "'fr list"
  pd_z_i :: "'fr list"
  pd_running_commitments :: "'g1 list"
  pd_instance_commitments :: "'g1 list"
  pd_eth_proof :: "('fr, 'g1, 'g2) eth_proof"

record ('g1, 'g2) kzg_verifier_key =
  kv_g :: 'g1
  kv_gamma_g :: 'g1
  kv_h :: 'g2
  kv_beta_h :: 'g2

record ('fr, 'g1, 'g2) verifier_param =
  vp_pp_hash :: 'fr
  vp_alpha_g1 :: 'g1
  vp_beta_g2 :: 'g2
  vp_gamma_g2 :: 'g2
  vp_delta_g2 :: 'g2
  vp_gamma_abc_g1 :: "'g1 list"
  vp_kzg_vk :: "('g1, 'g2) kzg_verifier_key"

text \<open>One field after the other from one reader; an array is \<open>n\<close> elements, the first error ends it.\<close>

definition rd_then :: "(bytes \<Rightarrow> 'e + 'a \<times> bytes) \<Rightarrow> bytes \<Rightarrow> ('a \<Rightarrow> bytes \<Rightarrow> 'e + 'b) \<Rightarrow> 'e + 'b" where
  "rd_then rd bytes f = and_then (rd bytes) (\<lambda>(x, rest). f x rest)"

fun deserialize_fixed_array :: "(bytes \<Rightarrow> 'e + 'a \<times> bytes) \<Rightarrow> nat \<Rightarrow> bytes \<Rightarrow> 'e + 'a list \<times> bytes" where
  "deserialize_fixed_array rd 0 bytes = Inr ([], bytes)"
| "deserialize_fixed_array rd (Suc n) bytes =
     rd_then rd bytes (\<lambda>x rest. rd_then (deserialize_fixed_array rd n) rest (\<lambda>xs rest'. Inr (x # xs, rest')))"

definition rd_kzg_eval_proof :: "('fr, 'fq, 'g1, 'g2) bn254 \<Rightarrow> bytes \<Rightarrow> string + ('fr, 'g1) kzg_eval_proof \<times> bytes" where
  "rd_kzg_eval_proof N bytes =
     rd_then (rd_fr N) bytes (\<lambda>e b1. rd_then (rd_g1 N) b1 (\<lambda>p b2. Inr (\<lparr>ke_eval = e, ke_proof = p\<rparr>, b2)))"

definition rd_eth_proof :: "('fr, 'fq, 'g1, 'g2) bn254 \<Rightarrow> bytes \<Rightarrow> string + ('fr, 'g1, 'g2) eth_proof \<times> bytes" where
  "rd_eth_proof N bytes =
     rd_then (rd_g1 N) bytes (\<lambda>a b1.
     rd_then (rd_g2 N) b1 (\<lambda>b b2.
     rd_then (rd_g1 N) b2 (\<lambda>c b3.
     rd_then (deserialize_fixed_array (rd_kzg_eval_proof N) 2) b3 (\<lambda>kzg_proofs b4.
     rd_then (rd_g1 N) b4 (\<lambda>cm_t b5.
     rd_then (rd_fr N) b5 (\<lambda>r b6.
     rd_then (deserialize_fixed_array (rd_fr N) 2) b6 (\<lambda>kzg_challenges b7.
       Inr (\<lparr>ep_a = a, ep_b = b, ep_c = c, ep_kzg_proofs = kzg_proofs, ep_cm_t = cm_t, ep_r = r,
             ep_kzg_challenges = kzg_challenges\<rparr>, b7))))))))"

definition rd_proof_data :: "('fr, 'fq, 'g1, 'g2) bn254 \<Rightarrow> bytes \<Rightarrow> string + ('fr, 'g1, 'g2) proof_data \<times> bytes" where
  "rd_proof_data N bytes =
     rd_then (rd_fr N) bytes (\<lambda>i b1.
     rd_then (rd_fr_vec N) b1 (\<lambda>z_0 b2.
     rd_then (rd_fr_vec N) b2 (\<lambda>z_i b3.
     rd_then (rd_g1_vec N) b3 (\<lambda>running b4.
     rd_then (rd_g1_vec N) b4 (\<lambda>inst b5.
     rd_then (rd_eth_proof N) b5 (\<lambda>eth b6.
       Inr (\<lparr>pd_i = i, pd_z_0 = z_0, pd_z_i = z_i, pd_running_commitments = running,
             pd_instance_commitments = inst, pd_eth_proof = eth\<rparr>, b6)))))))"

definition rd_kzg_verifier_key :: "('fr, 'fq, 'g1, 'g2) bn254 \<Rightarrow> bytes \<Rightarrow> string + ('g1, 'g2) kzg_verifier_key \<times> bytes" where
  "rd_kzg_verifier_key N bytes =
     rd_then (rd_g1 N) bytes (\<lambda>g b1. rd_then (rd_g1 N) b1 (\<lambda>gamma b2.
     rd_then (rd_g2 N) b2 (\<lambda>h b3. rd_then (rd_g2 N) b3 (\<lambda>beta b4.
       Inr (\<lparr>kv_g = g, kv_gamma_g = gamma, kv_h = h, kv_beta_h = beta\<rparr>, b4)))))"

definition rd_verifier_param :: "('fr, 'fq, 'g1, 'g2) bn254 \<Rightarrow> bytes \<Rightarrow> string + ('fr, 'g1, 'g2) verifier_param \<times> bytes" where
  "rd_verifier_param N bytes =
     rd_then (rd_fr N) bytes (\<lambda>pp b1.
     rd_then (rd_g1 N) b1 (\<lambda>alpha b2.
     rd_then (rd_g2 N) b2 (\<lambda>beta b3.
     rd_then (rd_g2 N) b3 (\<lambda>gamma b4.
     rd_then (rd_g2 N) b4 (\<lambda>delta b5.
     rd_then (rd_g1_vec N) b5 (\<lambda>abc b6.
     rd_then (rd_kzg_verifier_key N) b6 (\<lambda>kzg b7.
       Inr (\<lparr>vp_pp_hash = pp, vp_alpha_g1 = alpha, vp_beta_g2 = beta, vp_gamma_g2 = gamma, vp_delta_g2 = delta,
             vp_gamma_abc_g1 = abc, vp_kzg_vk = kzg\<rparr>, b7))))))))"

definition deserialize_exact :: "(bytes \<Rightarrow> string + 'a \<times> bytes) \<Rightarrow> bytes \<Rightarrow> string \<Rightarrow> 'a result" where
  "deserialize_exact rd bytes what =
     and_then (map_err (\<lambda>e. Proof (what @ '': '' @ e)) (rd bytes)) (\<lambda>(x, rest).
       if rest \<noteq> [] then Inl (Proof (what @ '': '' @ show_nat (length rest) @ '' trailing bytes'')) else Inr x)"

section \<open>Limbs\<close>

definition BITS_PER_LIMB :: nat where "BITS_PER_LIMB = 55"

text \<open>Bit \<open>b\<close> of limb \<open>i\<close>; the loop over the bits of one limb.\<close>

definition limb_bit :: "bytes \<Rightarrow> nat \<Rightarrow> nat \<Rightarrow> bool" where
  "limb_bit bytes i b =
     (let bit_index = i * BITS_PER_LIMB + b;
          byte = (case get_at bytes (bit_index div 8) of Some x \<Rightarrow> x | None \<Rightarrow> 0)
      in (drop_bit (bit_index mod 8) byte) AND 1 = (1 :: u8))"

definition limb_value :: "bytes \<Rightarrow> nat \<Rightarrow> u64" where
  "limb_value bytes i =
     foldl (\<lambda>acc b. if limb_bit bytes i b then acc OR push_bit b 1 else acc) 0 [0..<BITS_PER_LIMB]"

definition fq_to_limbs :: "('fr, 'fq, 'g1, 'g2) bn254 \<Rightarrow> 'fq \<Rightarrow> 'fr list" where
  "fq_to_limbs N v = map (\<lambda>i. bn_fr_from_u64 N (limb_value (bn_fq_bytes_le N v) i)) [0..<5]"

definition g1_to_nonnative :: "('fr, 'fq::zero, 'g1, 'g2) bn254 \<Rightarrow> 'g1 \<Rightarrow> 'fr list" where
  "g1_to_nonnative N point =
     (let (x, y) = (case bn_g1_xy N point of Some xy \<Rightarrow> xy | None \<Rightarrow> (0, 0))
      in fq_to_limbs N x @ fq_to_limbs N y)"

section \<open>The pairing checks\<close>

text \<open>The prepared input: zero inputs are skipped.\<close>

definition prepared_input :: "('fr::zero, 'fq, 'g1::ab_group_add, 'g2) bn254 \<Rightarrow> 'g1 \<Rightarrow> 'fr list \<Rightarrow> 'g1 list \<Rightarrow> 'g1" where
  "prepared_input N start public_input coefficients =
     foldl (\<lambda>acc (v, coefficient). if v \<noteq> 0 then acc + bn_g1_mul N coefficient v else acc) start
       (zip public_input coefficients)"

definition groth16_valid :: "('fr::zero, 'fq, 'g1::ab_group_add, 'g2::ab_group_add) bn254 \<Rightarrow> 'fr list \<Rightarrow> 'g1 \<Rightarrow> 'g2 \<Rightarrow> 'g1 \<Rightarrow>
    ('fr, 'g1, 'g2) verifier_param \<Rightarrow> bool result" where
  "groth16_valid N public_input a b c vp =
     (if length (vp_gamma_abc_g1 vp) \<noteq> length public_input + 1 then
        Inl (Proof (''verifier param has '' @ show_nat (length (vp_gamma_abc_g1 vp)) @ '' input coefficients for ''
          @ show_nat (length public_input) @ '' public inputs''))
      else
        let prepared = prepared_input N (vp_gamma_abc_g1 vp ! 0) public_input (drop 1 (vp_gamma_abc_g1 vp))
        in Inr (bn_pairing_is_one N [a, prepared, c, - vp_alpha_g1 vp]
             [b, - vp_gamma_g2 vp, - vp_delta_g2 vp, vp_beta_g2 vp]))"

definition kzg_valid :: "('fr, 'fq, 'g1::ab_group_add, 'g2::ab_group_add) bn254 \<Rightarrow> 'g1 \<Rightarrow> 'fr \<Rightarrow> 'fr \<Rightarrow> 'g1 \<Rightarrow>
    ('fr, 'g1, 'g2) verifier_param \<Rightarrow> bool" where
  "kzg_valid N commitment challenge ev witness vp =
     (let lhs_g1 = commitment - bn_g1_mul N (kv_g (vp_kzg_vk vp)) ev;
          rhs_g2 = kv_beta_h (vp_kzg_vk vp) - bn_g2_mul N (kv_h (vp_kzg_vk vp)) challenge
      in bn_pairing_is_one N [lhs_g1, - witness] [kv_h (vp_kzg_vk vp), rhs_g2])"

section \<open>The verification\<close>

fun check_lengths :: "(string \<times> nat \<times> nat) list \<Rightarrow> unit result" where
  "check_lengths [] = Inr ()"
| "check_lengths ((name, len, expected) # rest) =
     (if len \<noteq> expected then
        Inl (Proof (''expected '' @ name @ '' length '' @ show_nat expected @ '', got '' @ show_nat len))
      else check_lengths rest)"

definition public_input_of :: "('fr, 'fq::zero, 'g1, 'g2) bn254 \<Rightarrow> ('fr, 'g1, 'g2) verifier_param \<Rightarrow> ('fr, 'g1, 'g2) proof_data \<Rightarrow>
    'g1 \<Rightarrow> 'g1 \<Rightarrow> 'fr list" where
  "public_input_of N vp dat cm_w_final cm_e_final =
     [vp_pp_hash vp, pd_i dat] @ pd_z_0 dat @ pd_z_i dat
     @ g1_to_nonnative N cm_w_final @ g1_to_nonnative N cm_e_final
     @ ep_kzg_challenges (pd_eth_proof dat)
     @ [ke_eval (ep_kzg_proofs (pd_eth_proof dat) ! 0), ke_eval (ep_kzg_proofs (pd_eth_proof dat) ! 1)]
     @ g1_to_nonnative N (ep_cm_t (pd_eth_proof dat))"

text \<open>The indices are in range: the lengths have been checked, or are those of the fixed arrays.\<close>

definition wraps_checks_of :: "('fr::zero, 'fq::zero, 'g1::ab_group_add, 'g2::ab_group_add) bn254 \<Rightarrow> bootstrap \<Rightarrow>
    ('fr, 'g1, 'g2) proof_data \<Rightarrow> ('fr, 'g1, 'g2) verifier_param \<Rightarrow> 'fr \<Rightarrow> wraps_checks result" where
  "wraps_checks_of N boot dat vp vk_hash =
     (let eth = pd_eth_proof dat;
          r = ep_r eth;
          cm_w_final = pd_running_commitments dat ! 0 + bn_g1_mul N (pd_instance_commitments dat ! 0) r;
          cm_e_final = pd_running_commitments dat ! 1 + bn_g1_mul N (ep_cm_t eth) r;
          public_input = public_input_of N vp dat cm_w_final cm_e_final
      in and_then (groth16_valid N public_input (ep_a eth) (ep_b eth) (ep_c eth) vp) (\<lambda>groth16.
           Inr \<lparr>ledger_id_match = (length (ledger_id boot) = 32 \<and> pd_z_0 dat ! 0 = bn_fr_from_le N (ledger_id boot)),
                hints_vk_hash_match = (pd_z_i dat ! 1 = vk_hash),
                iteration_guard = (bn_fr_bigint N (pd_i dat) > 1),
                u_cm_e_is_zero = (pd_instance_commitments dat ! 1 = 0),
                groth16_ok = groth16,
                kzg0_ok = kzg_valid N cm_w_final (ep_kzg_challenges eth ! 0) (ke_eval (ep_kzg_proofs eth ! 0))
                  (ke_proof (ep_kzg_proofs eth ! 0)) vp,
                kzg1_ok = kzg_valid N cm_e_final (ep_kzg_challenges eth ! 1) (ke_eval (ep_kzg_proofs eth ! 1))
                  (ke_proof (ep_kzg_proofs eth ! 1)) vp\<rparr>))"

definition verify_wraps :: "('fr, 's) sponge_lib \<Rightarrow> ('fr::zero, 'fq::zero, 'g1::ab_group_add, 'g2::ab_group_add) bn254 \<Rightarrow>
    proof_layout \<Rightarrow> bootstrap \<Rightarrow> (error + wraps_checks) option" where
  "verify_wraps P N lay boot =
     (if path lay \<noteq> WrapsCompressedProof then Some (Inl (Proof ''not a WRAPS-path proof''))
      else if length (suffix_bytes lay) \<noteq> SUFFIX_LENGTH then
        Some (Inl (Proof (''expected '' @ show_nat SUFFIX_LENGTH @ ''-byte WRAPS suffix, got ''
          @ show_nat (length (suffix_bytes lay)))))
      else if length (history_proof_verification_key boot) \<noteq> VERIFIER_PARAM_LENGTH then
        Some (Inl (Proof (''verifier param is '' @ show_nat (length (history_proof_verification_key boot))
          @ '' bytes, expected '' @ show_nat VERIFIER_PARAM_LENGTH)))
      else
        and_then_panic (Some (deserialize_exact (rd_proof_data N) (suffix_bytes lay) ''WRAPS proof'')) (\<lambda>dat.
        and_then_panic (Some (deserialize_exact (rd_verifier_param N) (history_proof_verification_key boot) ''verifier param'')) (\<lambda>vp.
        and_then_panic (Some (check_lengths [(''z_0'', length (pd_z_0 dat), 2), (''z_i'', length (pd_z_i dat), 2),
            (''U_i'', length (pd_running_commitments dat), 2), (''u_i'', length (pd_instance_commitments dat), 2)])) (\<lambda>_.
        case hash_hints_vk P (hints_verification_key lay) of
          None \<Rightarrow> None
        | Some vk_hash \<Rightarrow> Some (wraps_checks_of N boot dat vp vk_hash)))))"

section \<open>The limbs of a coordinate\<close>

fun le_nat :: "bytes \<Rightarrow> nat" where
  "le_nat [] = 0"
| "le_nat (b # bs) = unat b + 256 * le_nat bs"

lemma bit_le_nat: "bit (le_nat bs) k \<longleftrightarrow> (case get_at bs (k div 8) of Some b \<Rightarrow> bit b (k mod 8) | None \<Rightarrow> False)"
proof (induction bs arbitrary: k)
  case (Cons b bs)
  have hi: "\<not> bit (unat b) k" if "8 \<le> k" for k
    using that by (auto simp: bit_unsigned_iff dest: bit_imp_le_length)
  have "unat b + 256 * le_nat bs = unat b OR push_bit 8 (le_nat bs)"
  proof -
    have "unat b AND push_bit 8 (le_nat bs) = 0" by (rule bit_eqI) (auto simp: bit_simps dest: bit_imp_le_length)
    then show ?thesis by (simp add: disjunctive_add_eq_or [symmetric] push_bit_eq_mult mult.commute)
  qed
  then have split: "bit (le_nat (b # bs)) k \<longleftrightarrow> bit (unat b) k \<or> 8 \<le> k \<and> bit (le_nat bs) (k - 8)"
    by (auto simp: bit_simps)
  show ?case
  proof (cases "8 \<le> k")
    case True
    then have "k div 8 = Suc ((k - 8) div 8)" "k mod 8 = (k - 8) mod 8" by (simp_all add: le_div_geq le_mod_geq)
    with True split hi Cons.IH [of "k - 8"] show ?thesis by (simp add: get_at_def split: option.split)
  next
    case False
    with split show ?thesis by (simp add: get_at_def bit_simps)
  qed
qed (simp add: get_at_def)

lemma limb_bit_iff: "limb_bit bs i b \<longleftrightarrow> bit (le_nat bs) (i * 55 + b)"
  by (simp add: limb_bit_def bit_le_nat BITS_PER_LIMB_def Let_def bit_iff_and_drop_bit_eq_1 [symmetric]
      split: option.split)

lemma bit_limb_value: "bit (limb_value bs i) b \<longleftrightarrow> b < 55 \<and> bit (le_nat bs) (i * 55 + b)"
proof -
  have "n \<le> 55 \<Longrightarrow> bit (foldl (\<lambda>acc b. if limb_bit bs i b then acc OR push_bit b 1 else acc) (0 :: u64) [0..<n]) b \<longleftrightarrow>
    b < n \<and> bit (le_nat bs) (i * 55 + b)" for n
    by (induction n) (auto simp: bit_simps limb_bit_iff less_Suc_eq)
  from this [of 55] show ?thesis by (simp add: limb_value_def BITS_PER_LIMB_def)
qed

lemma unat_limb_value: "unat (limb_value bs i) = le_nat bs div 2 ^ (i * 55) mod 2 ^ 55"
proof -
  have "unat (limb_value bs i) = take_bit 55 (drop_bit (i * 55) (le_nat bs))"
    by (rule bit_eqI) (auto simp: bit_simps bit_limb_value dest: bit_imp_le_length)
  then show ?thesis by (simp add: take_bit_eq_mod drop_bit_eq_div)
qed

lemma digits_sum: "(\<Sum>i<k. 2 ^ (i * c) * (n div 2 ^ (i * c) mod 2 ^ c)) = n mod (2 ^ (k * c) :: nat)"
proof (induction k)
  case (Suc k)
  have "n mod (2 ^ (k * c) * 2 ^ c) = 2 ^ (k * c) * (n div 2 ^ (k * c) mod 2 ^ c) + n mod 2 ^ (k * c)"
    by (rule mod_mult2_eq)
  with Suc show ?case by (simp add: power_add add.commute mult.commute)
qed simp

lemma le_nat_less: "le_nat bs < 2 ^ (8 * length bs)"
proof (induction bs)
  case (Cons b bs)
  have "unat b < 256" using unsigned_less [of b, where ?'a = nat] by simp
  with Cons show ?case by (simp add: power_add)
qed simp

text \<open>C34. The limb encoding of a coordinate: five limbs below \<open>2 ^ 55\<close> whose weighted sum is the integer the
  bytes spell, for the 32 bytes of a coordinate and up to 34. So no two coordinates share an encoding.\<close>

theorem fq_to_limbs_reassemble:
  assumes "length (bn_fq_bytes_le N v) \<le> 34"
  shows "\<exists>limbs. fq_to_limbs N v = map (bn_fr_from_u64 N) limbs \<and> length limbs = 5 \<and>
    list_all (\<lambda>w. unat w < 2 ^ 55) limbs \<and>
    (\<Sum>i<5. 2 ^ (i * 55) * unat (limbs ! i)) = le_nat (bn_fq_bytes_le N v)"
proof -
  let ?bs = "bn_fq_bytes_le N v"
  let ?limbs = "map (limb_value ?bs) [0..<5]"
  have "le_nat ?bs < 2 ^ (8 * length ?bs)" by (rule le_nat_less)
  also have "\<dots> \<le> 2 ^ (5 * 55)" using assms by (intro power_increasing) simp_all
  finally have "(\<Sum>i<5. 2 ^ (i * 55) * unat (limb_value ?bs i)) = le_nat ?bs"
    unfolding unat_limb_value digits_sum by (rule mod_less)
  moreover have "(\<Sum>i<5. 2 ^ (i * 55) * unat (?limbs ! i)) = (\<Sum>i<5. 2 ^ (i * 55) * unat (limb_value ?bs i))"
    by (rule sum.cong) simp_all
  moreover have "list_all (\<lambda>w. unat w < 2 ^ 55) ?limbs" by (simp add: list_all_iff unat_limb_value)
  ultimately show ?thesis by (intro exI [of _ ?limbs]) (simp add: fq_to_limbs_def comp_def)
qed

section \<open>What an accepted proof satisfies\<close>

definition bn_laws :: "('fr::field, 'fq, 'g1::ab_group_add, 'g2::ab_group_add) bn254 \<Rightarrow> ('g1 \<Rightarrow> 'fr) \<Rightarrow> ('g2 \<Rightarrow> 'fr) \<Rightarrow> bool" where
  "bn_laws N lg1 lg2 \<longleftrightarrow> pairing_group (bn_g1_mul N) (bn_g2_mul N) (bn_pairing_is_one N) lg1 lg2"

lemmas bn_laws_simps = pairing_group_simps [OF bn_laws_def [THEN iffD1]]

lemma length_fixed_array: "deserialize_fixed_array rd n bytes = Inr (xs, rest) \<Longrightarrow> length xs = n"
  by (induction rd n bytes arbitrary: xs rest rule: deserialize_fixed_array.induct)
    (auto simp: rd_then_def and_then_eq_Inr_iff)

lemma rd_eth_proof_arrays:
  "rd_eth_proof N b = Inr (eth, rest) \<Longrightarrow> length (ep_kzg_proofs eth) = 2 \<and> length (ep_kzg_challenges eth) = 2"
  by (auto simp: rd_eth_proof_def rd_then_def and_then_eq_Inr_iff dest!: length_fixed_array)

lemma rd_proof_data_arrays:
  assumes "deserialize_exact (rd_proof_data N) bytes what = Inr dat"
  shows "length (ep_kzg_proofs (pd_eth_proof dat)) = 2" "length (ep_kzg_challenges (pd_eth_proof dat)) = 2"
proof -
  from assms obtain b rest where "rd_eth_proof N b = Inr (pd_eth_proof dat, rest)"
    by (auto simp: deserialize_exact_def rd_proof_data_def rd_then_def and_then_eq_Inr_iff map_err_eq_Inr_iff split: if_splits)
  from rd_eth_proof_arrays [OF this]
  show "length (ep_kzg_proofs (pd_eth_proof dat)) = 2" "length (ep_kzg_challenges (pd_eth_proof dat)) = 2" by simp_all
qed

lemma length_nonnative: "length (g1_to_nonnative N p) = 10"
  by (simp add: g1_to_nonnative_def fq_to_limbs_def split: prod.split)

lemma length_public_input:
  "length (pd_z_0 dat) = 2 \<Longrightarrow> length (pd_z_i dat) = 2 \<Longrightarrow> length (ep_kzg_challenges (pd_eth_proof dat)) = 2 \<Longrightarrow>
     length (public_input_of N vp dat w e) = PUBLIC_INPUT_LENGTH"
  by (simp add: public_input_of_def length_nonnative PUBLIC_INPUT_LENGTH_def)

lemma lg_prepared_input:
  assumes "bn_laws N lg1 lg2"
  shows "length xs = length cs \<Longrightarrow> lg1 (prepared_input N start xs cs) = lg1 start + sum_list (map2 (\<lambda>x c. x * lg1 c) xs cs)"
proof (induction xs cs arbitrary: start rule: list_induct2)
  case (Cons x xs c cs)
  then show ?case
    by (cases "x = 0") (simp_all add: prepared_input_def bn_laws_simps [OF assms] add.assoc)
qed (simp add: prepared_input_def)

lemma groth16_equation:
  assumes "bn_laws N lg1 lg2" "groth16_valid N xs a b c vp = Inr True"
  shows "\<exists>k0 ks. vp_gamma_abc_g1 vp = k0 # ks \<and> length ks = length xs \<and>
    lg1 a * lg2 b = lg1 (vp_alpha_g1 vp) * lg2 (vp_beta_g2 vp)
      + (lg1 k0 + sum_list (map2 (\<lambda>x k. x * lg1 k) xs ks)) * lg2 (vp_gamma_g2 vp) + lg1 c * lg2 (vp_delta_g2 vp)"
proof -
  from assms(2) obtain k0 ks where k: "vp_gamma_abc_g1 vp = k0 # ks" "length ks = length xs"
    by (cases "vp_gamma_abc_g1 vp") (auto simp: groth16_valid_def split: if_splits)
  with assms(2) have "lg1 a * lg2 b + (lg1 (prepared_input N k0 xs ks) * - lg2 (vp_gamma_g2 vp)
      + (lg1 c * - lg2 (vp_delta_g2 vp) + - lg1 (vp_alpha_g1 vp) * lg2 (vp_beta_g2 vp))) = 0"
    by (simp add: groth16_valid_def bn_laws_simps [OF assms(1)] Let_def)
  with k show ?thesis by (simp add: lg_prepared_input [OF assms(1)] algebra_simps)
qed

lemma kzg_equation:
  assumes "bn_laws N lg1 lg2"
  shows "kzg_valid N commitment challenge ev witness vp \<longleftrightarrow>
    (lg1 commitment - ev * lg1 (kv_g (vp_kzg_vk vp))) * lg2 (kv_h (vp_kzg_vk vp)) =
      lg1 witness * (lg2 (kv_beta_h (vp_kzg_vk vp)) - challenge * lg2 (kv_h (vp_kzg_vk vp)))"
  by (simp add: kzg_valid_def bn_laws_simps [OF assms] Let_def)

lemma verify_wraps_Inr:
  assumes "verify_wraps P N lay boot = Some (Inr c)"
  shows "\<exists>dat vp h. deserialize_exact (rd_proof_data N) (suffix_bytes lay) ''WRAPS proof'' = Inr dat \<and>
    deserialize_exact (rd_verifier_param N) (history_proof_verification_key boot) ''verifier param'' = Inr vp \<and>
    hash_hints_vk P (hints_verification_key lay) = Some h \<and>
    length (pd_z_0 dat) = 2 \<and> length (pd_z_i dat) = 2 \<and> wraps_checks_of N boot dat vp h = Inr c"
  using assms
  by (auto simp: verify_wraps_def and_then_panic_eq_Inr_iff split: if_splits option.splits)

text \<open>C7. A WRAPS proof that passes every check: the genesis state is the ledger id, the current state commits to
  the Poseidon hash of the hinTS key, at least two steps were folded, and over the 40 public inputs,
  which include the folded commitments, the Groth16 equation and the two KZG openings hold.\<close>

theorem verify_wraps_sound:
  assumes "bn_laws N lg1 lg2" "verify_wraps P N lay boot = Some (Inr c)" "all_passed c"
  shows "\<exists>dat vp h k0 ks cm_w cm_e xs.
    deserialize_exact (rd_proof_data N) (suffix_bytes lay) ''WRAPS proof'' = Inr dat \<and>
    deserialize_exact (rd_verifier_param N) (history_proof_verification_key boot) ''verifier param'' = Inr vp \<and>
    length (ledger_id boot) = 32 \<and> pd_z_0 dat ! 0 = bn_fr_from_le N (ledger_id boot) \<and>
    hash_hints_vk P (hints_verification_key lay) = Some h \<and> pd_z_i dat ! 1 = h \<and>
    1 < bn_fr_bigint N (pd_i dat) \<and> pd_instance_commitments dat ! 1 = 0 \<and>
    lg1 cm_w = lg1 (pd_running_commitments dat ! 0) + ep_r (pd_eth_proof dat) * lg1 (pd_instance_commitments dat ! 0) \<and>
    lg1 cm_e = lg1 (pd_running_commitments dat ! 1) + ep_r (pd_eth_proof dat) * lg1 (ep_cm_t (pd_eth_proof dat)) \<and>
    xs = public_input_of N vp dat cm_w cm_e \<and> length xs = 40 \<and>
    vp_gamma_abc_g1 vp = k0 # ks \<and> length ks = 40 \<and>
    lg1 (ep_a (pd_eth_proof dat)) * lg2 (ep_b (pd_eth_proof dat)) =
      lg1 (vp_alpha_g1 vp) * lg2 (vp_beta_g2 vp)
      + (lg1 k0 + sum_list (map2 (\<lambda>x k. x * lg1 k) xs ks)) * lg2 (vp_gamma_g2 vp)
      + lg1 (ep_c (pd_eth_proof dat)) * lg2 (vp_delta_g2 vp) \<and>
    (\<forall>j \<in> {0, 1}.
      (lg1 ([cm_w, cm_e] ! j) - ke_eval (ep_kzg_proofs (pd_eth_proof dat) ! j) * lg1 (kv_g (vp_kzg_vk vp)))
          * lg2 (kv_h (vp_kzg_vk vp)) =
        lg1 (ke_proof (ep_kzg_proofs (pd_eth_proof dat) ! j))
          * (lg2 (kv_beta_h (vp_kzg_vk vp)) - ep_kzg_challenges (pd_eth_proof dat) ! j * lg2 (kv_h (vp_kzg_vk vp))))"
proof -
  obtain dat vp h where d: "deserialize_exact (rd_proof_data N) (suffix_bytes lay) ''WRAPS proof'' = Inr dat"
    "deserialize_exact (rd_verifier_param N) (history_proof_verification_key boot) ''verifier param'' = Inr vp"
    "hash_hints_vk P (hints_verification_key lay) = Some h" "length (pd_z_0 dat) = 2" "length (pd_z_i dat) = 2"
    and chk: "wraps_checks_of N boot dat vp h = Inr c"
    using verify_wraps_Inr [OF assms(2)] by blast
  let ?eth = "pd_eth_proof dat"
  define cm_w where "cm_w = pd_running_commitments dat ! 0 + bn_g1_mul N (pd_instance_commitments dat ! 0) (ep_r ?eth)"
  define cm_e where "cm_e = pd_running_commitments dat ! 1 + bn_g1_mul N (ep_cm_t ?eth) (ep_r ?eth)"
  define xs where "xs = public_input_of N vp dat cm_w cm_e"
  have g: "groth16_valid N xs (ep_a ?eth) (ep_b ?eth) (ep_c ?eth) vp = Inr True"
    and state: "length (ledger_id boot) = 32" "pd_z_0 dat ! 0 = bn_fr_from_le N (ledger_id boot)" "pd_z_i dat ! 1 = h"
      "1 < bn_fr_bigint N (pd_i dat)" "pd_instance_commitments dat ! 1 = 0"
    and kzg: "kzg_valid N cm_w (ep_kzg_challenges ?eth ! 0) (ke_eval (ep_kzg_proofs ?eth ! 0)) (ke_proof (ep_kzg_proofs ?eth ! 0)) vp"
      "kzg_valid N cm_e (ep_kzg_challenges ?eth ! 1) (ke_eval (ep_kzg_proofs ?eth ! 1)) (ke_proof (ep_kzg_proofs ?eth ! 1)) vp"
    using chk assms(3) unfolding wraps_checks_of_def Let_def cm_w_def [symmetric] cm_e_def [symmetric] xs_def [symmetric]
    by (auto simp: and_then_eq_Inr_iff all_passed_def)
  have len: "length xs = 40"
    unfolding xs_def using length_public_input [OF d(4,5) rd_proof_data_arrays(2) [OF d(1)]] by (simp add: PUBLIC_INPUT_LENGTH_def)
  have cm: "lg1 cm_w = lg1 (pd_running_commitments dat ! 0) + ep_r ?eth * lg1 (pd_instance_commitments dat ! 0)"
    "lg1 cm_e = lg1 (pd_running_commitments dat ! 1) + ep_r ?eth * lg1 (ep_cm_t ?eth)"
    by (simp_all add: cm_w_def cm_e_def bn_laws_simps [OF assms(1)])
  from groth16_equation [OF assms(1) g] obtain k0 ks where ks: "vp_gamma_abc_g1 vp = k0 # ks" "length ks = length xs"
    "lg1 (ep_a ?eth) * lg2 (ep_b ?eth) = lg1 (vp_alpha_g1 vp) * lg2 (vp_beta_g2 vp)
      + (lg1 k0 + sum_list (map2 (\<lambda>x k. x * lg1 k) xs ks)) * lg2 (vp_gamma_g2 vp) + lg1 (ep_c ?eth) * lg2 (vp_delta_g2 vp)"
    by blast
  note kz = kzg [unfolded kzg_equation [OF assms(1)]]
  show ?thesis
    by (intro exI [of _ dat] exI [of _ vp] exI [of _ h] exI [of _ k0] exI [of _ ks] exI [of _ cm_w] exI [of _ cm_e]
        exI [of _ xs] conjI d(1-3) state cm ks(1,3) xs_def len) (use ks(2) len kz in simp_all)
qed

section \<open>A concrete instance\<close>

text \<open>Elements of the real widths, all zero; the vectors start with their length.\<close>

definition demo_bn :: "(gf2, gf2, gf2, gf2) bn254" where
  "demo_bn = \<lparr>rd_fr = (\<lambda>b. Inr (0, drop 32 b)), rd_g1 = (\<lambda>b. Inr (0, drop 32 b)), rd_g2 = (\<lambda>b. Inr (0, drop 64 b)),
     rd_fr_vec = (\<lambda>b. Inr (replicate (unat (hd b)) 0, drop (8 + 32 * unat (hd b)) b)),
     rd_g1_vec = (\<lambda>b. Inr (replicate (unat (hd b)) 0, drop (8 + 32 * unat (hd b)) b)),
     bn_fr_from_le = (\<lambda>b. 0), bn_fr_from_u64 = (\<lambda>w. if w = 0 then 0 else 1), bn_fr_bigint = (\<lambda>v. 2),
     bn_fq_bytes_le = (\<lambda>v. replicate 32 0), bn_g1_xy = (\<lambda>p. None), bn_g1_mul = (\<lambda>p s. s * p), bn_g2_mul = (\<lambda>p s. s * p),
     bn_pairing_is_one = (\<lambda>ps qs. sum_list (map2 (*) ps qs) = 0)\<rparr>"

definition demo_zero_sponge :: "(gf2, gf2) sponge_lib" where
  "demo_zero_sponge = \<lparr>modulus_bit_size = 254, find_poseidon_ark_and_mds = (\<lambda>_ _ _ _ _. ([], [])), sponge_new = (\<lambda>_. 0),
     absorb = (+), squeeze = (\<lambda>s n. replicate n 0), p_from_le = (\<lambda>b. 0), p_bytes_le = (\<lambda>p. replicate 32 0)\<rparr>"

definition demo_wraps :: proof_layout where
  "demo_wraps = \<lparr>path = WrapsCompressedProof, hints_verification_key = [], hints_signature = [],
     suffix_bytes = replicate 32 0 @ 2 # replicate 71 0 @ 2 # replicate 71 0 @ 2 # replicate 71 0 @ 2 # replicate 71 0
       @ replicate 384 0\<rparr>"

definition demo_anchor :: bootstrap where
  "demo_anchor = \<lparr>ledger_id = replicate 32 7,
     history_proof_verification_key = replicate 256 0 @ 41 # replicate 1319 0 @ replicate 192 0, node_contributions = []\<rparr>"

lemma bn_laws_demo: "bn_laws demo_bn (\<lambda>p. p) (\<lambda>q. q)"
  by (simp add: bn_laws_def pairing_group_def demo_bn_def)

lemma array2: "deserialize_fixed_array rd 2 b = rd_then rd b (\<lambda>x r. rd_then rd r (\<lambda>y r'. Inr ([x, y], r')))"
  by (simp add: numeral_2_eq_2 rd_then_def split_def and_then_def split: sum.split)

lemma replicate2: "replicate 2 x = [x, x]"
  by (simp add: numeral_2_eq_2)

lemma demo_proof_data:
  "\<exists>dat. deserialize_exact (rd_proof_data demo_bn) (suffix_bytes demo_wraps) ''WRAPS proof'' = Inr dat \<and>
     pd_z_0 dat = replicate 2 0 \<and> pd_z_i dat = replicate 2 0 \<and> pd_running_commitments dat = replicate 2 0 \<and>
     pd_instance_commitments dat = replicate 2 0 \<and> ep_a (pd_eth_proof dat) = 0 \<and> ep_c (pd_eth_proof dat) = 0 \<and>
     ep_cm_t (pd_eth_proof dat) = 0 \<and>
     ep_kzg_proofs (pd_eth_proof dat) = replicate 2 \<lparr>ke_eval = 0, ke_proof = 0\<rparr>"
  by (simp add: demo_wraps_def deserialize_exact_def rd_proof_data_def rd_eth_proof_def rd_kzg_eval_proof_def rd_then_def
      demo_bn_def array2 replicate2)

lemma demo_verifier_param:
  "\<exists>vp. deserialize_exact (rd_verifier_param demo_bn) (history_proof_verification_key demo_anchor) ''verifier param'' = Inr vp \<and>
     vp_alpha_g1 vp = 0 \<and> vp_gamma_g2 vp = 0 \<and> vp_delta_g2 vp = 0 \<and> vp_gamma_abc_g1 vp = replicate 41 0 \<and>
     kv_g (vp_kzg_vk vp) = 0 \<and> kv_h (vp_kzg_vk vp) = 0"
  by (simp add: demo_anchor_def deserialize_exact_def rd_verifier_param_def rd_kzg_verifier_key_def rd_then_def demo_bn_def)

lemma demo_wraps_accepted:
  "\<exists>c. verify_wraps demo_zero_sponge demo_bn demo_wraps demo_anchor = Some (Inr c) \<and> all_passed c"
proof -
  obtain dat where dat: "deserialize_exact (rd_proof_data demo_bn) (suffix_bytes demo_wraps) ''WRAPS proof'' = Inr dat"
    "pd_z_0 dat = replicate 2 0" "pd_z_i dat = replicate 2 0" "pd_running_commitments dat = replicate 2 0"
    "pd_instance_commitments dat = replicate 2 0" "ep_a (pd_eth_proof dat) = 0" "ep_c (pd_eth_proof dat) = 0"
    "ep_cm_t (pd_eth_proof dat) = 0" "ep_kzg_proofs (pd_eth_proof dat) = replicate 2 \<lparr>ke_eval = 0, ke_proof = 0\<rparr>"
    using demo_proof_data by blast
  obtain vp where vp: "deserialize_exact (rd_verifier_param demo_bn) (history_proof_verification_key demo_anchor) ''verifier param'' = Inr vp"
    "vp_alpha_g1 vp = 0" "vp_gamma_g2 vp = 0" "vp_delta_g2 vp = 0" "vp_gamma_abc_g1 vp = replicate 41 0"
    "kv_g (vp_kzg_vk vp) = 0" "kv_h (vp_kzg_vk vp) = 0"
    using demo_verifier_param by blast
  have hash: "hash_hints_vk demo_zero_sponge b = Some 0" for b
    by (simp add: hash_hints_vk_def poseidon_hash_def demo_zero_sponge_def get_at_def)
  have mul: "bn_g1_mul demo_bn p 0 = 0" "bn_g1_mul demo_bn 0 s = 0" "bn_g2_mul demo_bn 0 s = 0" for p s
    by (simp_all add: demo_bn_def)
  have "length (ep_kzg_challenges (pd_eth_proof dat)) = 2" by (rule rd_proof_data_arrays(2) [OF dat(1)])
  then have len: "length (public_input_of demo_bn vp dat w e) = 40" for w e
    using length_public_input [of dat demo_bn vp w e] dat(2,3) by (simp add: PUBLIC_INPUT_LENGTH_def)
  have pair: "bn_pairing_is_one demo_bn [0, x, 0, 0] [y, 0, 0, z]" "bn_pairing_is_one demo_bn [0, 0] [0, x]" for x y z
    by (simp_all add: demo_bn_def)
  have groth: "groth16_valid demo_bn (public_input_of demo_bn vp dat w e) 0 b 0 vp = Inr True" for w e b
    by (simp add: groth16_valid_def len vp pair Let_def)
  have kzg: "kzg_valid demo_bn 0 ch 0 0 vp" for ch by (simp add: kzg_valid_def vp mul pair Let_def)
  have state: "bn_fr_from_le demo_bn b = 0" "bn_fr_bigint demo_bn v = 2" for b v by (simp_all add: demo_bn_def)
  have "\<exists>c. wraps_checks_of demo_bn demo_anchor dat vp 0 = Inr c \<and> all_passed c"
    by (simp add: wraps_checks_of_def dat mul groth kzg state all_passed_def Let_def replicate2)
      (simp add: demo_anchor_def)
  moreover have "path demo_wraps = WrapsCompressedProof" "length (suffix_bytes demo_wraps) = 704"
    "length (history_proof_verification_key demo_anchor) = 1768"
    by (simp_all add: demo_wraps_def demo_anchor_def)
  ultimately show ?thesis
    by (simp add: verify_wraps_def SUFFIX_LENGTH_def VERIFIER_PARAM_LENGTH_def dat(1-5) vp(1) hash)
qed

lemma verify_wraps_sound_witness:
  "\<exists>c xs :: gf2 list. verify_wraps demo_zero_sponge demo_bn demo_wraps demo_anchor = Some (Inr c) \<and> length xs = 40"
proof -
  obtain c where c: "verify_wraps demo_zero_sponge demo_bn demo_wraps demo_anchor = Some (Inr c)" "all_passed c"
    using demo_wraps_accepted by blast
  from verify_wraps_sound [OF bn_laws_demo c] c(1) show ?thesis by blast
qed

lemma fq_to_limbs_reassemble_witness:
  "\<exists>limbs. fq_to_limbs (demo_bn\<lparr>bn_fq_bytes_le := \<lambda>v. [1, 2, 3]\<rparr>) 0 = map (bn_fr_from_u64 demo_bn) limbs \<and>
     (\<Sum>i<5. 2 ^ (i * 55) * unat (limbs ! i)) = 1 + 256 * (2 + 256 * 3)"
  using fq_to_limbs_reassemble [of "demo_bn\<lparr>bn_fq_bytes_le := \<lambda>v. [1, 2, 3]\<rparr>" 0] by fastforce

end
