(* ===== verification/Block_Proof.thy ===== *)
theory Block_Proof
  imports Hints Wraps
begin

text \<open>
  \<open>src/block/proof/mod.rs\<close>: the combined outcome of verifying a block's proof, and the verification of
  one transaction's inclusion in a signed block. The three verifiers are those of \<open>Hints\<close>, \<open>Schnorr\<close>
  and \<open>Wraps\<close>; their libraries are the arguments \<open>B\<close>, \<open>P\<close>, \<open>J\<close> and \<open>N\<close>. An outcome of \<open>None\<close> is a
  panic of one of them.
\<close>

record block_proof_verification =
  bpv_block_number :: u64
  bpv_hints :: hints_checks
  bpv_schnorr :: "schnorr_verification option"
  bpv_wraps :: "wraps_checks option"

definition is_none_or :: "'a option \<Rightarrow> ('a \<Rightarrow> bool) \<Rightarrow> bool" where
  "is_none_or x f = (case x of None \<Rightarrow> True | Some y \<Rightarrow> f y)"

definition valid :: "block_proof_verification \<Rightarrow> bool" where
  "valid v \<longleftrightarrow> Hints.all_passed (bpv_hints v) \<and> is_none_or (bpv_schnorr v) schnorr_valid \<and>
     is_none_or (bpv_wraps v) Wraps.all_passed"

definition verify_proof_over_root :: "bool \<Rightarrow>
    ('b::field, 'bq::zero, 'b1::ab_group_add, 'b2::ab_group_add) bls \<Rightarrow> ('n::zero, 's) sponge_lib \<Rightarrow>
    ('j, 'e::ab_group_add) jubjub \<Rightarrow> ('n, 'nq::zero, 'n1::ab_group_add, 'n2::ab_group_add) bn254 \<Rightarrow>
    block_proof_material \<Rightarrow> bootstrap \<Rightarrow> bytes \<Rightarrow> (error + block_proof_verification) option" where
  "verify_proof_over_root checks B P J N material boot block_root_bytes =
     and_then_panic (verify_hints checks B (layout material) block_root_bytes) (\<lambda>h.
     and_then_panic
       (case path (layout material) of
          AggregateSchnorr \<Rightarrow>
            and_then_panic (verify_schnorr P J (layout material) boot) (\<lambda>s. Some (Inr (Some s, None)))
        | WrapsCompressedProof \<Rightarrow>
            and_then_panic (verify_wraps P N (layout material) boot) (\<lambda>w. Some (Inr (None, Some w)))
        | Unknown_Path \<Rightarrow>
            Some (Inl (Proof (''unrecognized proof suffix of ''
              @ show_nat (length (suffix_bytes (layout material))) @ '' bytes''))))
       (\<lambda>(s, w). Some (Inr \<lparr>bpv_block_number = block_number material, bpv_hints = h, bpv_schnorr = s, bpv_wraps = w\<rparr>)))"

definition verify_block_proof :: "bool \<Rightarrow>
    ('b::field, 'bq::zero, 'b1::ab_group_add, 'b2::ab_group_add) bls \<Rightarrow> ('n::zero, 's) sponge_lib \<Rightarrow>
    ('j, 'e::ab_group_add) jubjub \<Rightarrow> ('n, 'nq::zero, 'n1::ab_group_add, 'n2::ab_group_add) bn254 \<Rightarrow>
    block_proof_material \<Rightarrow> bootstrap \<Rightarrow> (error + block_proof_verification) option" where
  "verify_block_proof checks B P J N material boot =
     verify_proof_over_root checks B P J N material boot (block_root material)"

definition witness_mismatch :: string where
  "witness_mismatch = ''inclusion witness does not recompute this block's root '' @ map char_of [0xe2 :: nat, 0x80, 0x94]
     @ '' the transaction is not in this block, or witness and proof material belong to different blocks''"

definition verify_inclusion :: "bool \<Rightarrow> (bytes \<Rightarrow> bytes) \<Rightarrow>
    ('b::field, 'bq::zero, 'b1::ab_group_add, 'b2::ab_group_add) bls \<Rightarrow> ('n::zero, 's) sponge_lib \<Rightarrow>
    ('j, 'e::ab_group_add) jubjub \<Rightarrow> ('n, 'nq::zero, 'n1::ab_group_add, 'n2::ab_group_add) bn254 \<Rightarrow>
    bytes \<Rightarrow> block_inclusion_witness \<Rightarrow> block_proof_material \<Rightarrow> bootstrap \<Rightarrow> (error + block_proof_verification) option" where
  "verify_inclusion checks sha B P J N tx_bytes w material boot =
     (let recomputed = recompute_block_root sha tx_bytes w
      in if recomputed \<noteq> block_root material then Some (Inl (Proof witness_mismatch))
         else verify_proof_over_root checks B P J N material boot recomputed)"

section \<open>What a valid outcome says\<close>

lemma verify_proof_over_root_Inr:
  assumes "verify_proof_over_root checks B P J N material boot r = Some (Inr v)"
  shows "verify_hints checks B (layout material) r = Some (Inr (bpv_hints v)) \<and> bpv_block_number v = block_number material \<and>
    (case path (layout material) of
       AggregateSchnorr \<Rightarrow> \<exists>s. verify_schnorr P J (layout material) boot = Some (Inr s) \<and> bpv_schnorr v = Some s \<and> bpv_wraps v = None
     | WrapsCompressedProof \<Rightarrow> \<exists>w. verify_wraps P N (layout material) boot = Some (Inr w) \<and> bpv_schnorr v = None \<and> bpv_wraps v = Some w
     | Unknown_Path \<Rightarrow> False)"
  using assms
  by (auto simp: verify_proof_over_root_def and_then_panic_eq_Inr_iff split: proof_path.splits)

text \<open>C8. A valid block proof has both halves: the hinTS signature over the block's root passes every check,
  and exactly one suffix, the one the layout names, was verified against the bootstrap and
  passed, so the missing suffix of the other scheme never counts as a success by default. A layout of unknown
  scheme is never accepted.\<close>

theorem valid_block_proof_sound:
  assumes "verify_block_proof checks B P J N material boot = Some (Inr v)" "valid v"
  shows "verify_hints checks B (layout material) (block_root material) = Some (Inr (bpv_hints v)) \<and>
    Hints.all_passed (bpv_hints v) \<and> bpv_block_number v = block_number material \<and>
    ((path (layout material) = AggregateSchnorr \<and>
        (\<exists>s. bpv_schnorr v = Some s \<and> bpv_wraps v = None \<and> verify_schnorr P J (layout material) boot = Some (Inr s) \<and> schnorr_valid s)) \<or>
     (path (layout material) = WrapsCompressedProof \<and>
        (\<exists>w. bpv_wraps v = Some w \<and> bpv_schnorr v = None \<and> verify_wraps P N (layout material) boot = Some (Inr w) \<and> Wraps.all_passed w)))"
  using verify_proof_over_root_Inr [OF assms(1) [unfolded verify_block_proof_def]] assms(2)
  by (auto simp: valid_def is_none_or_def split: proof_path.splits)

section \<open>Inclusion\<close>

lemma verify_inclusion_eq:
  "verify_inclusion checks sha B P J N tx w material boot =
     (if recompute_block_root sha tx w = block_root material then verify_block_proof checks B P J N material boot
      else Some (Inl (Proof witness_mismatch)))"
  by (simp add: verify_inclusion_def verify_block_proof_def Let_def)

text \<open>C2. From one block's bytes to the verdict: the witness and the material extracted from the same
  block fit, so the inclusion check of each of its transactions ends as the block's own proof does.\<close>

theorem inclusion_ends_as_block_proof:
  assumes "oneof_law E" "inflate E bytes = Inr raw" "length raw < 2 ^ 64"
    and "extract_proof_material E bytes = Some (Inr material)"
    and "block_inclusion_witness E bytes i = Some (Inr (tx, w))"
  shows "verify_inclusion checks (sha384 E) B P J N tx w material boot = verify_block_proof checks B P J N material boot"
  using inclusion_recomputes [OF assms] by (simp add: verify_inclusion_eq)

section \<open>A concrete instance\<close>

definition demo_signed :: "bytes \<Rightarrow> block_proof_material" where
  "demo_signed r = \<lparr>block_number = 7, block_root = r, previous_block_root = [],
     layout = demo_layout\<lparr>suffix_bytes := suffix_bytes demo_schnorr\<rparr>, material_bootstrap = None\<rparr>"

lemma demo_schnorr_part:
  "verify_schnorr demo_zero_sponge demo_jubjub (layout (demo_signed r)) demo_book =
     Some (Inr \<lparr>schnorr_valid = True, signer_count = 1, total_nodes = 2\<rparr>)"
proof -
  have "\<exists>m. rotation_message demo_zero_sponge (layout (demo_signed r)) demo_book = Some m"
    by (simp add: rotation_message_def hash_hints_vk_def poseidon_hash_def get_at_def demo_zero_sponge_def Let_def)
  then obtain m where "rotation_message demo_zero_sponge (layout (demo_signed r)) demo_book = Some m" by blast
  with demo_signers show ?thesis
    by (simp add: verify_schnorr_def Schnorr.SUFFIX_LENGTH_def BITVECTOR_LENGTH_def demo_signed_def demo_layout_def Let_def)
      (simp add: demo_schnorr_def demo_book_def schnorr_challenge_def demo_jubjub_def slice_def)
qed

lemma demo_block_proof:
  "\<exists>v. verify_block_proof True demo_bls demo_zero_sponge demo_jubjub demo_bn (demo_signed r) demo_book = Some (Inr v) \<and> valid v"
proof -
  obtain c where c: "verify_hints True demo_bls demo_layout r = Some (Inr c)" "Hints.all_passed c"
    using demo_accepted by blast
  then have "verify_hints True demo_bls (layout (demo_signed r)) r = Some (Inr c)"
    by (simp add: verify_hints_def demo_signed_def)
  with c(2) demo_schnorr_part [of r] show ?thesis
    by (simp add: verify_block_proof_def verify_proof_over_root_def valid_def is_none_or_def)
      (simp add: demo_signed_def demo_layout_def)
qed

lemma valid_block_proof_sound_witness:
  "\<exists>v s. verify_block_proof True demo_bls demo_zero_sponge demo_jubjub demo_bn (demo_signed [1]) demo_book = Some (Inr v) \<and>
     bpv_schnorr v = Some s \<and> schnorr_valid s \<and> bpv_wraps v = None"
proof -
  obtain v where v: "verify_block_proof True demo_bls demo_zero_sponge demo_jubjub demo_bn (demo_signed [1]) demo_book = Some (Inr v)" "valid v"
    using demo_block_proof by blast
  have "path (layout (demo_signed [1])) = AggregateSchnorr" by (simp add: demo_signed_def demo_layout_def)
  with valid_block_proof_sound [OF v] v(1) show ?thesis by auto
qed

lemma inclusion_ends_as_block_proof_witness:
  "\<exists>m w. extract_proof_material demo_env demo_block = Some (Inr m) \<and>
     verify_inclusion True (sha384 demo_env) demo_bls demo_zero_sponge demo_jubjub demo_bn [0x22, 1, 5] w m demo_book =
     verify_block_proof True demo_bls demo_zero_sponge demo_jubjub demo_bn m demo_book"
proof -
  obtain m where m: "extract_proof_material demo_env demo_block = Some (Inr m)" using demo_extract by blast
  obtain w where w: "block_inclusion_witness demo_env demo_block 0 = Some (Inr ([0x22, 1, 5], w))" using demo_inclusion by blast
  have "length demo_block < 2 ^ 64" by (simp add: demo_block_bytes)
  from inclusion_ends_as_block_proof [OF oneof_law_demo demo_block_inflate this m w] m show ?thesis by blast
qed

end
