(* ===== verification/Json.thy ===== *)
theory Json
  imports Record_Parse Block_Parse Block_Proof
begin

text \<open>
  The canonical JSON shape, \<open>src/json.rs\<close>, for transactions, record files, blocks and
  the outcome of a block proof (\<open>hex\<close> is \<open>hex::encode\<close>). A
  \<open>serde_json::Value\<close> is a datatype here, an object the list of its members as the \<open>json!\<close> macro
  gives them (their names are distinct). The shape loses nothing of a transaction: the two
  sides of an NFT leg, the 64-bit numbers printed as strings and the tokens printed as text are all
  recovered from it.
\<close>

datatype json =
    Null
  | Bool bool
  | Number int
  | String string
  | Array "json list"
  | Object "(string \<times> json) list"

section \<open>The values\<close>

definition transfer_value :: "transfer_leg \<Rightarrow> json" where
  "transfer_value l = Object
     [(''account'', String (leg_account l)),
      (''amount'', String (show_int (leg_amount l)))]"

definition token_transfer_value :: "token_transfer_leg \<Rightarrow> json" where
  "token_transfer_value l = Object
     [(''token'', String (ttleg_token l)),
      (''account'', String (ttleg_account l)),
      (''amount'', String (show_int (ttleg_amount l)))]"

definition side_text :: "account_id option \<Rightarrow> string" where
  "side_text a = (case a of Some acc \<Rightarrow> fmt_account_id acc | None \<Rightarrow> [])"

definition nft_value :: "nft_transfer \<Rightarrow> json" where
  "nft_value l = Object
     [(''sender'', String (side_text (sender l))),
      (''receiver'', String (side_text (receiver l))),
      (''token'', String (fmt_token_id (token l))),
      (''serialNumber'', String (show_int (serial_number l))),
      (''isApproval'', Bool (is_approval l))]"

definition transaction_value :: "parsed_transaction \<Rightarrow> json" where
  "transaction_value t = Object
     [(''consensusTimestamp'', String (consensus_timestamp t)),
      (''day'', String (day t)),
      (''payer'', String (payer t)),
      (''transactionId'', String (transaction_id t)),
      (''type'', String (tx_type t)),
      (''resultCode'', Number (result_code t)),
      (''result'', String (result_name t)),
      (''chargedFeeTinybar'', String (show_u64 (charged_fee_tinybar t))),
      (''transfers'', Array (map transfer_value (transfers t))),
      (''tokenTransfers'', Array (map token_transfer_value (token_transfers t))),
      (''nftTransfers'', Array (map nft_value (nft_transfers t)))]"

definition block_to_json_value :: "parsed_block \<Rightarrow> json" where
  "block_to_json_value b = Object
     [(''format'', String ''block-stream''),
      (''blockNumber'', String (show_u64 (pb_block_number b))),
      (''hapiVersion'', String (pb_hapi_version b)),
      (''rounds'', Array (map (\<lambda>r. String (show_u64 r)) (rounds b))),
      (''transactions'', Array (map transaction_value (pb_transactions b)))]"

definition record_file_to_json_value :: "parsed_record_file \<Rightarrow> json" where
  "record_file_to_json_value f = Object
     [(''version'', Number (prf_version f)),
      (''blockNumber'', String (show_int (prf_block_number f))),
      (''hapiVersion'', String (prf_hapi_version f)),
      (''transactions'', Array (map transaction_value (prf_transactions f)))]"

definition hints_value :: "hints_checks \<Rightarrow> json" where
  "hints_value h = Object
     [(''thresholdMet'', Bool (threshold_met h)),
      (''blsSignatureValid'', Bool (bls_signature_valid h)),
      (''mergedKzgValid'', Bool (merged_kzg_valid h)),
      (''parsumKzgValid'', Bool (parsum_kzg_valid h)),
      (''bSkIdentityValid'', Bool (b_sk_identity_valid h)),
      (''parsumAccumulationValid'', Bool (parsum_accumulation_valid h)),
      (''parsumConstraintValid'', Bool (parsum_constraint_valid h)),
      (''bitmapWellFormednessValid'', Bool (bitmap_well_formedness_valid h)),
      (''bitmapConstraintValid'', Bool (bitmap_constraint_valid h)),
      (''degreeCheckValid'', Bool (degree_check_valid h))]"

definition schnorr_value :: "schnorr_verification \<Rightarrow> json" where
  "schnorr_value s = Object
     [(''valid'', Bool (schnorr_valid s)),
      (''signerCount'', Number (int (signer_count s))),
      (''totalNodes'', Number (int (total_nodes s)))]"

definition wraps_value :: "wraps_checks \<Rightarrow> json" where
  "wraps_value w = Object
     [(''ledgerIdMatch'', Bool (ledger_id_match w)),
      (''hintsVkHashMatch'', Bool (hints_vk_hash_match w)),
      (''iterationGuard'', Bool (iteration_guard w)),
      (''uCmEIsZero'', Bool (u_cm_e_is_zero w)),
      (''groth16Valid'', Bool (groth16_ok w)),
      (''kzg0Valid'', Bool (kzg0_ok w)),
      (''kzg1Valid'', Bool (kzg1_ok w))]"

definition option_value :: "('a \<Rightarrow> json) \<Rightarrow> 'a option \<Rightarrow> json" where
  "option_value f x = (case x of None \<Rightarrow> Null | Some y \<Rightarrow> f y)"

definition block_proof_to_json_value :: "(bytes \<Rightarrow> string) \<Rightarrow> block_proof_material \<Rightarrow> bytes \<Rightarrow> block_proof_verification \<Rightarrow> json" where
  "block_proof_to_json_value hex material ledger verification = Object
     [(''blockNumber'', Number (int (unat (block_number material)))),
      (''blockRoot'', String (hex (block_root material))),
      (''ledgerId'', String (hex ledger)),
      (''proofPath'', String (case path (layout material) of
          AggregateSchnorr \<Rightarrow> ''aggregate-schnorr''
        | WrapsCompressedProof \<Rightarrow> ''wraps-compressed-proof''
        | Unknown_Path \<Rightarrow> ''unknown'')),
      (''hints'', hints_value (bpv_hints verification)),
      (''schnorr'', option_value schnorr_value (bpv_schnorr verification)),
      (''wraps'', option_value wraps_value (bpv_wraps verification)),
      (''valid'', Bool (valid verification)),
      (''meaning'', String (if valid verification then
         ''the network's threshold signature covers exactly this block's recomputed merkle root, anchored to the ledger ID''
        else ''proof INVALID for the locally recomputed block root''))]"

section \<open>Nothing is lost\<close>

lemma show_u64_inject [simp]: "show_u64 a = show_u64 b \<longleftrightarrow> a = b"
  by (metis option.inject parse_u64_show_u64)

lemma fmt_account_id_not_Nil [simp]: "fmt_account_id a \<noteq> []"
  by (simp add: fmt_account_id_def dotted_def)

lemma side_text_inject: "side_text a = side_text b \<longleftrightarrow> a = b"
  by (cases a; cases b) (auto simp: side_text_def fmt_account_id_inject dest: sym)

lemma transfer_value_inject: "transfer_value a = transfer_value b \<Longrightarrow> a = b"
  by (simp add: transfer_value_def transfer_leg.equality)

lemma token_transfer_value_inject: "token_transfer_value a = token_transfer_value b \<Longrightarrow> a = b"
  by (simp add: token_transfer_value_def token_transfer_leg.equality)

lemma nft_value_inject: "nft_value a = nft_value b \<Longrightarrow> a = b"
  by (simp add: nft_value_def side_text_inject fmt_token_id_inject nft_transfer.equality)

lemma map_injectI: "(\<And>a b. f a = f b \<Longrightarrow> a = b) \<Longrightarrow> map f xs = map f ys \<longleftrightarrow> xs = ys"
  by (rule inj_map_eq_map) (rule injI)

lemma transaction_value_inject: "transaction_value t = transaction_value u \<Longrightarrow> t = u"
  by (simp add: transaction_value_def map_injectI [OF transfer_value_inject]
      map_injectI [OF token_transfer_value_inject] map_injectI [OF nft_value_inject] parsed_transaction.equality)

lemma rounds_inject: "map (\<lambda>r. String (show_u64 r)) xs = map (\<lambda>r. String (show_u64 r)) ys \<longleftrightarrow> xs = ys"
  by (rule map_injectI) simp

lemma block_to_json_value_inject: "block_to_json_value b = block_to_json_value c \<Longrightarrow> b = c"
  by (simp add: block_to_json_value_def map_injectI [OF transaction_value_inject]
      rounds_inject parsed_block.equality)

lemma hints_value_inject: "hints_value a = hints_value b \<Longrightarrow> a = b"
  by (simp add: hints_value_def hints_checks.equality)

lemma schnorr_value_inject: "schnorr_value a = schnorr_value b \<Longrightarrow> a = b"
  by (simp add: schnorr_value_def schnorr_verification.equality)

lemma wraps_value_inject: "wraps_value a = wraps_value b \<Longrightarrow> a = b"
  by (simp add: wraps_value_def wraps_checks.equality)

lemma schnorr_value_not_Null: "schnorr_value s \<noteq> Null"
  by (simp add: schnorr_value_def)

lemma wraps_value_not_Null: "wraps_value w \<noteq> Null"
  by (simp add: wraps_value_def)

lemma option_value_inject:
  "(\<And>a b. f a = f b \<Longrightarrow> a = b) \<Longrightarrow> (\<And>a. f a \<noteq> Null) \<Longrightarrow> option_value f x = option_value f y \<Longrightarrow> x = y"
  by (cases x; cases y) (auto simp: option_value_def dest: sym)

lemma block_proof_to_json_value_inject:
  assumes "block_proof_to_json_value hex m l v = block_proof_to_json_value hex m l u"
  shows "v\<lparr>bpv_block_number := k\<rparr> = u\<lparr>bpv_block_number := k\<rparr>"
proof -
  have "bpv_hints v = bpv_hints u" "bpv_schnorr v = bpv_schnorr u" "bpv_wraps v = bpv_wraps u"
    using assms
      option_value_inject [of schnorr_value "bpv_schnorr v" "bpv_schnorr u", OF schnorr_value_inject]
      option_value_inject [of wraps_value "bpv_wraps v" "bpv_wraps u", OF wraps_value_inject]
    by (auto simp: block_proof_to_json_value_def schnorr_value_not_Null wraps_value_not_Null dest: hints_value_inject)
  then show ?thesis by (cases v; cases u) simp
qed

section \<open>The theorems\<close>

text \<open>C32. The canonical JSON loses nothing: two transactions, and two blocks, with the same JSON value are
  equal, and two record files with the same value agree in everything but the running hashes,
  which are not part of the shape. Two outcomes of one block's proof with the same value agree in every
  check.\<close>

theorem canonical_json_lossless:
  "(transaction_value t = transaction_value u \<longleftrightarrow> t = u) \<and>
   (block_to_json_value b = block_to_json_value c \<longleftrightarrow> b = c) \<and>
   (record_file_to_json_value f = record_file_to_json_value g \<longleftrightarrow>
     f = g\<lparr>start_running_hash := start_running_hash f, end_running_hash := end_running_hash f\<rparr>) \<and>
   (block_proof_to_json_value hex m l v = block_proof_to_json_value hex m l w \<longleftrightarrow>
     v\<lparr>bpv_block_number := k\<rparr> = w\<lparr>bpv_block_number := k\<rparr>)"
proof (intro conjI)
  show "transaction_value t = transaction_value u \<longleftrightarrow> t = u" using transaction_value_inject by blast
  show "block_to_json_value b = block_to_json_value c \<longleftrightarrow> b = c" using block_to_json_value_inject by blast
  show "record_file_to_json_value f = record_file_to_json_value g \<longleftrightarrow>
     f = g\<lparr>start_running_hash := start_running_hash f, end_running_hash := end_running_hash f\<rparr>"
    by (cases f; cases g) (auto simp: record_file_to_json_value_def map_injectI [OF transaction_value_inject])
  have "block_proof_to_json_value hex m l (x\<lparr>bpv_block_number := k\<rparr>) = block_proof_to_json_value hex m l x" for x
    by (simp add: block_proof_to_json_value_def valid_def)
  then show "block_proof_to_json_value hex m l v = block_proof_to_json_value hex m l w \<longleftrightarrow>
     v\<lparr>bpv_block_number := k\<rparr> = w\<lparr>bpv_block_number := k\<rparr>"
    using block_proof_to_json_value_inject by metis
qed

end
