(* ===== verification/Sentinel.thy ===== *)
theory Sentinel
  imports Cli_Args Chain Json
begin

text \<open>
  \<open>src/cli/sentinel.rs\<close>: the continuous verification of the live block stream. The state file, the sources
  of blocks (the bucket over HTTP, or a directory), the search for the newest block, the window of a
  run, the fetch in batches and the check of one block. HTTP, files, the environment and the clock are
  the fields of \<open>sentinel_env\<close>; an error is its message, \<open>None\<close> a panic. Arithmetic that the code
  leaves unchecked panics or wraps with the build (\<open>checks\<close>).
\<close>

section \<open>The state file\<close>

record state =
  comment :: string
  initialized :: bool
  last_block :: "u64 option"
  last_root :: "string option"
  known_path :: "string option"
  known_bytes :: "nat option"
  verified_total :: "u64 option"
  since :: "string option"
  checked :: "string option"

text \<open>\<open>v[key]\<close>, and the conversions of \<open>serde_json::Value\<close>.\<close>

definition json_get :: "json \<Rightarrow> string \<Rightarrow> json" where
  "json_get v key = (case v of Object ms \<Rightarrow> (case map_of ms key of Some x \<Rightarrow> x | None \<Rightarrow> Null) | _ \<Rightarrow> Null)"

definition as_str :: "json \<Rightarrow> string option" where
  "as_str v = (case v of String s \<Rightarrow> Some s | _ \<Rightarrow> None)"

definition as_bool :: "json \<Rightarrow> bool option" where
  "as_bool v = (case v of Bool b \<Rightarrow> Some b | _ \<Rightarrow> None)"

definition as_u64 :: "json \<Rightarrow> u64 option" where
  "as_u64 v = (case v of Number n \<Rightarrow> if 0 \<le> n \<and> n < 2 ^ 64 then Some (of_int n) else None | _ \<Rightarrow> None)"

definition load :: "json \<Rightarrow> state" where
  "load v = \<lparr>
     comment = (case as_str (json_get v ''_comment'') of Some s \<Rightarrow> s | None \<Rightarrow> []),
     initialized = (case as_bool (json_get v ''initialized'') of Some b \<Rightarrow> b | None \<Rightarrow> False),
     last_block = as_u64 (json_get v ''lastBlock''),
     last_root = as_str (json_get v ''lastRoot''),
     known_path = as_str (json_get v ''proofPath''),
     known_bytes = map_option unat (as_u64 (json_get v ''signatureBytes'')),
     verified_total = as_u64 (json_get v ''verifiedTotal''),
     since = as_str (json_get v ''since''),
     checked = as_str (json_get v ''checked'')\<rparr>"

definition save :: "state \<Rightarrow> json" where
  "save s = Object
     [(''_comment'', String (comment s)),
      (''initialized'', Bool (initialized s)),
      (''lastBlock'', option_value (\<lambda>n. Number (int (unat n))) (last_block s)),
      (''lastRoot'', option_value String (last_root s)),
      (''proofPath'', option_value String (known_path s)),
      (''signatureBytes'', option_value (\<lambda>n. Number (int n)) (known_bytes s)),
      (''verifiedTotal'', option_value (\<lambda>n. Number (int (unat n))) (verified_total s)),
      (''since'', option_value String (since s)),
      (''checked'', option_value String (checked s))]"

section \<open>Sources\<close>

datatype http_response = Http_Body "string + bytes" | Http_Status nat string | Http_Transport string

text \<open>\<open>ureq_get url authorization\<close>: a response with its body (or the error of reading it), a status
  error, or a transport error; the strings are the messages. \<open>read_state\<close> is \<open>read_to_string\<close> and \<open>from_str\<close>,
  \<open>gcloud\<close> the
  error of starting the command, or its success and its trimmed output (or the error that it is no text);
  \<open>unix_seconds\<close> the clock, absent before 1970.\<close>

record sentinel_env =
  ureq_get :: "string \<Rightarrow> string \<Rightarrow> http_response"
  read_dir_names :: "string \<Rightarrow> string + string list"
  path_exists :: "string \<Rightarrow> bool"
  read_path :: "string \<Rightarrow> string + bytes"
  env_var :: "string \<Rightarrow> string option"
  gcloud :: "string + bool \<times> (string + string)"
  read_state :: "string \<Rightarrow> string + json"
  write_state :: "string \<Rightarrow> json \<Rightarrow> string + unit"
  unix_seconds :: "u64 option"

datatype source = Gcs string string | Local string

definition OBJECTS :: string where
  "OBJECTS = ''https://storage.googleapis.com/storage/v1/b/hedera-mainnet-streams/o''"

definition PREFIX :: string where "PREFIX = ''block-preview/mainnet/0/0''"
definition DEFAULT_MAX_BLOCKS :: u64 where "DEFAULT_MAX_BLOCKS = 25000"
definition FETCH_BATCH :: u64 where "FETCH_BATCH = 32"

fun replace_slash :: "string \<Rightarrow> string" where
  "replace_slash [] = []"
| "replace_slash (c # cs) = (if c = CHR ''/'' then ''%2F'' else [c]) @ replace_slash cs"

definition object_url :: "u64 \<Rightarrow> string \<Rightarrow> bool \<Rightarrow> string" where
  "object_url n project media =
     (let object = replace_slash (PREFIX @ ''/'' @ show_nat_pad 36 (unat n) @ ''.blk.gz'');
          alt = (if media then ''alt=media&'' else [])
      in OBJECTS @ ''/'' @ object @ ''?'' @ alt @ ''userProject='' @ project)"

definition local_path :: "string \<Rightarrow> u64 \<Rightarrow> string" where
  "local_path dir n = dir @ ''/'' @ show_u64 n @ ''.blk.gz''"

fun block_exists :: "sentinel_env \<Rightarrow> source \<Rightarrow> u64 \<Rightarrow> string + bool" where
  "block_exists V (Local dir) n = Inr (path_exists V (local_path dir n))"
| "block_exists V (Gcs project tok) n =
     (case ureq_get V (object_url n project False) (''Bearer '' @ tok) of
        Http_Body _ \<Rightarrow> Inr True
      | Http_Status code e \<Rightarrow>
          if code = 404 then Inr False else Inl (''probe for block '' @ show_u64 n @ '' failed: '' @ e)
      | Http_Transport e \<Rightarrow> Inl (''probe for block '' @ show_u64 n @ '' failed: '' @ e))"

fun fetch :: "sentinel_env \<Rightarrow> source \<Rightarrow> u64 \<Rightarrow> string + bytes" where
  "fetch V (Local dir) n =
     map_err (\<lambda>e. ''gap: block '' @ show_u64 n @ '' missing from '' @ dir @ '' ('' @ e @ '')'') (read_path V (local_path dir n))"
| "fetch V (Gcs project tok) n =
     (case ureq_get V (object_url n project True) (''Bearer '' @ tok) of
        Http_Body body \<Rightarrow> map_err (\<lambda>e. ''gap: reading block '' @ show_u64 n @ '' failed ('' @ e @ '')'') body
      | Http_Status _ e \<Rightarrow> Inl (''gap: fetching block '' @ show_u64 n @ '' failed ('' @ e @ '')'')
      | Http_Transport e \<Rightarrow> Inl (''gap: fetching block '' @ show_u64 n @ '' failed ('' @ e @ '')''))"

section \<open>The newest block\<close>

text \<open>
  The probe that grows until a block is missing. The loop of the code has no bound of its own, so it
  takes fuel here, and \<open>None\<close> is a panic or fuel that ran out; \<open>newest_search_correct\<close> says when 27 steps are
  enough. With wrapping arithmetic \<open>step\<close> becomes zero after 27 steps, and a bucket that
  answers every probe with yes keeps the loop running for ever.
\<close>

fun expand :: "bool \<Rightarrow> (u64 \<Rightarrow> string + bool) \<Rightarrow> nat \<Rightarrow> u64 \<Rightarrow> u64 \<Rightarrow> u64 \<Rightarrow> (string + u64 \<times> u64) option" where
  "expand checks probe 0 lo step hi = None"
| "expand checks probe (Suc fuel) lo step hi =
     and_then_panic (Some (probe hi)) (\<lambda>there.
       if there then
         (case build_mul checks step 4 of
            None \<Rightarrow> None
          | Some step' \<Rightarrow>
              (case build_add checks hi step' of
                 None \<Rightarrow> None
               | Some hi' \<Rightarrow> expand checks probe fuel hi step' hi'))
       else Some (Inr (lo, hi)))"

lemma bisect_halves:
  fixes lo hi :: u64
  assumes "hi - lo > 1"
  shows "unat (hi - (lo + (hi - lo) div 2)) < unat (hi - lo)" "unat ((hi - lo) div 2) < unat (hi - lo)"
proof -
  define d where "d = hi - lo"
  have d: "1 < unat d" using assms by (simp add: d_def word_less_nat_alt)
  have half: "unat (d div 2) = unat d div 2" by (simp add: unat_div)
  then have sub: "unat (d - d div 2) = unat d - unat d div 2" by (simp add: unat_sub word_le_nat_alt)
  have e: "hi - (lo + (hi - lo) div 2) = d - d div 2" by (simp add: d_def)
  show "unat (hi - (lo + (hi - lo) div 2)) < unat (hi - lo)"
    unfolding e unfolding d_def [symmetric] sub using d by simp
  show "unat ((hi - lo) div 2) < unat (hi - lo)" unfolding d_def [symmetric] using d half by simp
qed

text \<open>The binary search between a block that is there and one that is not.\<close>

function bisect :: "(u64 \<Rightarrow> string + bool) \<Rightarrow> u64 \<Rightarrow> u64 \<Rightarrow> string + u64" where
  "bisect probe lo hi =
     (if hi - lo > 1 then
        let mid = lo + (hi - lo) div 2
        in (case probe mid of
              Inl e \<Rightarrow> Inl e
            | Inr there \<Rightarrow> if there then bisect probe mid hi else bisect probe lo mid)
      else Inr lo)"
  by pat_completeness auto

termination
  by (relation "measure (\<lambda>(probe, lo, hi). unat (hi - lo))") (simp_all add: bisect_halves)

declare bisect.simps [simp del]

text \<open>The maximum of the numeric names.\<close>

definition numeric_names :: "string list \<Rightarrow> u64 list" where
  "numeric_names names = filter_map (\<lambda>name. Option.bind (strip_suffix name ''.blk.gz'') parse_u64) names"

fun newest :: "nat \<Rightarrow> bool \<Rightarrow> sentinel_env \<Rightarrow> source \<Rightarrow> u64 \<Rightarrow> (string + u64) option" where
  "newest fuel checks V (Local dir) floor_block =
     Some (and_then (read_dir_names V dir) (\<lambda>names.
       if numeric_names names = [] then Inl ''no .blk.gz files in --local-dir''
       else Inr (Max (set (numeric_names names)))))"
| "newest fuel checks V (Gcs project tok) floor_block =
     and_then_panic (Some (block_exists V (Gcs project tok) floor_block)) (\<lambda>there.
       if \<not> there then
         Some (Inl (''block '' @ show_u64 floor_block @ '' (search floor) is missing from the bucket '' @ em_dash
                    @ '' retention passed us, or the layout moved''))
       else
         (case build_add checks floor_block 1024 of
            None \<Rightarrow> None
          | Some hi \<Rightarrow>
              and_then_panic (expand checks (block_exists V (Gcs project tok)) fuel floor_block 1024 hi) (\<lambda>(lo, hi').
                Some (bisect (block_exists V (Gcs project tok)) lo hi'))))"

section \<open>What the search finds\<close>

lemma expand_boundary:
  "expand checks probe fuel lo step hi = Some (Inr (l, h)) \<Longrightarrow> probe lo = Inr True \<Longrightarrow>
     probe l = Inr True \<and> probe h = Inr False"
  by (induction checks probe fuel lo step hi rule: expand.induct)
    (auto simp: and_then_panic_eq_Inr_iff split: if_splits option.splits)

lemma bisect_boundary:
  "bisect probe lo hi = Inr r \<Longrightarrow> probe lo = Inr True \<Longrightarrow> probe hi = Inr False \<Longrightarrow>
     probe r = Inr True \<and> probe (r + 1) = Inr False"
proof (induction probe lo hi rule: bisect.induct)
  case (1 probe lo hi)
  show ?case
  proof (cases "hi - lo > 1")
    case True
    let ?mid = "lo + (hi - lo) div 2"
    from 1(3) True obtain there where mid: "probe ?mid = Inr there"
      by (auto simp: bisect.simps [of probe lo hi] Let_def split: sum.splits)
    show ?thesis
    proof (cases there)
      case True
      with \<open>hi - lo > 1\<close> mid 1(3) have "bisect probe ?mid hi = Inr r"
        by (simp add: bisect.simps [of probe lo hi] Let_def)
      with 1(1) [OF \<open>hi - lo > 1\<close> refl mid True] mid True 1(5) show ?thesis by simp
    next
      case False
      with \<open>hi - lo > 1\<close> mid 1(3) have "bisect probe lo ?mid = Inr r"
        by (simp add: bisect.simps [of probe lo hi] Let_def)
      with 1(2) [OF \<open>hi - lo > 1\<close> refl mid False] mid False 1(4) show ?thesis by simp
    qed
  next
    case False
    then have "unat (hi - lo) \<le> 1" by (simp add: word_less_nat_alt)
    moreover have "hi \<noteq> lo" using 1(4,5) by auto
    then have "unat (hi - lo) \<noteq> 0" by (simp add: unat_eq_0)
    ultimately have "hi - lo = 1" by (simp add: word_unat_eq_iff)
    then have "hi = lo + 1" by (simp add: diff_eq_eq add.commute)
    with 1(3-5) show ?thesis by (simp add: bisect.simps [of probe lo "lo + 1"])
  qed
qed

lemma newest_Gcs_Inr:
  assumes "newest fuel checks V (Gcs project tok) floor_block = Some (Inr r)"
  shows "block_exists V (Gcs project tok) r = Inr True \<and> block_exists V (Gcs project tok) (r + 1) = Inr False"
proof -
  let ?probe = "block_exists V (Gcs project tok)"
  obtain there where there: "?probe floor_block = Inr there"
    using assms by (cases "?probe floor_block") (simp_all del: block_exists.simps)
  with assms have t: "there" by (cases there) (simp_all del: block_exists.simps)
  with assms there obtain hi lo hi' where "expand checks ?probe fuel floor_block 1024 hi = Some (Inr (lo, hi'))"
    and b: "bisect ?probe lo hi' = Inr r"
    by (auto simp: and_then_panic_eq_Inr_iff simp del: block_exists.simps split: option.splits)
  from expand_boundary [OF this(1)] there t have "?probe lo = Inr True" "?probe hi' = Inr False" by simp_all
  from bisect_boundary [OF b this] show ?thesis .
qed

lemma expand_total:
  assumes "\<And>n. unat n > m \<Longrightarrow> probe n = Inr False" "\<And>n. \<exists>b. probe n = Inr b"
    and "m < 2 ^ 61" "unat hi = unat lo + unat step" "m < unat step * 4 ^ k"
  shows "\<exists>l h. expand checks probe (Suc k) lo step hi = Some (Inr (l, h))"
  using assms(4,5)
proof (induction k arbitrary: lo step hi)
  case 0
  with assms(1) [of hi] show ?case by simp
next
  case (Suc k)
  from assms(2) obtain b where b: "probe hi = Inr b" by blast
  show ?case
  proof (cases b)
    case False
    with b show ?thesis by simp
  next
    case True
    with b assms(1) [of hi] have le: "unat hi \<le> m" by (cases "m < unat hi") simp_all
    then have s: "unat step \<le> m" using Suc.prems(1) by simp
    have four: "build_mul checks step 4 = Some (step * 4)" "unat (step * 4) = unat step * 4"
      using build_mul_Some [of step 4 checks] s assms(3) by simp_all
    have add: "build_add checks hi (step * 4) = Some (hi + step * 4)" "unat (hi + step * 4) = unat hi + unat (step * 4)"
      using build_add_Some [of hi "step * 4" checks] four(2) s le assms(3) by simp_all
    have "m < unat (step * 4) * 4 ^ k" using Suc.prems(2) four(2) by (simp add: algebra_simps)
    from Suc.IH [OF add(2) this] b True four(1) add(1) show ?thesis by (simp del: expand.simps(2) add: expand.simps(2) [of _ _ "Suc k"])
  qed
qed

lemma bisect_total: "(\<And>n. \<exists>b. probe n = Inr b) \<Longrightarrow> \<exists>r. bisect probe lo hi = Inr r"
proof (induction probe lo hi rule: bisect.induct)
  case (1 probe lo hi)
  show ?case
  proof (cases "hi - lo > 1")
    case True
    let ?mid = "lo + (hi - lo) div 2"
    obtain b where b: "probe ?mid = Inr b" using 1(3) by blast
    show ?thesis
      using 1(1) [OF True refl b _ 1(3)] 1(2) [OF True refl b _ 1(3)] True b
      by (cases b) (simp_all add: bisect.simps [of probe lo hi] Let_def)
  qed (simp add: bisect.simps [of probe lo hi])
qed

text \<open>C20. The search in the bucket answers with a block that is there and whose successor is not, whatever the
  bucket holds. If the blocks there are a range up to
  \<open>m < 2 ^ 61\<close> that holds the search floor, 27 steps of growth are enough, nothing overflows, and the
  answer is \<open>m\<close>.\<close>

theorem newest_search_correct:
  "(newest fuel checks V (Gcs project tok) floor_block = Some (Inr r) \<longrightarrow>
      block_exists V (Gcs project tok) r = Inr True \<and> block_exists V (Gcs project tok) (r + 1) = Inr False) \<and>
   ((\<forall>n. block_exists V (Gcs project tok) n = Inr (first \<le> unat n \<and> unat n \<le> m)) \<and> m < 2 ^ 61 \<and>
    first \<le> unat floor_block \<and> unat floor_block \<le> m \<longrightarrow>
      newest 27 checks V (Gcs project tok) floor_block = Some (Inr (of_nat m)))"
proof (intro conjI impI, goal_cases)
  case 1
  then show ?case by (rule newest_Gcs_Inr [THEN conjunct1])
next
  case 2
  then show ?case by (rule newest_Gcs_Inr [THEN conjunct2])
next
  case 3
  let ?probe = "block_exists V (Gcs project tok)"
  from 3 have probe: "?probe n = Inr (first \<le> unat n \<and> unat n \<le> m)" for n by blast
  from 3 have m: "m < 2 ^ 61" and fl: "first \<le> unat floor_block" "unat floor_block \<le> m" by simp_all
  have add: "build_add checks floor_block 1024 = Some (floor_block + 1024)" "unat (floor_block + 1024) = unat floor_block + unat (1024 :: u64)"
    using build_add_Some [of floor_block 1024 checks] fl m by simp_all
  have "\<exists>l h. expand checks ?probe (Suc 26) floor_block 1024 (floor_block + 1024) = Some (Inr (l, h))"
    by (rule expand_total [of m]) (use m add(2) in \<open>simp_all add: probe del: block_exists.simps\<close>)
  then obtain l h where ex: "expand checks ?probe 27 floor_block 1024 (floor_block + 1024) = Some (Inr (l, h))"
    by (auto simp del: expand.simps)
  have "\<exists>r. bisect ?probe l h = Inr r" by (rule bisect_total) (simp add: probe del: block_exists.simps)
  then obtain r where r: "newest 27 checks V (Gcs project tok) floor_block = Some (Inr r)"
    using fl add(1) ex by (auto simp: probe simp del: block_exists.simps expand.simps)
  from newest_Gcs_Inr [OF this] have "first \<le> unat r" "unat r \<le> m" "\<not> unat (r + 1) \<le> m \<or> \<not> first \<le> unat (r + 1)"
    unfolding probe by auto
  moreover have "unat (r + 1) = unat r + 1" using calculation(2) m by (simp add: unat_word_ariths)
  ultimately have "unat r = m" by simp
  then have "r = of_nat m" using m by (simp add: word_unat_eq_iff unsigned_of_nat take_bit_nat_eq_self)
  with r show ?case by simp
qed

text \<open>The names of the objects tell the blocks apart, so a bucket is the set of its block numbers. The witness
  is a bucket that holds the blocks 5, 6 and 7.\<close>

lemma replace_slash_append: "replace_slash (s @ t) = replace_slash s @ replace_slash t"
  by (induction s) simp_all

lemma replace_slash_none: "CHR ''/'' \<notin> set s \<Longrightarrow> replace_slash s = s"
  by (induction s) auto

lemma object_url_inject: "object_url m project media = object_url n project media \<longleftrightarrow> m = n"
proof -
  have "digit_val (CHR ''/'') = None" by (simp add: digit_val_def)
  then have "CHR ''/'' \<notin> set (show_nat k)" for k
    using show_nat_digits [of k] digit_char_neqI by metis
  then have "CHR ''/'' \<notin> set (show_nat_pad 36 k)" for k
    by (auto simp: show_nat_pad_def Let_def)
  then show ?thesis
    by (auto simp: object_url_def Let_def replace_slash_append replace_slash_none word_unat_eq_iff)
qed

definition demo_bucket :: sentinel_env where
  "demo_bucket = \<lparr>
     ureq_get = (\<lambda>url auth. if url \<in> set (map (\<lambda>n. object_url n ''p'' False) [5, 6, 7]) then Http_Body (Inr []) else Http_Status 404 []),
     read_dir_names = (\<lambda>_. Inl []), path_exists = (\<lambda>_. False), read_path = (\<lambda>_. Inl []), env_var = (\<lambda>_. None),
     gcloud = Inl [], read_state = (\<lambda>_. Inl []), write_state = (\<lambda>_ _. Inr ()), unix_seconds = None\<rparr>"

lemma demo_bucket_exists: "block_exists demo_bucket (Gcs ''p'' tok) n = Inr (5 \<le> unat n \<and> unat n \<le> 7)"
proof -
  have "n = 5 \<or> n = 6 \<or> n = 7 \<longleftrightarrow> 5 \<le> unat n \<and> unat n \<le> 7"
    by (auto simp: word_unat_eq_iff)
  then show ?thesis
    by (simp add: demo_bucket_def object_url_inject del: word_unat_eq_iff)
qed

lemma newest_search_correct_witness:
  "newest 27 True demo_bucket (Gcs ''p'' ''t'') 6 = Some (Inr 7) \<and>
   block_exists demo_bucket (Gcs ''p'' ''t'') 7 = Inr True \<and> block_exists demo_bucket (Gcs ''p'' ''t'') 8 = Inr False"
proof -
  have r: "newest 27 True demo_bucket (Gcs ''p'' ''t'') 6 = Some (Inr (of_nat 7))"
    by (rule newest_search_correct [THEN conjunct2, THEN mp, of _ _ _ 5]) (simp add: demo_bucket_exists del: block_exists.simps)
  then show ?thesis
    using newest_search_correct [THEN conjunct1, THEN mp, OF r] by simp
qed

section \<open>The check of one block\<close>

text \<open>
  \<open>hex\<close> is \<open>hex::encode\<close>; \<open>hints\<close> is the crate's \<open>verify_hints\<close> when it is built with \<open>block-proofs\<close>, and
  absent otherwise. The state is written only at the end, so a block that is refused leaves it as it was.
\<close>

definition path_name :: "proof_path \<Rightarrow> string \<times> bool" where
  "path_name p = (case p of
      AggregateSchnorr \<Rightarrow> (''aggregateSchnorr'', True)
    | WrapsCompressedProof \<Rightarrow> (''wraps'', True)
    | Unknown_Path \<Rightarrow> (''unknown'', False))"

definition layout_bytes :: "proof_layout \<Rightarrow> nat" where
  "layout_bytes lay = length (hints_verification_key lay) + length (hints_signature lay) + length (suffix_bytes lay)"

type_synonym hints_verifier = "(proof_layout \<Rightarrow> bytes \<Rightarrow> (error + hints_checks) option) option"

text \<open>\<open>map(|h| h.all_passed()).unwrap_or(false)\<close>\<close>

definition hints_passed :: "(error + hints_checks) option \<Rightarrow> bool option" where
  "hints_passed r = map_option (\<lambda>x. case x of Inl _ \<Rightarrow> False | Inr h \<Rightarrow> Hints.all_passed h) r"

definition check_material :: "(bytes \<Rightarrow> string) \<Rightarrow> hints_verifier \<Rightarrow> u64 \<Rightarrow> block_proof_material \<Rightarrow> state \<Rightarrow> (string + state) option" where
  "check_material hex hints n m st =
     (let root_hex = hex (block_root m);
          prev_claim = hex (previous_block_root m);
          (pname, is_tss) = path_name (path (layout m));
          sig_bytes = layout_bytes (layout m);
          accepted = st\<lparr>last_block := Some n, last_root := Some root_hex, known_path := Some pname,
                        known_bytes := Some sig_bytes\<rparr>
      in if block_number m \<noteq> n then
           Some (Inl (''sequence break: object named '' @ show_u64 n @ '' carries block number '' @ show_u64 (block_number m)))
         else if \<exists>prev_root. last_root st = Some prev_root \<and> prev_claim \<noteq> prev_root then
           Some (Inl (''root-chain break at block '' @ show_u64 n @ '': footer claims '' @ prev_claim
             @ '', recomputed prior root is '' @ the (last_root st)))
         else if \<exists>known. known_path st = Some known \<and> known \<noteq> pname then
           Some (Inl (''PROOF FORMAT CHANGED at block '' @ show_u64 n @ '': '' @ the (known_path st) @ '' '' @ right_arrow @ '' ''
             @ pname @ '' ('' @ show_nat (case known_bytes st of Some k \<Rightarrow> k | None \<Rightarrow> 0) @ '' '' @ right_arrow @ '' ''
             @ show_nat sig_bytes @ '' signature bytes). If this is the TSS cutover, react per docs/MIGRATION.md ''
             @ section_sign @ ''6-7, update the state file, and re-run.''))
         else if \<exists>known. known_bytes st = Some known \<and> known \<noteq> sig_bytes then
           Some (Inl (''SIGNATURE LAYOUT CHANGED at block '' @ show_u64 n @ '': '' @ show_nat (the (known_bytes st)) @ '' ''
             @ right_arrow @ '' '' @ show_nat sig_bytes @ '' bytes. React per docs/MIGRATION.md '' @ section_sign
             @ ''6-7, update the state file, and re-run.''))
         else if material_bootstrap m \<noteq> None then
           Some (Inl (''LEDGER-ID PUBLICATION FOUND in block '' @ show_u64 n @ '' '' @ em_dash @ '' the bootstrap anchor for full proof ''
             @ ''verification. Vendor this block, wire it as --bootstrap, update the state file.''))
         else if is_tss then
           (case hints of
              None \<Rightarrow> Some (Inl (''block '' @ show_u64 n @ '' carries a TSS proof but this binary was built without ''
                @ ''`--features block-proofs` '' @ em_dash @ '' rebuild so the sentinel verifies it''))
            | Some verify \<Rightarrow>
                (case hints_passed (verify (layout m) (block_root m)) of
                   None \<Rightarrow> None
                 | Some passed \<Rightarrow>
                     if passed then Some (Inr accepted)
                     else Some (Inl (''hinTS threshold signature INVALID at block '' @ show_u64 n @ '' '' @ em_dash
                       @ '' a TSS proof that does not verify is the loudest possible alarm''))))
         else Some (Inr accepted))"

definition check_block :: "externals \<Rightarrow> (bytes \<Rightarrow> string) \<Rightarrow> hints_verifier \<Rightarrow> u64 \<Rightarrow> bytes \<Rightarrow> state \<Rightarrow> (string + state) option" where
  "check_block E hex hints n bytes st =
     and_then_panic (map_option (map_err (\<lambda>e. ''block '' @ show_u64 n @ '': '' @ show_error e)) (extract_proof_material E bytes))
       (\<lambda>m. check_material hex hints n m st)"

section \<open>The batches of a run\<close>

text \<open>\<open>(from..=to).step_by(32)\<close>, and the blocks of one batch.\<close>

definition inclusive :: "u64 \<Rightarrow> u64 \<Rightarrow> u64 list" where
  "inclusive a b = map of_nat [unat a..<Suc (unat b)]"

definition batch_starts :: "u64 \<Rightarrow> u64 \<Rightarrow> u64 list" where
  "batch_starts lo hi =
     (if hi < lo then [] else map (\<lambda>k. lo + of_nat (unat FETCH_BATCH * k)) [0..<Suc ((unat hi - unat lo) div unat FETCH_BATCH)])"

definition batch_end :: "bool \<Rightarrow> u64 \<Rightarrow> u64 \<Rightarrow> u64 option" where
  "batch_end checks start hi =
     Option.bind (build_add checks start FETCH_BATCH) (\<lambda>s. Option.bind (build_sub checks s 1) (\<lambda>e. Some (min e hi)))"

fun check_fetched :: "bool \<Rightarrow> (u64 \<Rightarrow> bytes \<Rightarrow> state \<Rightarrow> (string + state) option) \<Rightarrow> u64 \<Rightarrow> nat \<Rightarrow> (string + bytes) list \<Rightarrow>
    state \<Rightarrow> u64 \<Rightarrow> (state \<times> u64 \<times> (string + unit)) option" where
  "check_fetched checks check start offset [] st count = Some (st, count, Inr ())"
| "check_fetched checks check start offset (b # bs) st count =
     (case (case b of Inr bytes \<Rightarrow> check (start + of_nat offset) bytes st | Inl e \<Rightarrow> Some (Inl e)) of
        None \<Rightarrow> None
      | Some (Inl e) \<Rightarrow> Some (st, count, Inl e)
      | Some (Inr st') \<Rightarrow>
          (case build_add checks count 1 of
             None \<Rightarrow> None
           | Some count' \<Rightarrow> check_fetched checks check start (Suc offset) bs st' count'))"

fun run_batches :: "bool \<Rightarrow> (u64 \<Rightarrow> bytes \<Rightarrow> state \<Rightarrow> (string + state) option) \<Rightarrow> (u64 \<Rightarrow> string + bytes) \<Rightarrow> u64 \<Rightarrow> u64 list \<Rightarrow>
    state \<Rightarrow> u64 \<Rightarrow> (state \<times> u64 \<times> (string + unit)) option" where
  "run_batches checks check get hi [] st count = Some (st, count, Inr ())"
| "run_batches checks check get hi (start # starts) st count =
     (case batch_end checks start hi of
        None \<Rightarrow> None
      | Some e \<Rightarrow>
          (case check_fetched checks check start 0 (map get (inclusive start e)) st count of
             None \<Rightarrow> None
           | Some (st', count', Inl err) \<Rightarrow> Some (st', count', Inl err)
           | Some (st', count', Inr _) \<Rightarrow> run_batches checks check get hi starts st' count'))"

end
