(* ===== verification/Sentinel_Run.thy ===== *)
theory Sentinel_Run
  imports Sentinel
begin

text \<open>
  \<open>run\<close> of \<open>src/cli/sentinel.rs\<close>: the arguments, the window, the batches and what is written to the state
  file. A run gives what it wrote and how it ended; \<open>None\<close> as the end is a panic (or a search that took
  all its fuel). What the theorems show: the batches are the sequential check of the window, the state that
  is written is the state after exactly the blocks that were verified, and over any number of runs, whatever
  the bucket answers, the verified blocks are one gapless chain.
\<close>

section \<open>The parts of a run\<close>

definition access_token :: "sentinel_env \<Rightarrow> string + string" where
  "access_token V =
     (case env_var V ''GCS_OAUTH_TOKEN'' of
        Some t \<Rightarrow> Inr t
      | None \<Rightarrow> and_then (gcloud V) (\<lambda>(success, out).
          if \<not> success then Inl ''gcloud auth print-access-token failed (set GCS_OAUTH_TOKEN?)'' else out))"

definition utc_now :: "u64 \<Rightarrow> string \<times> string" where
  "utc_now secs =
     (let d = day_of (show_u64 secs @ ''.000000000'');
          (h, m, s) = (secs div 3600 mod 24, secs div 60 mod 60, secs mod 60)
      in (d, d @ ''T'' @ show_nat_pad 2 (unat h) @ '':'' @ show_nat_pad 2 (unat m) @ '':'' @ show_nat_pad 2 (unat s) @ ''Z''))"

definition flag_u64 :: "string list \<Rightarrow> string \<Rightarrow> u64 option" where
  "flag_u64 args name = Option.bind (flag args name) parse_u64"

definition choose_source :: "sentinel_env \<Rightarrow> string list \<Rightarrow> string + source" where
  "choose_source V args =
     (case flag args ''--local-dir'' of
        Some dir \<Rightarrow> Inr (Local dir)
      | None \<Rightarrow>
          and_then (ok_or ''GCS is requester-pays: pass --project or set GCS_USER_PROJECT''
            (case flag args ''--project'' of Some p \<Rightarrow> Some p | None \<Rightarrow> env_var V ''GCS_USER_PROJECT'')) (\<lambda>project.
          and_then (access_token V) (\<lambda>tok. Inr (Gcs project tok))))"

definition state_path :: "string list \<Rightarrow> string" where
  "state_path args = (case flag args ''--state'' of Some p \<Rightarrow> p | None \<Rightarrow> ''docs/sentinel-state.json'')"

definition max_blocks_of :: "string list \<Rightarrow> u64" where
  "max_blocks_of args = (case flag_u64 args ''--max-blocks'' of Some n \<Rightarrow> n | None \<Rightarrow> DEFAULT_MAX_BLOCKS)"

text \<open>The search floor and the first block to verify.\<close>

definition window :: "bool \<Rightarrow> string list \<Rightarrow> state \<Rightarrow> (string + u64 \<times> u64) option" where
  "window checks args st =
     (if initialized st then
        and_then_panic (Some (ok_or ''initialized state has no lastBlock'' (last_block st))) (\<lambda>lst.
          map_option (\<lambda>nxt. Inr (lst, nxt)) (build_add checks lst 1))
      else Some (and_then (ok_or ''first run needs --init-block (see workflow_dispatch input)'' (flag_u64 args ''--init-block''))
             (\<lambda>init. Inr (init, init))))"

text \<open>The last block of this run, with the arithmetic of the messages, which can panic too.\<close>

definition last_of_run :: "bool \<Rightarrow> u64 \<Rightarrow> u64 \<Rightarrow> u64 \<Rightarrow> u64 option" where
  "last_of_run checks max_blocks lo new =
     Option.bind (Option.bind (build_sub checks new lo) (\<lambda>d. build_add checks d 1)) (\<lambda>behind.
       Option.bind
         (if behind > max_blocks then Option.bind (build_add checks lo max_blocks) (\<lambda>e. build_sub checks e 1) else Some new)
         (\<lambda>hi. Option.bind (Option.bind (build_sub checks hi lo) (\<lambda>d. build_add checks d 1)) (\<lambda>_. Some hi)))"

definition persist :: "bool \<Rightarrow> u64 \<Rightarrow> u64 \<Rightarrow> state \<Rightarrow> state option" where
  "persist checks secs verified st =
     (let (today, now) = utc_now secs
      in if verified > 0 then
           map_option (\<lambda>total. st\<lparr>initialized := True, verified_total := Some total,
               since := (case since st of None \<Rightarrow> Some today | Some d \<Rightarrow> Some d), checked := Some now\<rparr>)
             (build_add checks (case verified_total st of Some n \<Rightarrow> n | None \<Rightarrow> 0) verified)
         else Some (st\<lparr>checked := Some now\<rparr>))"

section \<open>A run\<close>

type_synonym sentinel_result = "(string \<times> json) option \<times> (string + exit_code) option"

text \<open>The tail: the batches, the state file, and the outcome. A panic after the file was written leaves it
  written.\<close>

definition verify_window :: "bool \<Rightarrow> (u64 \<Rightarrow> bytes \<Rightarrow> state \<Rightarrow> (string + state) option) \<Rightarrow> sentinel_env \<Rightarrow> source \<Rightarrow>
    string \<Rightarrow> u64 \<Rightarrow> u64 \<Rightarrow> state \<Rightarrow> sentinel_result" where
  "verify_window checks check V src file lo hi st =
     (case run_batches checks check (fetch V src) hi (batch_starts lo hi) st 0 of
        None \<Rightarrow> (None, None)
      | Some (st', verified, outcome) \<Rightarrow>
          (case Option.bind (unix_seconds V) (\<lambda>secs. persist checks secs verified st') of
             None \<Rightarrow> (None, None)
           | Some final \<Rightarrow>
               (case write_state V file (save final) of
                  Inl e \<Rightarrow> (None, Some (Inl e))
                | Inr _ \<Rightarrow>
                    (Some (file, save final),
                     (case outcome of
                        Inl e \<Rightarrow> Some (Inl e)
                      | Inr _ \<Rightarrow>
                          (case Option.bind (build_add checks lo verified) (\<lambda>e. build_sub checks e 1) of
                             None \<Rightarrow> None
                           | Some _ \<Rightarrow> Some (Inr SUCCESS)))))))"

definition sentinel_run :: "bool \<Rightarrow> nat \<Rightarrow> (u64 \<Rightarrow> bytes \<Rightarrow> state \<Rightarrow> (string + state) option) \<Rightarrow> sentinel_env \<Rightarrow> string list \<Rightarrow>
    sentinel_result" where
  "sentinel_run checks fuel check V args =
     (case and_then (choose_source V args) (\<lambda>src. and_then (read_state V (state_path args)) (\<lambda>v. Inr (src, load v))) of
        Inl e \<Rightarrow> (None, Some (Inl e))
      | Inr (src, st) \<Rightarrow>
          (case and_then_panic (window checks args st) (\<lambda>(floor_block, lo).
                  and_then_panic (newest fuel checks V src floor_block) (\<lambda>new. Some (Inr (lo, new)))) of
             None \<Rightarrow> (None, None)
           | Some (Inl e) \<Rightarrow> (None, Some (Inl e))
           | Some (Inr (lo, new)) \<Rightarrow>
               if new < lo then (None, Some (Inr SUCCESS))
               else
                 (case last_of_run checks (max_blocks_of args) lo new of
                    None \<Rightarrow> (None, None)
                  | Some hi \<Rightarrow> verify_window checks check V src (state_path args) lo hi st)))"

section \<open>The batches are the window in order\<close>

text \<open>The blocks of a list one after the other, without batches.\<close>

fun check_sequence :: "bool \<Rightarrow> (u64 \<Rightarrow> bytes \<Rightarrow> state \<Rightarrow> (string + state) option) \<Rightarrow> (u64 \<Rightarrow> string + bytes) \<Rightarrow> u64 list \<Rightarrow>
    state \<Rightarrow> u64 \<Rightarrow> (state \<times> u64 \<times> (string + unit)) option" where
  "check_sequence checks check get [] st count = Some (st, count, Inr ())"
| "check_sequence checks check get (n # ns) st count =
     (case (case get n of Inr bytes \<Rightarrow> check n bytes st | Inl e \<Rightarrow> Some (Inl e)) of
        None \<Rightarrow> None
      | Some (Inl e) \<Rightarrow> Some (st, count, Inl e)
      | Some (Inr st') \<Rightarrow>
          (case build_add checks count 1 of
             None \<Rightarrow> None
           | Some count' \<Rightarrow> check_sequence checks check get ns st' count'))"

lemma check_sequence_append:
  "check_sequence checks check get (ms @ ns) st count =
     (case check_sequence checks check get ms st count of
        None \<Rightarrow> None
      | Some (st', count', Inl e) \<Rightarrow> Some (st', count', Inl e)
      | Some (st', count', Inr _) \<Rightarrow> check_sequence checks check get ns st' count')"
  by (induction ms arbitrary: st count) (auto split: option.splits sum.splits)

lemma check_fetched_sequence:
  "check_fetched checks check start offset (map (\<lambda>i. get (start + of_nat i)) [offset..<offset + k]) st count =
   check_sequence checks check get (map (\<lambda>i. start + of_nat i) [offset..<offset + k]) st count"
proof (induction k arbitrary: offset st count)
  case (Suc k)
  have "[offset..<offset + Suc k] = offset # [Suc offset..<Suc offset + k]"
    by (simp add: upt_rec del: upt_Suc)
  with Suc.IH [of "Suc offset"] show ?case
    by (auto split: option.splits sum.splits)
qed simp

lemma inclusive_offsets: "inclusive a b = map (\<lambda>i. a + of_nat i) [0..<Suc (unat b) - unat a]"
proof -
  have "[unat a..<Suc (unat b)] = map (\<lambda>i. i + unat a) [0..<Suc (unat b) - unat a]"
    by (cases "unat a \<le> Suc (unat b)") (simp_all add: map_add_upt del: upt_Suc)
  then show ?thesis by (simp add: inclusive_def add.commute del: upt_Suc)
qed

lemma run_batches_sequence:
  assumes "\<And>s. s \<in> set starts \<Longrightarrow> batch_end checks s hi = Some (e s)"
  shows "run_batches checks check get hi starts st count =
    check_sequence checks check get (concat (map (\<lambda>s. inclusive s (e s)) starts)) st count"
  using assms
proof (induction starts arbitrary: st count)
  case (Cons s starts)
  have "check_fetched checks check s 0 (map get (inclusive s (e s))) st count =
        check_sequence checks check get (inclusive s (e s)) st count" for st count
    using check_fetched_sequence [of checks check s 0 get "Suc (unat (e s)) - unat s"]
    by (simp add: inclusive_offsets comp_def del: upt_Suc)
  with Cons show ?case
    by (auto simp: check_sequence_append split: option.splits sum.splits)
qed simp

lemma run_batches_append:
  "run_batches checks check get hi (xs @ ys) st count =
     (case run_batches checks check get hi xs st count of
        None \<Rightarrow> None
      | Some (st', count', Inl e) \<Rightarrow> Some (st', count', Inl e)
      | Some (st', count', Inr _) \<Rightarrow> run_batches checks check get hi ys st' count')"
  by (induction xs arbitrary: st count) (auto split: option.splits sum.splits)

lemma upt_batches: "concat (map (\<lambda>k. [a + 32 * k..<a + 32 * k + 32]) [0..<q]) = [a..<a + 32 * q]"
proof (induction q)
  case (Suc q)
  have "[a..<a + 32 * Suc q] = [a..<a + 32 * q] @ [a + 32 * q..<a + 32 * q + 32]"
    using upt_add_eq_append [of a "a + 32 * q" 32] by (simp add: ac_simps)
  with Suc show ?case by simp
qed simp

lemma inclusive_upt: "unat e + 1 = b \<Longrightarrow> inclusive a e = map of_nat [unat a..<b]"
  by (simp add: inclusive_def)

text \<open>Every batch but the last has its 32 blocks.\<close>

lemma full_batches:
  fixes lo hi :: u64
  assumes "unat lo + 32 * q \<le> unat hi"
  shows "run_batches checks check get hi (map (\<lambda>k. lo + of_nat (32 * k)) [0..<q]) st count =
    check_sequence checks check get (map of_nat [unat lo..<unat lo + 32 * q]) st count"
proof -
  have hi: "unat hi < 2 ^ 64" using unsigned_less [of hi] by simp
  let ?e = "\<lambda>s :: u64. s + 31"
  have s: "unat (lo + of_nat (32 * k)) = unat lo + 32 * k" if "k < q" for k
    using that assms hi by (simp add: unat_word_ariths unsigned_of_nat take_bit_nat_eq_self)
  have e: "batch_end checks s hi = Some (?e s) \<and> inclusive s (?e s) = map of_nat [unat s..<unat s + 32]"
    if "unat s + 32 \<le> unat hi" for s
  proof -
    have a: "build_add checks s FETCH_BATCH = Some (s + 32)" "unat (s + 32) = unat s + 32"
      using build_add_Some [of s 32 checks] that hi by (simp_all add: FETCH_BATCH_def)
    then have "build_sub checks (s + 32) 1 = Some (s + 31)"
      by (simp add: build_sub_def word_less_nat_alt)
    moreover have u: "unat (s + 31) = unat s + 31" using that hi by (simp add: unat_word_ariths)
    moreover have "s + 31 \<le> hi" using that u by (simp add: word_le_nat_alt)
    ultimately show ?thesis using a by (simp add: batch_end_def inclusive_upt min_def add.commute)
  qed
  have "unat s + 32 \<le> unat hi" if "s \<in> set (map (\<lambda>k. lo + of_nat (32 * k)) [0..<q])" for s
  proof -
    from that obtain k where k: "k < q" "s = lo + of_nat (32 * k)" by auto
    with s [of k] assms show ?thesis by simp
  qed
  then have "run_batches checks check get hi (map (\<lambda>k. lo + of_nat (32 * k)) [0..<q]) st count =
    check_sequence checks check get (concat (map (\<lambda>s. inclusive s (?e s)) (map (\<lambda>k. lo + of_nat (32 * k)) [0..<q]))) st count"
    by (intro run_batches_sequence) (use e in blast)
  also have "concat (map (\<lambda>s. inclusive s (?e s)) (map (\<lambda>k. lo + of_nat (32 * k)) [0..<q])) =
      concat (map (\<lambda>k. map of_nat [unat lo + 32 * k..<unat lo + 32 * k + 32]) [0..<q])"
  proof -
    have "inclusive (lo + of_nat (32 * k)) (?e (lo + of_nat (32 * k))) = map of_nat [unat lo + 32 * k..<unat lo + 32 * k + 32]"
      if "k < q" for k
    proof -
      have "unat (lo + of_nat (32 * k)) + 32 \<le> unat hi" using s [OF that] assms that by simp
      from e [OF this] s [OF that] show ?thesis by simp
    qed
    then have "map (\<lambda>k. inclusive (lo + of_nat (32 * k)) (?e (lo + of_nat (32 * k)))) [0..<q] =
        map (\<lambda>k. map of_nat [unat lo + 32 * k..<unat lo + 32 * k + 32]) [0..<q]"
      by (intro map_cong) simp_all
    then show ?thesis by (simp only: map_map comp_def)
  qed
  also have "\<dots> = map of_nat (concat (map (\<lambda>k. [unat lo + 32 * k..<unat lo + 32 * k + 32]) [0..<q]))"
    by (simp add: map_concat comp_def)
  finally show ?thesis by (simp only: upt_batches)
qed

text \<open>The last batch ends at the end of the window. Only where adding 32 leaves the 64 bits does it not: that is a
  panic with overflow checks, and without them the batch is empty.\<close>

lemma last_batch:
  fixes s hi :: u64
  assumes "unat s \<le> unat hi" "unat hi < unat s + 32"
  shows "unat hi + 32 < 2 ^ 64 \<Longrightarrow> batch_end checks s hi = Some hi"
    and "batch_end checks s hi = Some e \<Longrightarrow> e = hi \<or> inclusive s e = []"
proof -
  assume "unat hi + 32 < 2 ^ 64"
  then have a: "build_add checks s FETCH_BATCH = Some (s + 32)" "unat (s + 32) = unat s + 32" "unat (s + 31) = unat s + 31"
    using build_add_Some [of s 32 checks] assms by (simp_all add: FETCH_BATCH_def unat_word_ariths)
  then have "build_sub checks (s + 32) 1 = Some (s + 31)"
    by (simp add: build_sub_def word_less_nat_alt)
  moreover have "s + 31 = hi" if "unat (s + 31) \<le> unat hi"
    using that a(3) assms by (simp add: word_unat_eq_iff)
  ultimately show "batch_end checks s hi = Some hi"
    using a(1) by (auto simp: batch_end_def min_def word_le_nat_alt)
next
  assume "batch_end checks s hi = Some e"
  then have e: "e = min (s + 31) hi"
    by (auto simp: batch_end_def build_add_def build_sub_def FETCH_BATCH_def bind_eq_Some_conv add.commute split: if_splits)
  show "e = hi \<or> inclusive s e = []"
  proof (cases "unat s + 31 < 2 ^ 64")
    case True
    then have u: "unat (s + 31) = unat s + 31" by (simp add: unat_word_ariths)
    then have "s + 31 = hi" if "s + 31 \<le> hi"
      using that assms by (simp add: word_unat_eq_iff word_le_nat_alt)
    with e show ?thesis by (auto simp: min_def)
  next
    case False
    have "unat s < 2 ^ 64" using unsigned_less [of s] by simp
    with False have "unat (s + 31) < unat s"
      by (simp add: unat_word_ariths le_mod_geq)
    moreover have "unat e \<le> unat (s + 31)" using e by (simp add: min_def word_le_nat_alt)
    ultimately show ?thesis by (simp add: inclusive_def)
  qed
qed

lemma batch_starts_split:
  fixes lo hi :: u64
  assumes "lo \<le> hi"
  defines "q \<equiv> (unat hi - unat lo) div 32"
  defines "s \<equiv> lo + of_nat (32 * q)"
  shows "batch_starts lo hi = map (\<lambda>k. lo + of_nat (32 * k)) [0..<q] @ [s]"
    and "unat lo + 32 * q \<le> unat hi" and "unat s = unat lo + 32 * q" and "unat hi < unat s + 32"
    and "inclusive lo hi = map of_nat [unat lo..<unat lo + 32 * q] @ inclusive s hi"
proof -
  show q: "unat lo + 32 * q \<le> unat hi"
    using assms(1) by (simp add: q_def word_le_nat_alt)
  have hi: "unat hi < 2 ^ 64" using unsigned_less [of hi] by simp
  show s: "unat s = unat lo + 32 * q"
    using q hi by (simp add: s_def unat_word_ariths unsigned_of_nat take_bit_nat_eq_self)
  show "unat hi < unat s + 32"
  proof -
    have "unat hi - unat lo < 32 * q + 32" unfolding q_def by (simp add: dividend_less_times_div)
    with s q show ?thesis by simp
  qed
  show "batch_starts lo hi = map (\<lambda>k. lo + of_nat (32 * k)) [0..<q] @ [s]"
    using assms(1) by (simp add: batch_starts_def FETCH_BATCH_def q_def s_def)
  have "[unat lo..<Suc (unat hi)] = [unat lo..<unat lo + 32 * q] @ [unat lo + 32 * q..<Suc (unat hi)]"
    using upt_add_eq_append [of "unat lo" "unat lo + 32 * q" "Suc (unat hi) - (unat lo + 32 * q)"] q by simp
  then show "inclusive lo hi = map of_nat [unat lo..<unat lo + 32 * q] @ inclusive s hi"
    by (simp add: inclusive_def s del: upt_Suc)
qed

lemma run_batches_prefix:
  assumes "run_batches checks check get hi (batch_starts lo hi) st count = Some r"
  shows "\<exists>ns zs. inclusive lo hi = ns @ zs \<and> check_sequence checks check get ns st count = Some r"
proof (cases "lo \<le> hi")
  case False
  then have "inclusive lo hi = []" "batch_starts lo hi = []"
    by (simp_all add: inclusive_def batch_starts_def not_le word_less_nat_alt)
  with assms show ?thesis by simp
next
  case True
  let ?q = "(unat hi - unat lo) div 32"
  let ?s = "lo + of_nat (32 * ?q)" and ?full = "map of_nat [unat lo..<unat lo + 32 * ?q] :: u64 list"
  note split = batch_starts_split [OF True]
  from assms have r: "Some r =
      (case check_sequence checks check get ?full st count of
        None \<Rightarrow> None
      | Some (st', count', Inl e) \<Rightarrow> Some (st', count', Inl e)
      | Some (st', count', Inr _) \<Rightarrow> run_batches checks check get hi [?s] st' count')"
    unfolding split(1) run_batches_append full_batches [OF split(2)] by simp
  then obtain st' count' out where full: "check_sequence checks check get ?full st count = Some (st', count', out)"
    by (auto split: option.splits)
  show ?thesis
  proof (cases out)
    case (Inl e)
    with r full have "check_sequence checks check get ?full st count = Some r" by simp
    with split(5) show ?thesis by blast
  next
    case (Inr u)
    with r full have last: "run_batches checks check get hi [?s] st' count' = Some r" by simp
    then obtain e where e: "batch_end checks ?s hi = Some e" by (auto split: option.splits)
    from last have "check_sequence checks check get (inclusive ?s e) st' count' = Some r"
      using run_batches_sequence [of "[?s]" checks hi "\<lambda>_. e" check get st' count'] e by simp
    then have seq: "check_sequence checks check get (?full @ inclusive ?s e) st count = Some r"
      using full Inr by (simp add: check_sequence_append)
    have "unat ?s \<le> unat hi" using split(2,3) by simp
    from last_batch(2) [OF this split(4) e] show ?thesis
    proof
      assume "e = hi"
      with seq split(5) show ?thesis by (metis append_Nil2)
    next
      assume "inclusive ?s e = []"
      with seq split(5) show ?thesis by (metis append_Nil2)
    qed
  qed
qed

text \<open>The batches of a run are the window in order, one block after the other: what happens is what the
  sequential check of the blocks \<open>lo\<close> to \<open>hi\<close> does, with its result, its count and its first error. Near the end
  of the 64 bits, a run that does not panic is the sequential check of a first part of the window.\<close>

theorem batches_are_sequential:
  "(unat hi + 32 < 2 ^ 64 \<longrightarrow>
     run_batches checks check get hi (batch_starts lo hi) st count = check_sequence checks check get (inclusive lo hi) st count) \<and>
   (run_batches checks check get hi (batch_starts lo hi) st count = Some r \<longrightarrow>
     (\<exists>ns zs. inclusive lo hi = ns @ zs \<and> check_sequence checks check get ns st count = Some r))"
proof (intro conjI impI)
  assume small: "unat hi + 32 < 2 ^ 64"
  show "run_batches checks check get hi (batch_starts lo hi) st count = check_sequence checks check get (inclusive lo hi) st count"
  proof (cases "lo \<le> hi")
    case False
    then have "inclusive lo hi = []" "batch_starts lo hi = []"
      by (simp_all add: inclusive_def batch_starts_def not_le word_less_nat_alt)
    then show ?thesis by simp
  next
    case True
    let ?s = "lo + of_nat (32 * ((unat hi - unat lo) div 32))"
    note split = batch_starts_split [OF True]
    have "batch_end checks ?s hi = Some hi"
      using last_batch(1) [OF _ split(4) small] split(2,3) by simp
    then have "run_batches checks check get hi [?s] st' count' = check_sequence checks check get (inclusive ?s hi) st' count'" for st' count'
      using run_batches_sequence [of "[?s]" checks hi "\<lambda>_. hi" check get st' count'] by simp
    then show ?thesis
      unfolding split(1) run_batches_append full_batches [OF split(2)] split(5) check_sequence_append
      by (simp split: option.splits sum.splits)
  qed
qed (rule run_batches_prefix)

section \<open>What the check of a block says\<close>

text \<open>What the state says of the last verified block. A count of bytes that no \<open>usize\<close> holds does not survive the
  state file, so nothing is claimed of it.\<close>

definition describes :: "(bytes \<Rightarrow> string) \<Rightarrow> state \<Rightarrow> block_proof_material \<Rightarrow> bool" where
  "describes hex st m \<longleftrightarrow>
     last_block st = Some (block_number m) \<and> last_root st = Some (hex (block_root m)) \<and>
     known_path st = Some (fst (path_name (path (layout m)))) \<and>
     (layout_bytes (layout m) < usize_limit \<longrightarrow> known_bytes st = Some (layout_bytes (layout m)))"

text \<open>Two blocks that follow each other: the number steps, the footer claims the root before it, and the proof
  keeps its format.\<close>

definition sentinel_link :: "(bytes \<Rightarrow> string) \<Rightarrow> block_proof_material \<Rightarrow> block_proof_material \<Rightarrow> bool" where
  "sentinel_link hex p m \<longleftrightarrow>
     unat (block_number m) = unat (block_number p) + 1 \<and> hex (previous_block_root m) = hex (block_root p) \<and>
     path_name (path (layout m)) = path_name (path (layout p)) \<and>
     (layout_bytes (layout p) < usize_limit \<longrightarrow> layout_bytes (layout m) = layout_bytes (layout p))"

text \<open>A block that is fit to be verified on its own: it announces no cutover and its threshold signature, if it
  has one, passes.\<close>

definition acceptable :: "hints_verifier \<Rightarrow> block_proof_material \<Rightarrow> bool" where
  "acceptable hints m \<longleftrightarrow>
     material_bootstrap m = None \<and>
     (path (layout m) \<noteq> Unknown_Path \<longrightarrow>
        (\<exists>verify. hints = Some verify \<and> hints_passed (verify (layout m) (block_root m)) = Some True))"

lemma path_name_cases [simp]:
  "snd (path_name p) \<longleftrightarrow> p \<noteq> Unknown_Path" "path_name p = path_name q \<longleftrightarrow> p = q"
  "fst (path_name p) = fst (path_name q) \<longleftrightarrow> p = q"
  by (cases p; cases q; simp add: path_name_def)+

lemma check_material_Inr:
  assumes "check_material hex hints n m st = Some (Inr st')"
  shows "block_number m = n" "\<And>r. last_root st = Some r \<Longrightarrow> hex (previous_block_root m) = r"
    "\<And>k. known_path st = Some k \<Longrightarrow> k = fst (path_name (path (layout m)))"
    "\<And>k. known_bytes st = Some k \<Longrightarrow> k = layout_bytes (layout m)"
    "acceptable hints m"
    "st' = st\<lparr>last_block := Some n, last_root := Some (hex (block_root m)), known_path := Some (fst (path_name (path (layout m)))),
       known_bytes := Some (layout_bytes (layout m))\<rparr>"
proof -
  obtain pname is_tss where p: "path_name (path (layout m)) = (pname, is_tss)" by (cases "path_name (path (layout m))")
  then have tss: "is_tss \<longleftrightarrow> path (layout m) \<noteq> Unknown_Path" using path_name_cases(1) [of "path (layout m)"] by simp
  from assms show "block_number m = n" "\<And>r. last_root st = Some r \<Longrightarrow> hex (previous_block_root m) = r"
    "\<And>k. known_path st = Some k \<Longrightarrow> k = fst (path_name (path (layout m)))"
    "\<And>k. known_bytes st = Some k \<Longrightarrow> k = layout_bytes (layout m)"
    "st' = st\<lparr>last_block := Some n, last_root := Some (hex (block_root m)), known_path := Some (fst (path_name (path (layout m)))),
       known_bytes := Some (layout_bytes (layout m))\<rparr>"
    by (auto simp: check_material_def p Let_def split: if_splits option.splits)
  from assms show "acceptable hints m"
    by (auto simp: check_material_def p Let_def acceptable_def simp flip: tss split: if_splits option.splits)
qed

text \<open>And the other way: a block that fits is accepted.\<close>

lemma check_material_accepts:
  assumes "block_number m = n" "acceptable hints m"
    and "\<And>r. last_root st = Some r \<Longrightarrow> hex (previous_block_root m) = r"
    and "\<And>k. known_path st = Some k \<Longrightarrow> k = fst (path_name (path (layout m)))"
    and "\<And>k. known_bytes st = Some k \<Longrightarrow> k = layout_bytes (layout m)"
  shows "\<exists>st'. check_material hex hints n m st = Some (Inr st')"
proof -
  obtain pname is_tss where p: "path_name (path (layout m)) = (pname, is_tss)" by (cases "path_name (path (layout m))")
  then have tss: "is_tss \<longleftrightarrow> path (layout m) \<noteq> Unknown_Path" using path_name_cases(1) [of "path (layout m)"] by simp
  from assms show ?thesis
    by (auto simp: check_material_def p Let_def acceptable_def simp flip: tss split: if_splits option.splits)
qed

lemma check_material_step:
  assumes "check_material hex hints n m st = Some (Inr st')"
  shows "block_number m = n \<and> acceptable hints m \<and> describes hex st' m \<and>
    (initialized st', verified_total st', since st') = (initialized st, verified_total st, since st) \<and>
    (\<forall>p. describes hex st p \<longrightarrow> unat n = unat (block_number p) + 1 \<longrightarrow> sentinel_link hex p m)"
proof -
  note c = check_material_Inr [OF assms]
  have "sentinel_link hex p m" if "describes hex st p" "unat n = unat (block_number p) + 1" for p
  proof -
    have "fst (path_name (path (layout p))) = fst (path_name (path (layout m)))"
      using c(3) that by (simp add: describes_def)
    with that c(1,2,4) show ?thesis by (auto simp: sentinel_link_def describes_def)
  qed
  with c(1,5,6) show ?thesis by (simp add: describes_def)
qed

lemma check_block_Inr_iff:
  "check_block E hex hints n b st = Some (Inr st') \<longleftrightarrow>
     (\<exists>m. extract_proof_material E b = Some (Inr m) \<and> check_material hex hints n m st = Some (Inr st'))"
  by (cases "extract_proof_material E b")
    (auto simp: check_block_def and_then_panic_eq_Inr_iff map_err_eq_Inr_iff)

section \<open>A sequence of blocks\<close>

text \<open>\<open>advances\<close>: every block of the list is fetched and accepted, one after the other.\<close>

inductive advances :: "(u64 \<Rightarrow> bytes \<Rightarrow> state \<Rightarrow> (string + state) option) \<Rightarrow> (u64 \<Rightarrow> string + bytes) \<Rightarrow> state \<Rightarrow> u64 list \<Rightarrow> state \<Rightarrow> bool"
  for check get where
  advances_Nil: "advances check get st [] st"
| advances_Cons: "get n = Inr b \<Longrightarrow> check n b st = Some (Inr st1) \<Longrightarrow> advances check get st1 ns st' \<Longrightarrow>
    advances check get st (n # ns) st'"

inductive_simps advances_Nil_iff [simp]: "advances check get st [] st'"
inductive_simps advances_Cons_iff: "advances check get st (n # ns) st'"

text \<open>The failure at one block: it could not be fetched, or it was refused.\<close>

definition refused :: "(u64 \<Rightarrow> bytes \<Rightarrow> state \<Rightarrow> (string + state) option) \<Rightarrow> (u64 \<Rightarrow> string + bytes) \<Rightarrow> state \<Rightarrow> u64 \<Rightarrow> string \<Rightarrow> bool" where
  "refused check get st n e \<longleftrightarrow> (case get n of Inl e' \<Rightarrow> e' = e | Inr b \<Rightarrow> check n b st = Some (Inl e))"

lemma check_sequence_advances:
  assumes "check_sequence checks check get ns st count = Some (st', count', out)"
  shows "\<exists>k \<le> length ns. advances check get st (take k ns) st' \<and> count' = count + of_nat k \<and>
    (case out of Inr _ \<Rightarrow> k = length ns | Inl e \<Rightarrow> k < length ns \<and> refused check get st' (ns ! k) e)"
  using assms
proof (induction ns arbitrary: st count)
  case Nil
  then show ?case by auto
next
  case (Cons n ns)
  show ?case
  proof (cases "\<exists>b st1. get n = Inr b \<and> check n b st = Some (Inr st1)")
    case True
    then obtain b st1 where b: "get n = Inr b" "check n b st = Some (Inr st1)" by blast
    with Cons.prems have "check_sequence checks check get ns st1 (count + 1) = Some (st', count', out)"
      by (auto simp: build_add_def split: option.splits if_splits)
    from Cons.IH [OF this] obtain k where k: "k \<le> length ns" "advances check get st1 (take k ns) st'"
      "count' = count + 1 + of_nat k"
      "case out of Inr _ \<Rightarrow> k = length ns | Inl e \<Rightarrow> k < length ns \<and> refused check get st' (ns ! k) e" by blast
    with b have "advances check get st (take (Suc k) (n # ns)) st'" by (auto intro: advances_Cons)
    with k show ?thesis by (intro exI [of _ "Suc k"]) (auto split: sum.splits)
  next
    case False
    with Cons.prems obtain e where "st' = st" "count' = count" "out = Inl e" "refused check get st n e"
      by (auto simp: refused_def split: option.splits sum.splits)
    then show ?thesis by (intro exI [of _ 0]) simp
  qed
qed

lemma advances_check_sequence:
  assumes "advances check get st ns st'" "unat count + length ns < 2 ^ 64"
  shows "check_sequence checks check get ns st count = Some (st', count + of_nat (length ns), Inr ())"
  using assms
proof (induction arbitrary: count rule: advances.induct)
  case (advances_Cons n b st st1 ns st')
  have "build_add checks count 1 = Some (count + 1)" "unat (count + 1) = unat count + 1"
    using build_add_Some [of count 1 checks] advances_Cons.prems by simp_all
  with advances_Cons.IH [of "count + 1"] advances_Cons.hyps advances_Cons.prems show ?case by simp
qed simp

section \<open>The state file\<close>

lemma as_u64_number [simp]: "as_u64 (option_value (\<lambda>n. Number (uint n)) x) = x"
proof (cases x)
  case (Some n)
  have "uint n < 2 ^ 64" using unsigned_less [of n] by simp
  with Some show ?thesis by (simp add: as_u64_def option_value_def)
qed (simp add: as_u64_def option_value_def)

lemma as_u64_usize [simp]:
  "map_option unat (as_u64 (option_value (\<lambda>n. Number (int n)) x)) =
     (case x of Some k \<Rightarrow> if k < usize_limit then Some k else None | None \<Rightarrow> None)"
proof (cases x)
  case (Some k)
  have "int k < 2 ^ 64 \<longleftrightarrow> k < 2 ^ 64" by (rule of_nat_less_numeral_power_cancel_iff)
  with Some show ?thesis
    by (simp add: as_u64_def option_value_def usize_limit_def unsigned_of_nat take_bit_nat_eq_self)
qed (simp add: as_u64_def option_value_def)

lemma as_str_string [simp]: "as_str (option_value String x) = x"
  by (cases x) (simp_all add: as_str_def option_value_def)

lemma load_save: "load (save s) = s\<lparr>known_bytes :=
    (case known_bytes s of Some k \<Rightarrow> if k < usize_limit then Some k else None | None \<Rightarrow> None)\<rparr>"
  by (cases s) (simp add: load_def save_def json_get_def as_bool_def as_str_def [of "String s" for s])

lemma describes_load_save [simp]: "describes hex (load (save s)) m \<longleftrightarrow> describes hex s m"
  by (auto simp: describes_def load_save split: option.splits)

section \<open>The window\<close>

lemma unat_max [simp]: "unat (- 1 :: u64) = 2 ^ 64 - 1"
  by (simp add: unsigned_minus_1_eq_mask mask_eq_exp_minus_1)

lemma max_le: "- 1 \<le> (w :: u64) \<longleftrightarrow> w = - 1"
proof
  assume "- 1 \<le> w"
  then have "2 ^ 64 - 1 \<le> unat w" unfolding word_le_nat_alt unat_max .
  with unsigned_less [of w, where ?'a = nat] have "unat w = unat (- 1 :: u64)" by simp
  then show "w = - 1" by (simp only: word_unat_eq_iff)
qed simp

lemma step_to:
  assumes "lo \<le> hi" "lo \<noteq> 0 \<or> hi \<noteq> - 1"
  shows "Option.bind (build_sub checks hi lo) (\<lambda>d. build_add checks d 1) = Some (hi - lo + 1)"
    "unat (hi - lo + 1) = unat hi - unat lo + 1"
proof -
  have d: "unat (hi - lo) = unat hi - unat lo" using assms(1) by (simp add: unat_sub)
  have "unat hi - unat lo \<noteq> 2 ^ 64 - 1"
  proof
    assume "unat hi - unat lo = 2 ^ 64 - 1"
    with unsigned_less [of hi, where ?'a = nat] have "unat hi = 2 ^ 64 - 1" "unat lo = 0" by simp_all
    then have "lo = 0" "hi = - 1" by (simp_all only: word_unat_eq_iff unat_max unat_0)
    with assms(2) show False by simp
  qed
  moreover have "unat hi - unat lo < 2 ^ 64" using unsigned_less [of hi, where ?'a = nat] by simp
  ultimately have "unat (hi - lo) + unat (1 :: u64) < 2 ^ 64" using d by simp
  from build_add_Some [OF this, of checks] d assms(1)
  show "Option.bind (build_sub checks hi lo) (\<lambda>d. build_add checks d 1) = Some (hi - lo + 1)"
    "unat (hi - lo + 1) = unat hi - unat lo + 1" by (simp_all add: build_sub_def not_less)
qed

lemma last_of_run_bounds:
  assumes "lo \<le> new" "lo \<noteq> 0 \<or> new \<noteq> - 1" "0 < max_blocks"
  shows "\<exists>hi. last_of_run checks max_blocks lo new = Some hi \<and>
    unat hi = min (unat new) (unat lo + unat max_blocks - 1)"
proof -
  have le: "unat lo \<le> unat new" using assms(1) by (simp add: word_le_nat_alt)
  have step: "Option.bind (build_sub checks hi lo) (\<lambda>d. build_add checks d 1) = Some (hi - lo + 1) \<and>
      unat (hi - lo + 1) = unat hi - unat lo + 1" if "lo \<le> hi" "hi \<le> new" for hi
  proof -
    have "lo \<noteq> 0 \<or> hi \<noteq> - 1" using assms(2) that(2) max_le [of new] by auto
    from step_to [OF that(1) this] show ?thesis by blast
  qed
  note behind = step [OF assms(1) order.refl]
  have pos: "0 < unat max_blocks" using assms(3) by (simp add: word_less_nat_alt)
  show ?thesis
  proof (cases "new - lo + 1 > max_blocks")
    case False
    then have "unat new - unat lo + 1 \<le> unat max_blocks" using behind by (simp add: word_less_nat_alt not_less)
    with False behind le show ?thesis by (simp add: last_of_run_def del: Option.bind_assoc)
  next
    case True
    then have gt: "unat max_blocks < unat new - unat lo + 1" using behind by (simp add: word_less_nat_alt)
    let ?hi = "lo + max_blocks - 1"
    have a: "build_add checks lo max_blocks = Some (lo + max_blocks)" "unat (lo + max_blocks) = unat lo + unat max_blocks"
      using build_add_Some [of lo max_blocks checks] gt le unsigned_less [of new, where ?'a = nat] by simp_all
    have nz: "1 \<le> lo + max_blocks" using a(2) pos by (simp add: word_le_nat_alt)
    then have hi: "unat ?hi = unat lo + unat max_blocks - 1" using a(2) by (simp add: unat_sub)
    have "lo \<le> ?hi" "?hi \<le> new" using hi pos gt le by (simp_all add: word_le_nat_alt)
    note last = step [OF this, THEN conjunct1]
    have sub: "build_sub checks (lo + max_blocks) 1 = Some ?hi"
      by (simp only: build_sub_def leD [OF nz] simp_thms if_False)
    have "last_of_run checks max_blocks lo new = Some ?hi"
      using True by (simp only: last_of_run_def behind if_True a(1) sub last Option.bind.bind_lunit)
    moreover have "unat lo + unat max_blocks - 1 \<le> unat new" using gt le by simp
    ultimately show ?thesis using hi by (simp add: min_absorb2)
  qed
qed

section \<open>What a run writes\<close>

text \<open>A run that wrote the state file, from its arguments to the state it wrote: \<open>k\<close> blocks of the window were
  fetched and accepted, one after the other, and the state is theirs.\<close>

lemma verify_window_wrote:
  assumes "verify_window checks check V src p lo hi st = (Some (p', v'), out)"
  shows "p' = p" and "\<exists>k st' secs final. k \<le> length (inclusive lo hi) \<and>
    advances check (fetch V src) st (take k (inclusive lo hi)) st' \<and> unix_seconds V = Some secs \<and>
    persist checks secs (of_nat k) st' = Some final \<and> v' = save final \<and>
    (\<forall>e. out = Some (Inl e) \<longrightarrow> k < length (inclusive lo hi) \<and> refused check (fetch V src) st' (inclusive lo hi ! k) e) \<and>
    ((\<forall>e. out \<noteq> Some (Inl e)) \<and> unat hi + 32 < 2 ^ 64 \<longrightarrow> k = length (inclusive lo hi))"
proof -
  obtain st' count outcome where r: "run_batches checks check (fetch V src) hi (batch_starts lo hi) st 0 = Some (st', count, outcome)"
    using assms by (auto simp: verify_window_def split: option.splits)
  obtain secs final where f: "unix_seconds V = Some secs" "persist checks secs count st' = Some final"
    using assms by (auto simp: verify_window_def r bind_eq_Some_conv split: option.splits)
  with assms r have w: "p' = p \<and> v' = save final \<and> (\<forall>e. out = Some (Inl e) \<longleftrightarrow> outcome = Inl e)"
    by (auto simp: verify_window_def split: option.splits sum.splits)
  then show "p' = p" by simp
  obtain ns zs where ns: "inclusive lo hi = ns @ zs" "check_sequence checks check (fetch V src) ns st 0 = Some (st', count, outcome)"
    and whole: "unat hi + 32 < 2 ^ 64 \<longrightarrow> zs = []"
  proof (cases "unat hi + 32 < 2 ^ 64")
    case True
    have "check_sequence checks check (fetch V src) (inclusive lo hi) st 0 = Some (st', count, outcome)"
      using batches_are_sequential [THEN conjunct1, THEN mp, OF True] r by simp
    with that [of "inclusive lo hi" "[]"] show thesis by simp
  next
    case False
    with that run_batches_prefix [OF r] show thesis by blast
  qed
  from check_sequence_advances [OF ns(2)] obtain k where k: "k \<le> length ns" "advances check (fetch V src) st (take k ns) st'"
    "count = of_nat k" "case outcome of Inr _ \<Rightarrow> k = length ns | Inl e \<Rightarrow> k < length ns \<and> refused check (fetch V src) st' (ns ! k) e"
    by auto
  have inc: "k \<le> length (inclusive lo hi)" "take k (inclusive lo hi) = take k ns"
    using k(1) ns(1) by simp_all
  have err: "k < length (inclusive lo hi) \<and> refused check (fetch V src) st' (inclusive lo hi ! k) e" if "out = Some (Inl e)" for e
  proof -
    from that w have "outcome = Inl e" by blast
    with k(4) have "k < length ns" "refused check (fetch V src) st' (ns ! k) e" by simp_all
    then show ?thesis by (simp add: ns(1) nth_append)
  qed
  have all: "k = length (inclusive lo hi)" if "(\<forall>e. out \<noteq> Some (Inl e)) \<and> unat hi + 32 < 2 ^ 64"
    using that w whole k(4) ns(1) by (cases outcome) auto
  show "\<exists>k st' secs final. k \<le> length (inclusive lo hi) \<and>
    advances check (fetch V src) st (take k (inclusive lo hi)) st' \<and> unix_seconds V = Some secs \<and>
    persist checks secs (of_nat k) st' = Some final \<and> v' = save final \<and>
    (\<forall>e. out = Some (Inl e) \<longrightarrow> k < length (inclusive lo hi) \<and> refused check (fetch V src) st' (inclusive lo hi ! k) e) \<and>
    ((\<forall>e. out \<noteq> Some (Inl e)) \<and> unat hi + 32 < 2 ^ 64 \<longrightarrow> k = length (inclusive lo hi))"
    by (intro exI [of _ k] exI [of _ st'] exI [of _ secs] exI [of _ final] conjI allI impI)
      (use inc k(2) f k(3) w err all in simp_all)
qed

lemma sentinel_run_wrote:
  assumes "sentinel_run checks fuel check V args = (Some (p, v'), out)"
  obtains src v floor_block lo new hi where "choose_source V args = Inr src" "p = state_path args" "read_state V p = Inr v"
    "window checks args (load v) = Some (Inr (floor_block, lo))" "newest fuel checks V src floor_block = Some (Inr new)" "lo \<le> new"
    "last_of_run checks (max_blocks_of args) lo new = Some hi"
    "verify_window checks check V src p lo hi (load v) = (Some (p, v'), out)"
proof -
  note run = assms [unfolded sentinel_run_def]
  obtain src v where s: "choose_source V args = Inr src" "read_state V (state_path args) = Inr v"
    using run by (cases "choose_source V args"; cases "read_state V (state_path args)") simp_all
  with run obtain floor_block lo where w: "window checks args (load v) = Some (Inr (floor_block, lo))"
    by (cases "window checks args (load v)") (auto split: sum.splits option.splits simp: and_then_panic_def)
  with run s obtain new where n: "newest fuel checks V src floor_block = Some (Inr new)"
    by (cases "newest fuel checks V src floor_block") (auto split: sum.splits option.splits simp: and_then_panic_def)
  from run s w n have le: "lo \<le> new" by (cases "new < lo") simp_all
  with run s w n obtain hi where h: "last_of_run checks (max_blocks_of args) lo new = Some hi"
    "verify_window checks check V src (state_path args) lo hi (load v) = (Some (p, v'), out)"
    by (cases "last_of_run checks (max_blocks_of args) lo new") (simp_all add: leD)
  have "p = state_path args" by (rule verify_window_wrote(1) [OF h(2)])
  with that [of src v floor_block lo new hi] s w n le h show thesis by simp
qed

text \<open>C22. Verified work is kept and nothing else is recorded: whatever a run writes to the state file is the state
  after the first \<open>k\<close> blocks of its window, each fetched and accepted in turn, with the totals raised by \<open>k\<close>. When
  the run ends with an error, the block after them is the one that could not be fetched or was refused. When it
  does not, \<open>k\<close> is the whole window, up to the block that the newest one and the cap give, unless the window ends within 32 blocks of the
  end of the 64 bits, where the end of a batch can wrap.\<close>

theorem verified_work_is_kept:
  assumes "sentinel_run checks fuel check V args = (Some (p, v'), out)"
  shows "\<exists>src v floor_block lo new hi k st' secs final.
    choose_source V args = Inr src \<and> read_state V p = Inr v \<and> window checks args (load v) = Some (Inr (floor_block, lo)) \<and>
    newest fuel checks V src floor_block = Some (Inr new) \<and> last_of_run checks (max_blocks_of args) lo new = Some hi \<and>
    k \<le> length (inclusive lo hi) \<and> advances check (fetch V src) (load v) (take k (inclusive lo hi)) st' \<and>
    persist checks secs (of_nat k) st' = Some final \<and> v' = save final \<and>
    (\<forall>e. out = Some (Inl e) \<longrightarrow> k < length (inclusive lo hi) \<and> refused check (fetch V src) st' (inclusive lo hi ! k) e) \<and>
    ((\<forall>e. out \<noteq> Some (Inl e)) \<and> unat hi + 32 < 2 ^ 64 \<longrightarrow> k = length (inclusive lo hi))"
proof -
  obtain src v floor_block lo new hi where
    r: "choose_source V args = Inr src" "read_state V p = Inr v" "window checks args (load v) = Some (Inr (floor_block, lo))"
    "newest fuel checks V src floor_block = Some (Inr new)" "last_of_run checks (max_blocks_of args) lo new = Some hi"
    "verify_window checks check V src p lo hi (load v) = (Some (p, v'), out)"
    by (rule sentinel_run_wrote [OF assms])
  from verify_window_wrote(2) [OF r(6)] obtain k st' secs final where
    "k \<le> length (inclusive lo hi)" "advances check (fetch V src) (load v) (take k (inclusive lo hi)) st'"
    "persist checks secs (of_nat k) st' = Some final" "v' = save final"
    "\<forall>e. out = Some (Inl e) \<longrightarrow> k < length (inclusive lo hi) \<and> refused check (fetch V src) st' (inclusive lo hi ! k) e"
    "(\<forall>e. out \<noteq> Some (Inl e)) \<and> unat hi + 32 < 2 ^ 64 \<longrightarrow> k = length (inclusive lo hi)" by blast
  with r(1-5) show ?thesis
    by (intro exI [of _ src] exI [of _ v] exI [of _ floor_block] exI [of _ lo] exI [of _ new] exI [of _ hi] exI [of _ k]
        exI [of _ st'] exI [of _ secs] exI [of _ final] conjI)
qed

section \<open>Any number of runs\<close>

text \<open>The block was served by the source under its own number.\<close>

definition published :: "externals \<Rightarrow> sentinel_env \<Rightarrow> source \<Rightarrow> block_proof_material \<Rightarrow> bool" where
  "published E V src m \<longleftrightarrow> (\<exists>b. fetch V src (block_number m) = Inr b \<and> extract_proof_material E b = Some (Inr m))"

text \<open>No object has a number of \<open>2 ^ 63\<close> or more.\<close>

definition numbers_small :: "sentinel_env \<Rightarrow> source \<Rightarrow> bool" where
  "numbers_small V src \<longleftrightarrow> (\<forall>n b. fetch V src n = Inr b \<longrightarrow> unat n < 2 ^ 63)"

text \<open>A state file and the runs that wrote it: it begins without a verified block, and each run reads what the one
  before wrote, with its own arguments, on its own bucket, with its own outcome.\<close>

inductive sentinel_history :: "bool \<Rightarrow> nat \<Rightarrow> externals \<Rightarrow> (bytes \<Rightarrow> string) \<Rightarrow> hints_verifier \<Rightarrow> json \<Rightarrow> (sentinel_env \<times> source) list \<Rightarrow> bool"
  for checks fuel E hex hints where
  fresh: "\<not> initialized (load v) \<Longrightarrow> verified_total (load v) = None \<Longrightarrow> sentinel_history checks fuel E hex hints v []"
| next_run: "sentinel_history checks fuel E hex hints v runs \<Longrightarrow> read_state V p = Inr v \<Longrightarrow> choose_source V args = Inr src \<Longrightarrow>
    numbers_small V src \<Longrightarrow> sentinel_run checks fuel (check_block E hex hints) V args = (Some (p, v'), out) \<Longrightarrow>
    sentinel_history checks fuel E hex hints v' ((V, src) # runs)"

interpretation sentinel_chain: linked "sentinel_link hex" "\<lambda>m. int (unat (block_number m))" for hex
  by unfold_locales (simp add: sentinel_link_def)

lemma chained_inclusive: "chained (\<lambda>x y. unat y = unat x + 1) (take k (inclusive lo hi))"
proof -
  have u: "unat (of_nat i :: u64) = i" if "i < 2 ^ 64" for i
    using that by (simp add: unsigned_of_nat take_bit_nat_eq_self)
  have "chained (\<lambda>x y. unat (y :: u64) = unat (x :: u64) + 1) (map of_nat [a..<b])" if "b \<le> 2 ^ 64" for a b
    using that
  proof (induction "b - a" arbitrary: a)
    case (Suc d)
    then have ab: "[a..<b] = a # [Suc a..<b]" by (simp add: upt_conv_Cons)
    have "chained (\<lambda>x y. unat (y :: u64) = unat (x :: u64) + 1) (map of_nat [Suc a..<b])"
      using Suc.hyps(1) [of "Suc a"] Suc.hyps(2) Suc.prems by simp
    moreover have "unat (of_nat (Suc a) :: u64) = unat (of_nat a :: u64) + 1" if "Suc a < b"
      using u [of a] u [of "Suc a"] that Suc.prems by (simp del: of_nat_Suc)
    ultimately show ?case
      by (cases "Suc a < b") (simp_all add: ab chained_Cons upt_conv_Cons del: of_nat_Suc)
  qed simp
  moreover have "Suc (unat hi) \<le> 2 ^ 64" using unsigned_less [of hi] by (simp add: Suc_le_eq)
  ultimately have "chained (\<lambda>x y. unat y = unat x + 1) (inclusive lo hi)"
    unfolding inclusive_def by blast
  then show ?thesis by (metis append_take_drop_id chained_append)
qed

text \<open>The blocks of one run.\<close>

lemma advances_chain:
  assumes "advances (check_block E hex hints) (fetch V src) st ns st'"
    and "chained (\<lambda>x y. unat y = unat x + 1) ns"
  shows "\<exists>ms. map block_number ms = ns \<and> chained (sentinel_link hex) ms \<and>
    (\<forall>m \<in> set ms. acceptable hints m \<and> published E V src m) \<and>
    (initialized st', verified_total st') = (initialized st, verified_total st) \<and>
    (if ms = [] then st' = st else describes hex st' (last ms)) \<and>
    (\<forall>p. ms \<noteq> [] \<longrightarrow> describes hex st p \<longrightarrow> unat (hd ns) = unat (block_number p) + 1 \<longrightarrow> sentinel_link hex p (hd ms))"
  using assms
proof (induction rule: advances.induct)
  case (advances_Nil st)
  then show ?case by simp
next
  case (advances_Cons n b st st1 ns st')
  from advances_Cons.hyps(2) obtain m where m: "extract_proof_material E b = Some (Inr m)"
    "check_material hex hints n m st = Some (Inr st1)" by (auto simp: check_block_Inr_iff)
  note step = check_material_step [OF m(2)]
  have ch: "chained (\<lambda>x y. unat y = unat x + 1) ns" "ns \<noteq> [] \<Longrightarrow> unat (hd ns) = unat n + 1"
    using advances_Cons.prems by (auto simp: chained_Cons)
  from advances_Cons.IH [OF ch(1)] obtain ms where ms: "map block_number ms = ns" "chained (sentinel_link hex) ms"
    "\<forall>m \<in> set ms. acceptable hints m \<and> published E V src m"
    "(initialized st', verified_total st') = (initialized st1, verified_total st1)"
    "if ms = [] then st' = st1 else describes hex st' (last ms)"
    "\<forall>p. ms \<noteq> [] \<longrightarrow> describes hex st1 p \<longrightarrow> unat (hd ns) = unat (block_number p) + 1 \<longrightarrow> sentinel_link hex p (hd ms)" by blast
  have "ms \<noteq> [] \<Longrightarrow> sentinel_link hex m (hd ms)" using ms(1,6) ch(2) step by auto
  then have "chained (sentinel_link hex) (m # ms)" using ms(2) by (auto simp: chained_Cons)
  moreover have "published E V src m" using advances_Cons.hyps(1) m(1) step by (auto simp: published_def)
  ultimately show ?case using ms step by (intro exI [of _ "m # ms"]) (auto split: if_splits)
qed

definition explains :: "externals \<Rightarrow> (bytes \<Rightarrow> string) \<Rightarrow> hints_verifier \<Rightarrow> (sentinel_env \<times> source) list \<Rightarrow> block_proof_material list \<Rightarrow> state \<Rightarrow> bool" where
  "explains E hex hints runs ms st \<longleftrightarrow>
     chained (sentinel_link hex) ms \<and>
     (\<forall>m \<in> set ms. acceptable hints m \<and> unat (block_number m) < 2 ^ 63 \<and> (\<exists>(V, src) \<in> set runs. published E V src m)) \<and>
     (initialized st \<longleftrightarrow> ms \<noteq> []) \<and>
     (if ms = [] then verified_total st = None
      else verified_total st = Some (of_nat (length ms)) \<and> describes hex st (last ms))"

lemma persist_explains:
  assumes "persist checks secs (of_nat k) st' = Some final" "k < 2 ^ 64"
    and "initialized st' \<longleftrightarrow> ms \<noteq> []" "verified_total st' = (if ms = [] then None else Some (of_nat (length ms)))"
    and "k = length ms'" "ms @ ms' \<noteq> [] \<Longrightarrow> describes hex st' (last (ms @ ms'))"
  shows "(initialized final \<longleftrightarrow> ms @ ms' \<noteq> []) \<and>
    (if ms @ ms' = [] then verified_total final = None
     else verified_total final = Some (of_nat (length (ms @ ms'))) \<and> describes hex final (last (ms @ ms')))"
proof (cases "k = 0")
  case True
  with assms show ?thesis by (auto simp: persist_def Let_def describes_def split: prod.splits)
next
  case False
  then have "(0 :: u64) < of_nat k" using assms(2) by (simp add: word_less_nat_alt unsigned_of_nat take_bit_nat_eq_self)
  with assms(1) have "initialized final" "verified_total final = Some ((case verified_total st' of Some n \<Rightarrow> n | None \<Rightarrow> 0) + of_nat k)"
    "describes hex final m \<longleftrightarrow> describes hex st' m" for m
    by (auto simp: persist_def Let_def build_add_def describes_def split: prod.splits if_splits)
  with False assms(3-6) show ?thesis by auto
qed

lemma window_next:
  assumes "window checks args st = Some (Inr (floor_block, lo))" "initialized st" "last_block st = Some l" "unat l < 2 ^ 63"
  shows "unat lo = unat l + 1"
proof -
  have "unat l + unat (1 :: u64) < 2 ^ 64" using assms(4) by simp
  from build_add_Some [OF this, of checks] assms(1-3) show ?thesis by (auto simp: window_def)
qed

lemma run_explains:
  assumes inv: "explains E hex hints runs ms (load v)"
    and rd: "read_state V p = Inr v" and src: "choose_source V args = Inr src" and small: "numbers_small V src"
    and run: "sentinel_run checks fuel (check_block E hex hints) V args = (Some (p, v'), out)"
  shows "\<exists>ms'. explains E hex hints ((V, src) # runs) (ms @ ms') (load v')"
proof -
  from sentinel_run_wrote [OF run] rd src obtain floor_block lo hi where
    w: "window checks args (load v) = Some (Inr (floor_block, lo))"
    and vw: "verify_window checks (check_block E hex hints) V src p lo hi (load v) = (Some (p, v'), out)"
    by (metis Inr_inject)
  from verify_window_wrote(2) [OF vw] obtain k st' secs final where k: "k \<le> length (inclusive lo hi)"
    "advances (check_block E hex hints) (fetch V src) (load v) (take k (inclusive lo hi)) st'"
    "persist checks secs (of_nat k) st' = Some final" "v' = save final" by blast
  from advances_chain [OF k(2) chained_inclusive] obtain ms' where
    ms': "map block_number ms' = take k (inclusive lo hi)" "chained (sentinel_link hex) ms'"
    "\<forall>m \<in> set ms'. acceptable hints m \<and> published E V src m"
    "(initialized st', verified_total st') = (initialized (load v), verified_total (load v))"
    "if ms' = [] then st' = load v else describes hex st' (last ms')"
    "\<forall>q. ms' \<noteq> [] \<longrightarrow> describes hex (load v) q \<longrightarrow> unat (hd (take k (inclusive lo hi))) = unat (block_number q) + 1 \<longrightarrow>
       sentinel_link hex q (hd ms')" by blast
  have len: "length ms' = k" using arg_cong [OF ms'(1), of length] k(1) by simp
  have bound: "unat (block_number m) < 2 ^ 63" if "m \<in> set ms'" for m
    using that ms'(3) small by (auto simp: published_def numbers_small_def)
  have "k < 2 ^ 64"
  proof (cases ms' rule: rev_cases)
    case (snoc ys y)
    have "int (unat (block_number y)) = int (unat (block_number (hd ms'))) + int (length ys)"
      using sentinel_chain.chained_numbers [OF ms'(2), of "length ys"] by (simp add: snoc nth_append)
    then have "unat (block_number y) = unat (block_number (hd ms')) + length ys"
      by (metis of_nat_add of_nat_eq_iff)
    with bound [of y] len show ?thesis by (simp add: snoc)
  qed (use len in simp)
  moreover have "sentinel_link hex (last ms) (hd ms')" if "ms \<noteq> []" "ms' \<noteq> []"
  proof -
    have d: "describes hex (load v) (last ms)" and init: "initialized (load v)" and lt: "unat (block_number (last ms)) < 2 ^ 63"
      using inv that(1) by (auto simp: explains_def)
    have "unat lo = unat (block_number (last ms)) + 1"
      by (rule window_next [OF w init _ lt]) (use d in \<open>simp add: describes_def\<close>)
    moreover have "hd (take k (inclusive lo hi)) = lo"
    proof -
      have ne: "inclusive lo hi \<noteq> []" "0 < k" using that(2) len k(1) by auto
      then have "[unat lo..<Suc (unat hi)] = unat lo # [Suc (unat lo)..<Suc (unat hi)]"
        by (simp add: inclusive_def upt_conv_Cons del: upt_Suc split: if_splits)
      then show ?thesis using ne by (cases k) (simp_all add: inclusive_def del: upt_Suc)
    qed
    ultimately show ?thesis using ms'(6) d that(2) by metis
  qed
  then have "chained (sentinel_link hex) (ms @ ms')" using inv ms'(2) by (auto simp: explains_def chained_append)
  moreover have "ms @ ms' \<noteq> [] \<Longrightarrow> describes hex st' (last (ms @ ms'))"
    using ms'(5) inv by (auto simp: explains_def split: if_splits)
  moreover have "\<forall>m \<in> set (ms @ ms'). acceptable hints m \<and> unat (block_number m) < 2 ^ 63 \<and> (\<exists>(V, src) \<in> set ((V, src) # runs). published E V src m)"
    using inv ms'(3) bound by (auto simp: explains_def)
  moreover have "initialized st' \<longleftrightarrow> ms \<noteq> []" "verified_total st' = (if ms = [] then None else Some (of_nat (length ms)))"
    using inv ms'(4) by (auto simp: explains_def)
  ultimately have "explains E hex hints ((V, src) # runs) (ms @ ms') final"
    using persist_explains [OF k(3), of ms ms' hex] len unfolding explains_def by blast
  then have "explains E hex hints ((V, src) # runs) (ms @ ms') (load v')"
    by (simp add: explains_def k(4)) (simp add: load_save)
  then show ?thesis by blast
qed

text \<open>C21. Over any number of runs, whatever the sources answer and however the runs end, the verified blocks are one
  gapless chain: there is a list of blocks, each served by a run's source under its number, each fit to be verified
  (no cutover announced, the threshold signature of a TSS proof passed), their numbers consecutive, each footer
  claiming the root of the block before it, their proofs of one format. The state file
  describes the last of them and its total is their number.\<close>

theorem sentinel_history_gapless:
  assumes "sentinel_history checks fuel E hex hints v runs"
  shows "\<exists>ms. explains E hex hints runs ms (load v) \<and>
    (\<forall>i < length ms. unat (block_number (ms ! i)) = unat (block_number (hd ms)) + i)"
proof -
  have "\<exists>ms. explains E hex hints runs ms (load v)"
    using assms
  proof (induction rule: sentinel_history.induct)
    case (fresh v)
    then have "explains E hex hints [] [] (load v)" by (simp add: explains_def)
    then show ?case by blast
  next
    case (next_run v runs V p args src v' out)
    then show ?case using run_explains by blast
  qed
  then obtain ms where ms: "explains E hex hints runs ms (load v)" by blast
  have "unat (block_number (ms ! i)) = unat (block_number (hd ms)) + i" if "i < length ms" for i
  proof -
    from ms have "chained (sentinel_link hex) ms" by (simp add: explains_def)
    from sentinel_chain.chained_numbers [OF this that] show ?thesis by (metis of_nat_add of_nat_eq_iff)
  qed
  with ms show ?thesis by blast
qed

section \<open>Progress\<close>

text \<open>The next block fits what the state knows.\<close>

definition fits :: "(bytes \<Rightarrow> string) \<Rightarrow> state \<Rightarrow> block_proof_material \<Rightarrow> bool" where
  "fits hex st m \<longleftrightarrow>
     (\<forall>r. last_root st = Some r \<longrightarrow> hex (previous_block_root m) = r) \<and>
     (\<forall>p. known_path st = Some p \<longrightarrow> p = fst (path_name (path (layout m)))) \<and>
     (\<forall>n. known_bytes st = Some n \<longrightarrow> n = layout_bytes (layout m))"

text \<open>A source that holds, for a list of numbers, the blocks of a chain.\<close>

definition holds_chain :: "externals \<Rightarrow> (bytes \<Rightarrow> string) \<Rightarrow> hints_verifier \<Rightarrow> (u64 \<Rightarrow> string + bytes) \<Rightarrow> (u64 \<Rightarrow> block_proof_material) \<Rightarrow> u64 list \<Rightarrow> bool" where
  "holds_chain E hex hints get blk ns \<longleftrightarrow>
     (\<forall>n \<in> set ns. (\<exists>b. get n = Inr b \<and> extract_proof_material E b = Some (Inr (blk n))) \<and> block_number (blk n) = n \<and>
        acceptable hints (blk n) \<and> layout_bytes (layout (blk n)) < usize_limit) \<and>
     chained (\<lambda>x y. sentinel_link hex (blk x) (blk y)) ns"

lemma holds_chain_advances:
  assumes "holds_chain E hex hints get blk ns" "ns \<noteq> [] \<Longrightarrow> fits hex st (blk (hd ns))"
  shows "\<exists>st'. advances (check_block E hex hints) get st ns st' \<and> verified_total st' = verified_total st \<and>
    (ns \<noteq> [] \<longrightarrow> describes hex st' (blk (last ns)))"
  using assms
proof (induction ns arbitrary: st)
  case Nil
  then show ?case by (auto intro: advances_Nil)
next
  case (Cons n ns)
  from Cons.prems(1) obtain b where b: "get n = Inr b" "extract_proof_material E b = Some (Inr (blk n))"
    "block_number (blk n) = n" "acceptable hints (blk n)" "layout_bytes (layout (blk n)) < usize_limit"
    by (auto simp: holds_chain_def)
  have "\<exists>st1. check_material hex hints n (blk n) st = Some (Inr st1)"
    by (rule check_material_accepts) (use Cons.prems(2) b in \<open>auto simp: fits_def\<close>)
  then obtain st1 where st1: "check_material hex hints n (blk n) st = Some (Inr st1)" by blast
  note step = check_material_step [OF st1]
  have rest: "holds_chain E hex hints get blk ns" using Cons.prems(1) by (auto simp: holds_chain_def chained_Cons)
  have "fits hex st1 (blk (hd ns))" if "ns \<noteq> []"
  proof -
    have "sentinel_link hex (blk n) (blk (hd ns))" using Cons.prems(1) that by (simp add: holds_chain_def chained_Cons)
    with step b(5) show ?thesis by (auto simp: fits_def describes_def sentinel_link_def)
  qed
  from Cons.IH [OF rest this] obtain st' where st': "advances (check_block E hex hints) get st1 ns st'"
    "verified_total st' = verified_total st1" "ns \<noteq> [] \<longrightarrow> describes hex st' (blk (last ns))" by blast
  have "advances (check_block E hex hints) get st (n # ns) st'"
    by (rule advances_Cons [OF b(1) _ st'(1)]) (use b(2) st1 in \<open>auto simp: check_block_Inr_iff\<close>)
  moreover have "ns = [] \<Longrightarrow> st' = st1" using st'(1) by simp
  ultimately show ?case using st' step by (intro exI [of _ st']) auto
qed

lemma inclusive_facts:
  assumes "lo \<le> hi"
  shows "length (inclusive lo hi) = Suc (unat hi) - unat lo" "hd (inclusive lo hi) = lo" "last (inclusive lo hi) = hi"
    "inclusive lo hi \<noteq> []"
proof -
  have le: "unat lo \<le> unat hi" using assms by (simp add: word_le_nat_alt)
  show "length (inclusive lo hi) = Suc (unat hi) - unat lo" by (simp add: inclusive_def del: upt_Suc)
  have first: "[unat lo..<Suc (unat hi)] = unat lo # [Suc (unat lo)..<Suc (unat hi)]"
    using le by (intro upt_conv_Cons) simp
  then show "hd (inclusive lo hi) = lo" "inclusive lo hi \<noteq> []" by (simp_all only: inclusive_def first) simp_all
  show "last (inclusive lo hi) = hi" using le by (simp add: inclusive_def)
qed

definition total_of :: "state \<Rightarrow> nat" where
  "total_of st = (case verified_total st of Some n \<Rightarrow> unat n | None \<Rightarrow> 0)"

lemma load_save_kept [simp]:
  "initialized (load (save s)) = initialized s" "total_of (load (save s)) = total_of s"
  by (simp_all add: load_save total_of_def)

lemma verify_window_progress:
  assumes "lo \<le> hi" "unat hi + 32 < 2 ^ 64" "holds_chain E hex hints (fetch V src) blk (inclusive lo hi)" "fits hex st (blk lo)"
    and "unix_seconds V = Some secs" "\<And>v. write_state V p v = Inr ()"
    and "total_of st + (Suc (unat hi) - unat lo) < 2 ^ 64"
  shows "\<exists>v'. verify_window checks (check_block E hex hints) V src p lo hi st = (Some (p, v'), Some (Inr SUCCESS)) \<and>
    describes hex (load v') (blk hi) \<and> initialized (load v') \<and> total_of (load v') = total_of st + (Suc (unat hi) - unat lo)"
proof -
  note inc = inclusive_facts [OF assms(1)]
  let ?k = "Suc (unat hi) - unat lo"
  have le: "unat lo \<le> unat hi" using assms(1) by (simp add: word_le_nat_alt)
  obtain st' where st': "advances (check_block E hex hints) (fetch V src) st (inclusive lo hi) st'"
    "verified_total st' = verified_total st" "describes hex st' (blk hi)"
    using holds_chain_advances [OF assms(3), of st] assms(4) inc by auto
  have small: "?k < 2 ^ 64" using assms(2) by simp
  have run: "run_batches checks (check_block E hex hints) (fetch V src) hi (batch_starts lo hi) st 0 = Some (st', of_nat ?k, Inr ())"
    using advances_check_sequence [OF st'(1), of 0 checks] batches_are_sequential [THEN conjunct1, THEN mp, OF assms(2)] small inc(1)
    by simp
  have k: "unat (of_nat ?k :: u64) = ?k" using small by (simp add: unsigned_of_nat take_bit_nat_eq_self)
  then have pos: "(0 :: u64) < of_nat ?k" using le by (simp add: word_less_nat_alt)
  let ?t = "(case verified_total st of Some n \<Rightarrow> n | None \<Rightarrow> 0) :: u64"
  have tot: "unat ?t = total_of st" by (simp add: total_of_def split: option.split)
  have "build_add checks ?t (of_nat ?k) = Some (?t + of_nat ?k)" "unat (?t + of_nat ?k) = total_of st + ?k"
    using build_add_Some [of ?t "of_nat ?k :: u64" checks] k assms(7) by (simp_all add: tot)
  then obtain final where final: "persist checks secs (of_nat ?k) st' = Some final" "describes hex final (blk hi)"
    "initialized final" "total_of final = total_of st + ?k"
    using pos st'(2,3) by (cases "utc_now secs") (auto simp: persist_def describes_def total_of_def)
  have a: "build_add checks lo (of_nat ?k) = Some (lo + of_nat ?k)" "unat (lo + of_nat ?k) = Suc (unat hi)"
    using build_add_Some [of lo "of_nat ?k :: u64" checks] k le assms(2) by simp_all
  then have "\<not> lo + of_nat ?k < 1" by (auto simp: word_less_nat_alt)
  then have "build_sub checks (lo + of_nat ?k) 1 \<noteq> None" by (simp only: build_sub_def simp_thms if_False) simp
  then have "verify_window checks (check_block E hex hints) V src p lo hi st = (Some (p, save final), Some (Inr SUCCESS))"
    using run final(1) a(1) assms(5,6) by (auto simp: verify_window_def)
  with final(2-4) show ?thesis by simp
qed

lemma run_progress:
  assumes "choose_source V args = Inr src" "read_state V (state_path args) = Inr v" "unix_seconds V = Some secs"
    "\<And>v'. write_state V (state_path args) v' = Inr ()"
    and "window checks args (load v) = Some (Inr (floor_block, lo))" "newest fuel checks V src floor_block = Some (Inr new)"
    and "lo \<le> new" "unat new + 32 < 2 ^ 64" "0 < max_blocks_of args"
    "total_of (load v) + (Suc (unat new) - unat lo) < 2 ^ 64"
    and "holds_chain E hex hints (fetch V src) blk (inclusive lo new)" "fits hex (load v) (blk lo)"
  shows "\<exists>v' hi. sentinel_run checks fuel (check_block E hex hints) V args = (Some (state_path args, v'), Some (Inr SUCCESS)) \<and>
    unat hi = min (unat new) (unat lo + unat (max_blocks_of args) - 1) \<and> last_block (load v') = Some hi \<and>
    describes hex (load v') (blk hi) \<and> initialized (load v') \<and> total_of (load v') = total_of (load v) + (Suc (unat hi) - unat lo)"
proof -
  have "new \<noteq> - 1" using assms(8) by auto
  then have "lo \<noteq> 0 \<or> new \<noteq> - 1" by blast
  from last_of_run_bounds [OF assms(7) this assms(9), of checks] obtain hi where
    hi: "last_of_run checks (max_blocks_of args) lo new = Some hi" "unat hi = min (unat new) (unat lo + unat (max_blocks_of args) - 1)" by blast
  have "0 < unat (max_blocks_of args)" "unat lo \<le> unat new" using assms(7,9) by (simp_all add: word_less_nat_alt word_le_nat_alt)
  with hi(2) have le: "unat lo \<le> unat hi" "unat hi \<le> unat new" by simp_all
  then have split: "inclusive lo new = inclusive lo hi @ map of_nat [Suc (unat hi)..<Suc (unat new)]"
    using upt_add_eq_append [of "unat lo" "Suc (unat hi)" "unat new - unat hi"] by (simp add: inclusive_def del: upt_Suc)
  have hc: "holds_chain E hex hints (fetch V src) blk (inclusive lo hi)"
    using assms(11) by (auto simp: split holds_chain_def chained_append)
  have "blk hi \<in> blk ` set (inclusive lo hi) \<and> block_number (blk hi) = hi"
  proof -
    have "lo \<le> hi" using le by (simp add: word_le_nat_alt)
    from inclusive_facts(3,4) [OF this] have "hi \<in> set (inclusive lo hi)" by (metis last_in_set)
    with hc show ?thesis by (auto simp: holds_chain_def)
  qed
  then have num: "block_number (blk hi) = hi" by simp
  have "lo \<le> hi" "unat hi + 32 < 2 ^ 64" "total_of (load v) + (Suc (unat hi) - unat lo) < 2 ^ 64"
    using le assms(8,10) by (simp_all add: word_le_nat_alt)
  from verify_window_progress [OF this(1,2) hc assms(12) assms(3,4) this(3), where checks = checks] obtain v' where
    v': "verify_window checks (check_block E hex hints) V src (state_path args) lo hi (load v) = (Some (state_path args, v'), Some (Inr SUCCESS))"
    "describes hex (load v') (blk hi)" "initialized (load v')"
    "total_of (load v') = total_of (load v) + (Suc (unat hi) - unat lo)" by blast
  have "sentinel_run checks fuel (check_block E hex hints) V args = (Some (state_path args, v'), Some (Inr SUCCESS))"
    using assms(1,2,5-7) hi(1) v'(1) by (simp add: sentinel_run_def leD)
  with v'(2-4) hi(2) num show ?thesis by (auto simp: describes_def)
qed

text \<open>C23. Progress: when the source holds a chain of acceptable blocks from the first block of the window on and the first
  fits the state, a run ends with success and has verified the window to its end, which is the newest block, or as
  many blocks as the cap allows. So a state file that is run again and again reaches the newest block.\<close>

theorem sentinel_progress:
  assumes "choose_source V args = Inr src" "read_state V (state_path args) = Inr v" "unix_seconds V = Some secs"
    "\<And>v'. write_state V (state_path args) v' = Inr ()"
    and "window checks args (load v) = Some (Inr (floor_block, lo))" "newest fuel checks V src floor_block = Some (Inr new)"
    and "lo \<le> new" "unat new + 32 < 2 ^ 64" "0 < max_blocks_of args"
    "unat (case verified_total (load v) of Some n \<Rightarrow> n | None \<Rightarrow> 0) + (unat new + 1) < 2 ^ 64"
    and "holds_chain E hex hints (fetch V src) blk (inclusive lo new)" "fits hex (load v) (blk lo)"
  shows "\<exists>v' hi. sentinel_run checks fuel (check_block E hex hints) V args = (Some (state_path args, v'), Some (Inr SUCCESS)) \<and>
    unat hi = min (unat new) (unat lo + unat (max_blocks_of args) - 1) \<and> last_block (load v') = Some hi"
proof -
  have "total_of (load v) + (Suc (unat new) - unat lo) < 2 ^ 64"
    using assms(10) by (simp add: total_of_def split: option.splits)
  from run_progress [OF assms(1-9) this assms(11,12)] show ?thesis by blast
qed

section \<open>The window and its cap\<close>

text \<open>The two corners: a window of all 2^64 blocks, whose length no \<open>u64\<close> holds, and a cap of zero.\<close>

lemma last_of_run_all_blocks:
  "last_of_run True max_blocks 0 (- 1) = None" "last_of_run False max_blocks 0 (- 1) = Some (- 1)"
  by (simp_all add: last_of_run_def build_sub_def build_add_def)

lemma last_of_run_zero:
  assumes "lo \<le> new" "lo \<noteq> 0 \<or> new \<noteq> - 1"
  shows "last_of_run True 0 lo new = None" "last_of_run False 0 lo new = Some (lo - 1)"
proof -
  note b = step_to [OF assms]
  then have pos: "0 < new - lo + 1" by (simp add: word_less_nat_alt)
  have lo: "unat lo + unat (0 :: u64) < 2 ^ 64" using unsigned_less [of lo, where ?'a = nat] by simp
  have "lo - 1 < lo" if "\<not> lo < 1" using that by (simp add: word_less_nat_alt unat_sub word_le_nat_alt)
  then show "last_of_run True 0 lo new = None"
    using build_add_Some [OF lo, of True] pos
    unfolding last_of_run_def b(1) Option.bind.bind_lunit by (auto simp: build_sub_def bind_eq_None_conv)
  show "last_of_run False 0 lo new = Some (lo - 1)"
    using pos unfolding last_of_run_def b(1) Option.bind.bind_lunit by (simp add: build_sub_def build_add_def)
qed

lemma in_inclusive: "n \<in> set (inclusive lo hi) \<longleftrightarrow> lo \<le> n \<and> n \<le> hi"
proof
  assume "lo \<le> n \<and> n \<le> hi"
  then have "unat n \<in> set [unat lo..<Suc (unat hi)]" by (auto simp: word_le_nat_alt)
  then have "of_nat (unat n) \<in> set (inclusive lo hi)" unfolding inclusive_def set_map by (rule imageI)
  then show "n \<in> set (inclusive lo hi)" by simp
next
  assume "n \<in> set (inclusive lo hi)"
  then obtain k where k: "n = of_nat k" "unat lo \<le> k" "k \<le> unat hi" by (auto simp: inclusive_def simp del: upt_Suc)
  have "k < 2 ^ 64" using k(3) unsigned_less [of hi, where ?'a = nat] by simp
  then have "unat n = k" by (simp add: k(1) unsigned_of_nat take_bit_nat_eq_self)
  with k(2,3) show "lo \<le> n \<and> n \<le> hi" by (simp add: word_le_nat_alt)
qed

text \<open>C25. The window of a run, for every first block, newest block and cap. With a positive cap it is computed without
  overflow in either build and ends at the newest block, or at the first \<open>max_blocks\<close> blocks. A cap of zero panics in a
  build with overflow checks; in a release build the window ends one below its start, so that it is empty, except
  for a start of zero, where it is all 2^64 blocks. The one window whose length overflows is that of all 2^64 blocks.\<close>

theorem run_window_bounds:
  assumes "lo \<le> new"
  shows "(if lo = 0 \<and> new = - 1 then last_of_run True max_blocks lo new = None \<and> last_of_run False max_blocks lo new = Some new
     else if 0 < max_blocks then \<exists>hi. last_of_run checks max_blocks lo new = Some hi \<and> lo \<le> hi \<and> hi \<le> new \<and>
       unat hi = min (unat new) (unat lo + unat max_blocks - 1)
     else last_of_run True max_blocks lo new = None \<and> last_of_run False max_blocks lo new = Some (lo - 1)) \<and>
    (if lo = 0 then \<forall>n. n \<in> set (inclusive lo (lo - 1)) else inclusive lo (lo - 1) = [] \<and> batch_starts lo (lo - 1) = [])"
proof (rule conjI)
  show "if lo = 0 \<and> new = - 1 then last_of_run True max_blocks lo new = None \<and> last_of_run False max_blocks lo new = Some new
     else if 0 < max_blocks then \<exists>hi. last_of_run checks max_blocks lo new = Some hi \<and> lo \<le> hi \<and> hi \<le> new \<and>
       unat hi = min (unat new) (unat lo + unat max_blocks - 1)
     else last_of_run True max_blocks lo new = None \<and> last_of_run False max_blocks lo new = Some (lo - 1)"
  proof (cases "lo = 0 \<and> new = - 1")
    case True
    then show ?thesis by (simp add: last_of_run_all_blocks)
  next
    case no: False
    then have ne: "lo \<noteq> 0 \<or> new \<noteq> - 1" by blast
    show ?thesis
    proof (cases "0 < max_blocks")
      case True
      from last_of_run_bounds [OF assms ne True, of checks] obtain hi where
        hi: "last_of_run checks max_blocks lo new = Some hi" "unat hi = min (unat new) (unat lo + unat max_blocks - 1)" by blast
      moreover have "0 < unat max_blocks" "unat lo \<le> unat new" using True assms by (simp_all add: word_less_nat_alt word_le_nat_alt)
      ultimately have "lo \<le> hi" "hi \<le> new" by (simp_all add: word_le_nat_alt)
      with hi True no show ?thesis by auto
    next
      case False
      then have "max_blocks = 0" by (simp add: word_neq_0_conv [symmetric])
      with no last_of_run_zero [OF assms ne] show ?thesis unfolding if_not_P [OF no] by simp
    qed
  qed
  show "if lo = 0 then \<forall>n. n \<in> set (inclusive lo (lo - 1)) else inclusive lo (lo - 1) = [] \<and> batch_starts lo (lo - 1) = []"
  proof (cases "lo = 0")
    case True
    have "n \<le> - 1" for n :: u64
    proof -
      have "unat n \<le> 2 ^ 64 - 1" using unsigned_less [of n, where ?'a = nat] by simp
      then show ?thesis unfolding word_le_nat_alt unat_max .
    qed
    with True show ?thesis by (simp add: in_inclusive)
  next
    case False
    then have "unat (lo - 1) < unat lo" by (simp add: unat_minus_one unat_gt_0)
    with False show ?thesis by (simp add: inclusive_def batch_starts_def word_less_nat_alt)
  qed
qed

section \<open>A concrete run\<close>

text \<open>A directory that holds one block, number 7, and a fresh state file.\<close>

definition fresh_state :: state where
  "fresh_state = \<lparr>comment = [], initialized = False, last_block = None, last_root = None, known_path = None,
     known_bytes = None, verified_total = None, since = None, checked = None\<rparr>"

definition demo_dir :: sentinel_env where
  "demo_dir = demo_bucket\<lparr>read_dir_names := \<lambda>_. Inr [''7.blk.gz''],
     read_path := \<lambda>p. if p = local_path ''d'' 7 then Inr demo_block else Inl ''missing'',
     read_state := \<lambda>_. Inr (save fresh_state), write_state := \<lambda>_ _. Inr (), unix_seconds := Some 0\<rparr>"

definition demo_args :: "string list" where
  "demo_args = [''--local-dir'', ''d'', ''--init-block'', ''7'']"

definition demo_hex :: "bytes \<Rightarrow> string" where "demo_hex b = map (\<lambda>w. char_of (unat w)) b"

lemma demo_material:
  "\<exists>m. extract_proof_material demo_env demo_block = Some (Inr m) \<and> block_number m = 7 \<and> material_bootstrap m = None \<and>
     layout m = classify_layout [9]"
proof -
  have "\<exists>st. fold_panic (scan_item demo_env) scan_start [\<lparr>field_number = 1, item_bytes = [0x0a, 0]\<rparr>,
     \<lparr>field_number = 4, item_bytes = [0x22, 1, 5]\<rparr>, \<lparr>field_number = 9, item_bytes = [0x4a, 0]\<rparr>,
     \<lparr>field_number = 12, item_bytes = [0x62, 0]\<rparr>] = Some (Inr st) \<and>
     header st = Some \<lparr>bh_number = 7, bh_hapi_proto_version = None, bh_block_timestamp = None\<rparr> \<and>
     footer st \<noteq> None \<and> block_signature st = Some [9] \<and> scan_bootstrap st = None"
    by (simp add: scan_item_def hash_item_def view_item_def scan_start_def demo_decode demo_add_leaf
        signed_block_signature_def bootstrap_from_def) (simp add: demo_env_def demo_def)
  then show ?thesis
    by (auto simp: extract_proof_material_def scan_block_def demo_block_inflate demo_block_scan finish_scan_def Let_def)
qed

lemma demo_arguments:
  "choose_source demo_dir demo_args = Inr (Local ''d'')" "state_path demo_args = ''docs/sentinel-state.json''"
  "max_blocks_of demo_args = 25000" "flag_u64 demo_args ''--init-block'' = Some 7"
  by (simp_all add: choose_source_def demo_args_def state_path_def max_blocks_of_def flag_u64_def get_at_def DEFAULT_MAX_BLOCKS_def
      parse_u64_def parse_digits_def digit_val_def)

lemma demo_window:
  "window checks demo_args fresh_state = Some (Inr (7, 7))" "newest fuel checks demo_dir (Local ''d'') 7 = Some (Inr 7)"
  by (simp_all add: window_def fresh_state_def demo_arguments demo_dir_def numeric_names_def strip_suffix_def suffix_def
      parse_u64_def parse_digits_def digit_val_def)

lemma demo_fetch: "fetch demo_dir (Local ''d'') n = (if n = 7 then Inr demo_block else Inl (''gap: block '' @ show_u64 n @ '' missing from d (missing)''))"
  by (simp add: demo_dir_def local_path_def)

lemma demo_dir_facts:
  "read_state demo_dir p = Inr (save fresh_state)" "unix_seconds demo_dir = Some 0" "write_state demo_dir p v = Inr ()"
  "verified_total fresh_state = None" "initialized fresh_state = False"
  by (simp_all add: demo_dir_def fresh_state_def)

lemma load_fresh: "load (save fresh_state) = fresh_state"
  by (simp add: load_save fresh_state_def)

lemma demo_chain:
  "\<exists>m. holds_chain demo_env demo_hex None (fetch demo_dir (Local ''d'')) (\<lambda>_. m) (inclusive 7 7) \<and> fits demo_hex fresh_state m"
proof -
  obtain m where m: "extract_proof_material demo_env demo_block = Some (Inr m)" "block_number m = 7" "material_bootstrap m = None"
    "layout m = classify_layout [9]" using demo_material by blast
  have lay: "path (layout m) = Unknown_Path" "layout_bytes (layout m) = 1"
    by (simp_all add: m(4) classify_layout_def FIXED_PREFIX_LENGTH_def HINTS_VK_LENGTH_def HINTS_SIG_LENGTH_def layout_bytes_def)
  have inc: "inclusive 7 7 = [7]" by (simp add: inclusive_def)
  have "holds_chain demo_env demo_hex None (fetch demo_dir (Local ''d'')) (\<lambda>_. m) (inclusive 7 7)"
    using m lay by (simp add: inc holds_chain_def acceptable_def usize_limit_def demo_fetch del: fetch.simps)
  moreover have "fits demo_hex fresh_state m" by (simp add: fits_def fresh_state_def)
  ultimately show ?thesis by blast
qed

lemmas demo_simps = demo_arguments demo_window load_fresh demo_dir_facts

lemma fresh_total [simp]: "total_of fresh_state = 0"
  by (simp add: total_of_def fresh_state_def)

lemma demo_sentinel_run:
  "\<exists>v'. sentinel_run True 27 (check_block demo_env demo_hex None) demo_dir demo_args =
      (Some (''docs/sentinel-state.json'', v'), Some (Inr SUCCESS))"
proof -
  obtain m where "holds_chain demo_env demo_hex None (fetch demo_dir (Local ''d'')) (\<lambda>_. m) (inclusive 7 7)" "fits demo_hex fresh_state m"
    using demo_chain by blast
  then show ?thesis
    using run_progress [of demo_dir demo_args "Local ''d''" "save fresh_state" 0 True 7 7 27 7 demo_env demo_hex None "\<lambda>_. m"]
    by (auto simp: demo_simps simp del: fetch.simps newest.simps)
qed

lemma sentinel_progress_witness:
  "\<exists>v'. sentinel_run True 27 (check_block demo_env demo_hex None) demo_dir demo_args =
      (Some (''docs/sentinel-state.json'', v'), Some (Inr SUCCESS)) \<and> last_block (load v') = Some 7"
proof -
  obtain m where "holds_chain demo_env demo_hex None (fetch demo_dir (Local ''d'')) (\<lambda>_. m) (inclusive 7 7)" "fits demo_hex fresh_state m"
    using demo_chain by blast
  then obtain v' hi where "sentinel_run True 27 (check_block demo_env demo_hex None) demo_dir demo_args =
      (Some (state_path demo_args, v'), Some (Inr SUCCESS))" "unat hi = min 7 (7 + 25000 - 1)" "last_block (load v') = Some hi"
    using sentinel_progress [of demo_dir demo_args "Local ''d''" "save fresh_state" 0 True 7 7 27 7 demo_env demo_hex None "\<lambda>_. m"]
    by (auto simp: demo_simps simp del: fetch.simps newest.simps)
  moreover from this(2) have "hi = 7" by (simp add: word_unat_eq_iff)
  ultimately show ?thesis by (simp add: demo_simps)
qed

lemma batches_are_sequential_witness:
  "run_batches True (\<lambda>n b st. Some (Inr st)) (\<lambda>n. Inr []) 99 (batch_starts 5 99) fresh_state 0 =
     check_sequence True (\<lambda>n b st. Some (Inr st)) (\<lambda>n. Inr []) (inclusive 5 99) fresh_state 0 \<and> batch_starts 5 99 = [5, 37, 69]"
  using batches_are_sequential [THEN conjunct1, THEN mp, of 99 True "\<lambda>n b st. Some (Inr st)" "\<lambda>n. Inr []" 5 fresh_state 0]
  by (simp add: batch_starts_def FETCH_BATCH_def upt_conv_Cons)

lemma verified_work_is_kept_witness:
  "\<exists>v' st' secs final. sentinel_run True 27 (check_block demo_env demo_hex None) demo_dir demo_args = (Some (''docs/sentinel-state.json'', v'), Some (Inr SUCCESS)) \<and>
     advances (check_block demo_env demo_hex None) (fetch demo_dir (Local ''d'')) fresh_state [7] st' \<and>
     persist True secs 1 st' = Some final \<and> v' = save final"
proof -
  obtain v' where run: "sentinel_run True 27 (check_block demo_env demo_hex None) demo_dir demo_args =
      (Some (''docs/sentinel-state.json'', v'), Some (Inr SUCCESS))" using demo_sentinel_run by blast
  have last: "last_of_run True 25000 7 7 = Some 7"
    by (simp add: last_of_run_def build_sub_def build_add_def)
  have inc: "inclusive 7 7 = [7 :: u64]" by (simp add: inclusive_def)
  from verified_work_is_kept [OF run] obtain src v fl lo new hi k st' secs final where
    r: "choose_source demo_dir demo_args = Inr src" "read_state demo_dir ''docs/sentinel-state.json'' = Inr v"
      "window True demo_args (load v) = Some (Inr (fl, lo))" "newest 27 True demo_dir src fl = Some (Inr new)"
      "last_of_run True (max_blocks_of demo_args) lo new = Some hi"
      "advances (check_block demo_env demo_hex None) (fetch demo_dir src) (load v) (take k (inclusive lo hi)) st'"
      "persist True secs (of_nat k) st' = Some final" "v' = save final" "unat hi + 32 < 2 ^ 64 \<longrightarrow> k = length (inclusive lo hi)"
    by blast
  have "src = Local ''d''" "load v = fresh_state" using r(1,2) by (auto simp: demo_simps)
  moreover from this r(3) have "fl = 7" "lo = 7" by (simp_all add: demo_simps)
  moreover from this calculation r(4) have "new = 7" by (simp add: demo_simps del: newest.simps)
  moreover from this calculation r(5) have "hi = 7" by (simp add: demo_simps last)
  moreover from this calculation r(9) have "k = 1" by (simp add: inc)
  ultimately show ?thesis using run r(6-8) by (auto simp: inc simp del: fetch.simps)
qed

lemma sentinel_history_gapless_witness:
  "\<exists>v' ms. sentinel_history True 27 demo_env demo_hex None v' [(demo_dir, Local ''d'')] \<and>
     explains demo_env demo_hex None [(demo_dir, Local ''d'')] ms (load v')"
proof -
  obtain v' where run: "sentinel_run True 27 (check_block demo_env demo_hex None) demo_dir demo_args =
      (Some (''docs/sentinel-state.json'', v'), Some (Inr SUCCESS))" using demo_sentinel_run by blast
  have "sentinel_history True 27 demo_env demo_hex None (save fresh_state) []"
    by (rule fresh) (simp_all add: load_fresh demo_dir_facts)
  then have "sentinel_history True 27 demo_env demo_hex None v' [(demo_dir, Local ''d'')]"
    by (rule next_run [OF _ _ _ _ run])
      (auto simp: demo_dir_facts demo_arguments numbers_small_def demo_fetch simp del: fetch.simps split: if_splits)
  with sentinel_history_gapless [OF this] show ?thesis by blast
qed

lemma run_window_bounds_witness:
  "(\<exists>hi. last_of_run True 10 5 100 = Some hi \<and> unat hi = 14) \<and> last_of_run True 0 5 100 = None"
  using run_window_bounds [of 5 100 10 True] run_window_bounds [of 5 100 0 True] by auto

end
