(* ===== verification/Record_Verify.thy ===== *)
theory Record_Verify
  imports Record_Parse BTree_Map Chain
begin

text \<open>
  The record era's trust machinery, \<open>src/record/verify.rs\<close>: the hash domains of a record file and of
  its metadata, signature files, RSA verification of one node's signature, the address book, the
  running-hash chain across consecutive files, and the attestation of one file by a third of the
  address book.
\<close>

section \<open>Hashes and signature files\<close>

definition record_file_hash :: "externals \<Rightarrow> bytes \<Rightarrow> bytes result" where
  "record_file_hash E bytes = and_then (inflate E bytes) (\<lambda>raw. Inr (sha384 E raw))"

record parsed_signature_file =
  psf_version :: u8
  file_hash :: bytes
  file_signature :: bytes
  metadata_hash :: "bytes option"
  metadata_signature :: "bytes option"

definition non_empty :: "bytes option \<Rightarrow> bytes option" where
  "non_empty h = (case h of Some b \<Rightarrow> if b = [] then None else Some b | None \<Rightarrow> None)"

definition parse_signature_file :: "externals \<Rightarrow> bytes \<Rightarrow> parsed_signature_file result" where
  "parse_signature_file E bytes =
     (if length bytes < 2 then Inl TooShort
      else
        let version = bytes ! 0
        in if version \<noteq> 6 then Inl (UnsupportedSignatureVersion version)
           else and_then (map_err Decode (dec_signature_file E (drop 1 bytes))) (\<lambda>file.
             and_then (ok_or MissingFileSignature (sf_file_signature file)) (\<lambda>file_sig.
             and_then (ok_or MissingFileSignature (non_empty (so_hash_object file_sig))) (\<lambda>hash.
               if so_signature file_sig = [] then Inl MissingFileSignature
               else Inr \<lparr>
                 psf_version = version,
                 file_hash = hash,
                 file_signature = so_signature file_sig,
                 metadata_hash = Option.bind (sf_metadata_signature file) so_hash_object,
                 metadata_signature = map_option so_signature (sf_metadata_signature file)\<rparr>))))"

text \<open>\<open>trim_start_matches("0x")\<close> removes the prefix as often as it is there.\<close>

fun trim_start_0x :: "string \<Rightarrow> string" where
  "trim_start_0x (c # d # s) = (if c = CHR ''0'' \<and> d = CHR ''x'' then trim_start_0x s else c # d # s)"
| "trim_start_0x s = s"

definition verify_node_signature :: "externals \<Rightarrow> bytes \<Rightarrow> bytes \<Rightarrow> string \<Rightarrow> bool result" where
  "verify_node_signature E hash signature public_key_hex =
     and_then (map_err Key (hex_decode E (trim_start_0x public_key_hex))) (\<lambda>der.
     and_then (map_err Key (rsa_key_from_der E der)) (\<lambda>key.
       (case rsa_signature_from E signature of
          None \<Rightarrow> Inr False
        | Some sig \<Rightarrow> Inr (rsa_verify E key hash sig))))"

section \<open>The address book\<close>

type_synonym address_book = "(string, string) btree_map"

text \<open>The entry a node contributes, if it has an account number and a key; a later entry for the same
  account overwrites an earlier one.\<close>

definition book_entry :: "node_address \<Rightarrow> (string \<times> string) option" where
  "book_entry node =
     (case na_node_account_id node of
        None \<Rightarrow> None
      | Some a \<Rightarrow>
          if na_rsa_pub_key node = [] then None
          else (case acc_account a of
                  Some (AccountNum n) \<Rightarrow> Some (dotted (acc_shard_num a) (acc_realm_num a) n, na_rsa_pub_key node)
                | _ \<Rightarrow> None))"

fun insert_nodes :: "address_book \<Rightarrow> node_address list \<Rightarrow> address_book" where
  "insert_nodes entries [] = entries"
| "insert_nodes entries (node # nodes) =
     (case book_entry node of
        None \<Rightarrow> insert_nodes entries nodes
      | Some (k, v) \<Rightarrow> insert_nodes (bt_insert k v entries) nodes)"

definition parse_address_book :: "externals \<Rightarrow> bytes \<Rightarrow> address_book result" where
  "parse_address_book E bytes =
     and_then (map_err Decode (dec_node_address_book E bytes)) (\<lambda>book. Inr (insert_nodes [] book))"

section \<open>The metadata hash\<close>

definition metadata_bytes :: "i32 \<Rightarrow> record_stream_file \<Rightarrow> bytes" where
  "metadata_bytes version file =
     (let v = rsf_hapi_proto_version file
      in int_to_be_bytes 4 version
         @ int_to_be_bytes 4 (version_part sv_major v)
         @ int_to_be_bytes 4 (version_part sv_minor v)
         @ int_to_be_bytes 4 (version_part sv_patch v)
         @ default_bytes (rsf_start_object_running_hash file)
         @ default_bytes (rsf_end_object_running_hash file)
         @ int_to_be_bytes 8 (rsf_block_number file))"

definition record_file_metadata_hash :: "externals \<Rightarrow> bytes \<Rightarrow> bytes result" where
  "record_file_metadata_hash E bytes =
     and_then (inflate E bytes) (\<lambda>buf.
       if length buf < 4 then Inl TooShort
       else
         let version = i32_from_be_bytes (take 4 buf)
         in if version \<noteq> 6 then Inl (UnsupportedVersion version)
            else and_then (map_err Decode (dec_record_stream_file E (drop 4 buf))) (\<lambda>file.
              Inr (sha384 E (metadata_bytes version file))))"

definition verify_metadata_signature :: "externals \<Rightarrow> bytes \<Rightarrow> bytes \<Rightarrow> string \<Rightarrow> bool result" where
  "verify_metadata_signature E record_file_bytes signature_file_bytes public_key_hex =
     and_then (record_file_metadata_hash E record_file_bytes) (\<lambda>hash.
     and_then (parse_signature_file E signature_file_bytes) (\<lambda>sig.
       (case metadata_signature sig of
          None \<Rightarrow> Inr False
        | Some s \<Rightarrow> verify_node_signature E hash s public_key_hex)))"

section \<open>The running-hash chain\<close>

record chain_break =
  break_index :: nat
  reason :: string

fun chain_loop :: "nat \<Rightarrow> (parsed_record_file \<times> parsed_record_file) list \<Rightarrow> chain_break + unit" where
  "chain_loop i [] = Inr ()"
| "chain_loop i ((prev, nxt) # pairs) =
     (if start_running_hash nxt \<noteq> end_running_hash prev then
        Inl \<lparr>break_index = i + 1,
             reason = ''start running hash does not match predecessor's end hash''\<rparr>
      else if Some (prf_block_number nxt) \<noteq> checked_add_i64 (prf_block_number prev) 1 then
        Inl \<lparr>break_index = i + 1,
             reason = ''block number gap: '' @ show_int (prf_block_number nxt) @ '' follows ''
                      @ show_int (prf_block_number prev)\<rparr>
      else chain_loop (i + 1) pairs)"

definition verify_running_hash_chain :: "parsed_record_file list \<Rightarrow> chain_break + unit" where
  "verify_running_hash_chain files = chain_loop 0 (windows2 files)"

section \<open>Attestation\<close>

record node_signature =
  node :: string
  ns_bytes :: bytes

record verify_result =
  vr_hash :: bytes
  vr_valid :: "string list"
  vr_invalid :: "string list"
  vr_unknown :: "string list"
  node_count :: nat
  attested :: bool

definition signature_ok :: "externals \<Rightarrow> bytes \<Rightarrow> node_signature \<Rightarrow> string \<Rightarrow> bool" where
  "signature_ok E h sig public_key =
     (case and_then (parse_signature_file E (ns_bytes sig)) (\<lambda>parsed.
             verify_node_signature E h (file_signature parsed) public_key) of
        Inr b \<Rightarrow> b
      | Inl _ \<Rightarrow> False)"

fun check_signatures :: "externals \<Rightarrow> bytes \<Rightarrow> address_book \<Rightarrow> node_signature list \<Rightarrow>
    string list \<times> string list \<times> string list \<Rightarrow> string list \<times> string list \<times> string list" where
  "check_signatures E h book [] acc = acc"
| "check_signatures E h book (sig # sigs) (ok_nodes, bad_nodes, unknown_nodes) =
     (case bt_get book (node sig) of
        None \<Rightarrow> check_signatures E h book sigs (ok_nodes, bad_nodes, unknown_nodes @ [node sig])
      | Some public_key \<Rightarrow>
          if signature_ok E h sig public_key
          then check_signatures E h book sigs (ok_nodes @ [node sig], bad_nodes, unknown_nodes)
          else check_signatures E h book sigs (ok_nodes, bad_nodes @ [node sig], unknown_nodes))"

definition verify_record_file :: "externals \<Rightarrow> bytes \<Rightarrow> node_signature list \<Rightarrow> address_book \<Rightarrow> verify_result result" where
  "verify_record_file E record_file_bytes signatures book =
     and_then (record_file_hash E record_file_bytes) (\<lambda>h.
       case check_signatures E h book signatures ([], [], []) of
         (ok_nodes, bad_nodes, unknown_nodes) \<Rightarrow>
           Inr \<lparr>vr_hash = h, vr_valid = ok_nodes, vr_invalid = bad_nodes, vr_unknown = unknown_nodes,
                node_count = length book,
                attested = (length book > 0 \<and> length ok_nodes * 3 \<ge> length book)\<rparr>)"

section \<open>The chain check is the neighbour test\<close>

definition record_link :: "parsed_record_file \<Rightarrow> parsed_record_file \<Rightarrow> bool" where
  "record_link prev nxt \<longleftrightarrow>
     start_running_hash nxt = end_running_hash prev \<and>
     checked_add_i64 (prf_block_number prev) 1 = Some (prf_block_number nxt)"

interpretation record_chain: linked record_link prf_block_number
  by unfold_locales (auto simp: record_link_def checked_add_i64_Some)

lemma chain_loop_ok: "chain_loop i pairs = Inr () \<longleftrightarrow> list_all (\<lambda>(p, n). record_link p n) pairs"
  by (induction i pairs rule: chain_loop.induct) (auto simp: record_link_def)

lemma chain_loop_break:
  "chain_loop i pairs = Inl b \<Longrightarrow> \<exists>k < length pairs. break_index b = i + k + 1 \<and>
     list_all (\<lambda>(p, n). record_link p n) (take k pairs) \<and> \<not> (case pairs ! k of (p, n) \<Rightarrow> record_link p n)"
proof (induction i pairs rule: chain_loop.induct)
  case (2 i prev nxt pairs)
  show ?case
  proof (cases "record_link prev nxt")
    case False
    with 2(2) show ?thesis
      by (intro exI [of _ 0]) (auto simp: record_link_def split: if_splits)
  next
    case True
    then have "start_running_hash nxt = end_running_hash prev"
      "Some (prf_block_number nxt) = checked_add_i64 (prf_block_number prev) 1"
      by (simp_all add: record_link_def)
    moreover from this have "chain_loop (i + 1) pairs = Inl b" using 2(2) by simp
    ultimately have "\<exists>k < length pairs. break_index b = i + 1 + k + 1 \<and>
       list_all (\<lambda>(p, n). record_link p n) (take k pairs) \<and> \<not> (case pairs ! k of (p, n) \<Rightarrow> record_link p n)"
      using "2.IH" by blast
    then obtain k where "k < length pairs \<and> break_index b = i + 1 + k + 1 \<and>
       list_all (\<lambda>(p, n). record_link p n) (take k pairs) \<and> \<not> (case pairs ! k of (p, n) \<Rightarrow> record_link p n)"
      by (rule exE)
    with True show ?thesis by (intro exI [of _ "Suc k"]) simp
  qed
qed simp

lemma verify_running_hash_chain_iff: "verify_running_hash_chain files = Inr () \<longleftrightarrow> chained record_link files"
  by (simp add: verify_running_hash_chain_def chain_loop_ok chained_windows2)

lemma take_windows2: "k < length xs \<Longrightarrow> take k (windows2 xs) = windows2 (take (Suc k) xs)"
proof (induction xs arbitrary: k rule: windows2.induct)
  case (1 x y zs)
  then show ?case by (cases k) (auto simp: take_Suc_conv_app_nth split: nat.split)
qed (auto simp: less_Suc_eq)

section \<open>Attestation\<close>

lemma check_signatures_split:
  "check_signatures E h book sigs (a, b, c) =
     (a @ map node (filter (\<lambda>s. case bt_get book (node s) of Some key \<Rightarrow> signature_ok E h s key | None \<Rightarrow> False) sigs),
      b @ map node (filter (\<lambda>s. case bt_get book (node s) of Some key \<Rightarrow> \<not> signature_ok E h s key | None \<Rightarrow> False) sigs),
      c @ map node (filter (\<lambda>s. bt_get book (node s) = None) sigs))"
  by (induction sigs arbitrary: a b c) (auto split: option.split)

lemma verify_record_file_Inr_iff:
  "verify_record_file E file sigs book = Inr r \<longleftrightarrow>
     (\<exists>raw. inflate E file = Inr raw \<and>
        r = \<lparr>vr_hash = sha384 E raw,
             vr_valid = map node (filter (\<lambda>s. case bt_get book (node s) of Some key \<Rightarrow> signature_ok E (sha384 E raw) s key | None \<Rightarrow> False) sigs),
             vr_invalid = map node (filter (\<lambda>s. case bt_get book (node s) of Some key \<Rightarrow> \<not> signature_ok E (sha384 E raw) s key | None \<Rightarrow> False) sigs),
             vr_unknown = map node (filter (\<lambda>s. bt_get book (node s) = None) sigs),
             node_count = length book,
             attested = (length book > 0 \<and> length (map node (filter (\<lambda>s. case bt_get book (node s) of Some key \<Rightarrow> signature_ok E (sha384 E raw) s key | None \<Rightarrow> False) sigs)) * 3 \<ge> length book)\<rparr>)"
  by (cases "inflate E file") (auto simp: verify_record_file_def record_file_hash_def check_signatures_split)

lemma insert_nodes_build: "insert_nodes entries nodes = bt.build entries (filter_map book_entry nodes)"
  by (induction entries nodes rule: insert_nodes.induct) (auto split: option.split)

text \<open>The version numbers are values of \<open>i32\<close>.\<close>

definition version_fits :: "record_stream_file \<Rightarrow> bool" where
  "version_fits m \<longleftrightarrow>
     list_all (\<lambda>part. - (2 ^ 31) \<le> version_part part (rsf_hapi_proto_version m) \<and>
                     version_part part (rsf_hapi_proto_version m) < 2 ^ 31) [sv_major, sv_minor, sv_patch]"

lemma metadata_bytes_inject:
  assumes "metadata_bytes v f = metadata_bytes w g"
    and "length (default_bytes (rsf_start_object_running_hash f)) = length (default_bytes (rsf_start_object_running_hash g))"
    and "version_fits f" "version_fits g"
    and "in_i64 (rsf_block_number f)" "in_i64 (rsf_block_number g)"
  shows "default_bytes (rsf_start_object_running_hash f) = default_bytes (rsf_start_object_running_hash g)"
    "default_bytes (rsf_end_object_running_hash f) = default_bytes (rsf_end_object_running_hash g)"
    "rsf_block_number f = rsf_block_number g"
    "\<And>part :: semantic_version \<Rightarrow> i32. part \<in> {sv_major, sv_minor, sv_patch} \<Longrightarrow>
      version_part part (rsf_hapi_proto_version f) = version_part part (rsf_hapi_proto_version g)"
proof -
  note eq = assms(1)[unfolded metadata_bytes_def Let_def]
  from eq assms(2) have parts:
    "default_bytes (rsf_start_object_running_hash f) = default_bytes (rsf_start_object_running_hash g)"
    "default_bytes (rsf_end_object_running_hash f) @ int_to_be_bytes 8 (rsf_block_number f) =
     default_bytes (rsf_end_object_running_hash g) @ int_to_be_bytes 8 (rsf_block_number g)"
    "int_to_be_bytes 4 (version_part sv_major (rsf_hapi_proto_version f)) = int_to_be_bytes 4 (version_part sv_major (rsf_hapi_proto_version g))"
    "int_to_be_bytes 4 (version_part sv_minor (rsf_hapi_proto_version f)) = int_to_be_bytes 4 (version_part sv_minor (rsf_hapi_proto_version g))"
    "int_to_be_bytes 4 (version_part sv_patch (rsf_hapi_proto_version f)) = int_to_be_bytes 4 (version_part sv_patch (rsf_hapi_proto_version g))"
    by simp_all
  show "default_bytes (rsf_start_object_running_hash f) = default_bytes (rsf_start_object_running_hash g)"
    by (rule parts(1))
  have tail: "default_bytes (rsf_end_object_running_hash f) = default_bytes (rsf_end_object_running_hash g) \<and>
      int_to_be_bytes 8 (rsf_block_number f) = int_to_be_bytes 8 (rsf_block_number g)"
    using parts(2) by (simp add: append_eq_append_conv)
  then show "default_bytes (rsf_end_object_running_hash f) = default_bytes (rsf_end_object_running_hash g)" by simp
  show "rsf_block_number f = rsf_block_number g"
    using conjunct2 [OF tail] assms(5,6) by (intro int_to_be_bytes_inject) (auto simp: in_i64_def)
  fix part :: "semantic_version \<Rightarrow> i32"
  assume part: "part \<in> {sv_major, sv_minor, sv_patch}"
  have range: "- (2 ^ 31) \<le> version_part part (rsf_hapi_proto_version m) \<and> version_part part (rsf_hapi_proto_version m) < 2 ^ 31"
    if "m \<in> {f, g}" for m using assms(3,4) part that by (auto simp: version_fits_def)
  have "int_to_be_bytes 4 (version_part part (rsf_hapi_proto_version f)) = int_to_be_bytes 4 (version_part part (rsf_hapi_proto_version g))"
    using part parts(3-5) by auto
  then show "version_part part (rsf_hapi_proto_version f) = version_part part (rsf_hapi_proto_version g)"
    using range [of f] range [of g] by (intro int_to_be_bytes_inject) auto
qed

section \<open>The theorems\<close>

text \<open>C17. An accepted sequence of record files has no gap and no repetition, in its hashes and in
  its block numbers: the numbers are those from the first file's on, and each file starts at the
  running hash its predecessor ends with. Of all the arrangements of the same files at most one is
  accepted.\<close>

theorem running_hash_chain_gapless:
  assumes "verify_running_hash_chain (f # files) = Inr ()"
  shows "map prf_block_number (f # files) = map (\<lambda>i. prf_block_number f + int i) [0..<length (f # files)] \<and>
    (\<forall>i < length files. start_running_hash ((f # files) ! Suc i) = end_running_hash ((f # files) ! i)) \<and>
    (\<forall>files'. set files' = set (f # files) \<longrightarrow> verify_running_hash_chain files' = Inr () \<longrightarrow> files' = f # files)"
proof (intro conjI allI impI)
  have ch: "chained record_link (f # files)"
    using assms by (simp only: verify_running_hash_chain_iff)
  show "map prf_block_number (f # files) = map (\<lambda>i. prf_block_number f + int i) [0..<length (f # files)]"
    by (rule record_chain.chained_numbers_list [OF ch])
  show "start_running_hash ((f # files) ! Suc i) = end_running_hash ((f # files) ! i)" if "i < length files" for i
    using chained_nth [OF ch, of i] that by (simp add: record_link_def)
  show "files' = f # files" if "set files' = set (f # files)" "verify_running_hash_chain files' = Inr ()" for files'
    using record_chain.chained_arrangement_unique [OF _ ch that(1)] that(2)
    by (simp only: verify_running_hash_chain_iff)
qed

lemma running_hash_chain_gapless_witness:
  "let f = \<lparr>prf_version = 6, prf_block_number = 7, start_running_hash = [1], end_running_hash = [2],
            prf_hapi_version = ''0.1.0'', prf_transactions = []\<rparr>;
       g = f\<lparr>prf_block_number := 8, start_running_hash := [2], end_running_hash := [3]\<rparr>
   in verify_running_hash_chain [f, g] = Inr () \<and> map prf_block_number [f, g] = [7, 8]"
proof -
  let ?f = "\<lparr>prf_version = 6, prf_block_number = 7, start_running_hash = [1], end_running_hash = [2],
            prf_hapi_version = ''0.1.0'', prf_transactions = []\<rparr>"
  let ?g = "?f\<lparr>prf_block_number := 8, start_running_hash := [2], end_running_hash := [3]\<rparr>"
  have ok: "verify_running_hash_chain [?f, ?g] = Inr ()"
    by (simp add: verify_running_hash_chain_def checked_add_i64_def in_i64_def)
  from running_hash_chain_gapless [OF this] ok show ?thesis by (simp add: Let_def)
qed

text \<open>A reported break is the first one: its index is that of a file whose link to its
  predecessor fails, and the files before it form a chain.\<close>

theorem running_hash_chain_first_break:
  assumes "verify_running_hash_chain files = Inl b"
  shows "0 < break_index b \<and> break_index b < length files \<and>
    verify_running_hash_chain (take (break_index b) files) = Inr () \<and>
    \<not> record_link (files ! (break_index b - 1)) (files ! break_index b)"
proof -
  have "\<exists>k < length (windows2 files). break_index b = 0 + k + 1 \<and>
     list_all (\<lambda>(p, n). record_link p n) (take k (windows2 files)) \<and>
     \<not> (case windows2 files ! k of (p, n) \<Rightarrow> record_link p n)"
    using assms chain_loop_break unfolding verify_running_hash_chain_def by blast
  then obtain k where k: "k < length (windows2 files) \<and> break_index b = 0 + k + 1 \<and>
     list_all (\<lambda>(p, n). record_link p n) (take k (windows2 files)) \<and>
     \<not> (case windows2 files ! k of (p, n) \<Rightarrow> record_link p n)"
    by (rule exE)
  then have lt: "Suc k < length files" using conjunct1 [OF k] by (simp only: length_windows2) linarith
  then have "take k (windows2 files) = windows2 (take (Suc k) files)" by (simp add: take_windows2)
  with k lt show ?thesis
    by (simp add: verify_running_hash_chain_iff chained_windows2 windows2_nth)
qed

lemma running_hash_chain_first_break_witness:
  "let f = \<lparr>prf_version = 6, prf_block_number = 2 ^ 63 - 1, start_running_hash = [1], end_running_hash = [1],
            prf_hapi_version = ''0.1.0'', prf_transactions = []\<rparr>
   in \<exists>b. verify_running_hash_chain [f, f] = Inl b \<and> break_index b = 1 \<and> \<not> record_link f f"
proof -
  let ?f = "\<lparr>prf_version = 6, prf_block_number = 2 ^ 63 - 1, start_running_hash = [1], end_running_hash = [1],
            prf_hapi_version = ''0.1.0'', prf_transactions = []\<rparr>"
  obtain b where b: "verify_running_hash_chain [?f, ?f] = Inl b" "break_index b = 1"
    by (simp add: verify_running_hash_chain_def checked_add_i64_def in_i64_def)
  from running_hash_chain_first_break [OF b(1)] b show ?thesis by (simp add: Let_def)
qed

lemma attestation_facts:
  assumes "verify_record_file E file_bytes sigs book = Inr r"
  shows "\<exists>raw. inflate E file_bytes = Inr raw \<and> vr_hash r = sha384 E raw \<and>
    (\<forall>n \<in> set (vr_valid r). \<exists>s \<in> set sigs. \<exists>key parsed.
        node s = n \<and> bt_get book n = Some key \<and> parse_signature_file E (ns_bytes s) = Inr parsed \<and>
        verify_node_signature E (sha384 E raw) (file_signature parsed) key = Inr True) \<and>
    length (vr_valid r) + length (vr_invalid r) + length (vr_unknown r) = length sigs \<and>
    (distinct (map node sigs) \<longrightarrow> bt_wf book \<longrightarrow> attested r \<longrightarrow>
        set (vr_valid r) \<subseteq> dom (bt_get book) \<and> 0 < card (dom (bt_get book)) \<and>
        card (dom (bt_get book)) \<le> 3 * card (set (vr_valid r)))"
proof -
  obtain raw where raw: "inflate E file_bytes = Inr raw" and r: "r = \<lparr>vr_hash = sha384 E raw,
      vr_valid = map node (filter (\<lambda>s. case bt_get book (node s) of Some key \<Rightarrow> signature_ok E (sha384 E raw) s key | None \<Rightarrow> False) sigs),
      vr_invalid = map node (filter (\<lambda>s. case bt_get book (node s) of Some key \<Rightarrow> \<not> signature_ok E (sha384 E raw) s key | None \<Rightarrow> False) sigs),
      vr_unknown = map node (filter (\<lambda>s. bt_get book (node s) = None) sigs),
      node_count = length book,
      attested = (length book > 0 \<and> length (map node (filter (\<lambda>s. case bt_get book (node s) of Some key \<Rightarrow> signature_ok E (sha384 E raw) s key | None \<Rightarrow> False) sigs)) * 3 \<ge> length book)\<rparr>"
    using assms unfolding verify_record_file_Inr_iff by blast
  have valid: "\<exists>s \<in> set sigs. \<exists>key parsed. node s = n \<and> bt_get book n = Some key \<and>
      parse_signature_file E (ns_bytes s) = Inr parsed \<and>
      verify_node_signature E (sha384 E raw) (file_signature parsed) key = Inr True"
    if "n \<in> set (vr_valid r)" for n
  proof -
    from that r obtain s key where s: "s \<in> set sigs" "node s = n" "bt_get book n = Some key"
        "signature_ok E (sha384 E raw) s key"
      by (auto split: option.splits)
    from s(4) obtain parsed where "parse_signature_file E (ns_bytes s) = Inr parsed"
        "verify_node_signature E (sha384 E raw) (file_signature parsed) key = Inr True"
      by (auto simp: signature_ok_def and_then_def split: sum.splits)
    with s show ?thesis by blast
  qed
  have "length (vr_valid r) + length (vr_invalid r) + length (vr_unknown r) = length sigs"
    unfolding r by (induction sigs) (auto split: option.splits)
  moreover have "set (vr_valid r) \<subseteq> dom (bt_get book)" using valid by blast
  moreover have "card (dom (bt_get book)) \<le> 3 * card (set (vr_valid r))" "0 < card (dom (bt_get book))"
    if "distinct (map node sigs)" "bt_wf book" "attested r"
  proof -
    have "distinct (vr_valid r)" using that(1) by (simp add: r distinct_map_filter)
    then have "card (set (vr_valid r)) = length (vr_valid r)" by (rule distinct_card)
    with that(2,3) r bt_length_dom [of book] show "card (dom (bt_get book)) \<le> 3 * card (set (vr_valid r))"
      "0 < card (dom (bt_get book))" by simp_all
  qed
  ultimately show ?thesis using raw r valid by (intro exI [of _ raw]) simp
qed

text \<open>C16. What an attestation says: every signature file is put in exactly one of the three lists; a
  node is listed as valid only when it is in the address book and a signature file under its name
  holds a signature that verifies, under the key the book has for it, over the hash computed from
  the file at hand. When no node is named twice, an attested file has valid signatures of distinct
  nodes of the book that are at least a third of it.\<close>

theorem attestation_sound:
  assumes "verify_record_file E file_bytes sigs book = Inr r"
  shows "\<exists>raw. inflate E file_bytes = Inr raw \<and> vr_hash r = sha384 E raw \<and>
    (\<forall>n \<in> set (vr_valid r). \<exists>s \<in> set sigs. \<exists>key parsed.
        node s = n \<and> bt_get book n = Some key \<and> parse_signature_file E (ns_bytes s) = Inr parsed \<and>
        verify_node_signature E (sha384 E raw) (file_signature parsed) key = Inr True) \<and>
    length (vr_valid r) + length (vr_invalid r) + length (vr_unknown r) = length sigs \<and>
    (distinct (map node sigs) \<longrightarrow> bt_wf book \<longrightarrow> attested r \<longrightarrow>
        set (vr_valid r) \<subseteq> dom (bt_get book) \<and> 0 < card (dom (bt_get book)) \<and>
        card (dom (bt_get book)) \<le> 3 * card (set (vr_valid r)))"
  using assms by (rule attestation_facts)

lemma attestation_sound_witness:
  "let sig = \<lparr>node = ''0.0.3'', ns_bytes = 6 # 97 # replicate 48 0\<rparr>
   in \<exists>r. verify_record_file demo [] [sig] [(''0.0.3'', ''a'')] = Inr r \<and> attested r \<and> vr_valid r = [''0.0.3'']"
proof -
  let ?sig = "\<lparr>node = ''0.0.3'', ns_bytes = 6 # 97 # replicate 48 0\<rparr>"
  obtain r where r: "verify_record_file demo [] [?sig] [(''0.0.3'', ''a'')] = Inr r" "attested r" "vr_valid r = [''0.0.3'']"
    by (simp add: verify_record_file_def record_file_hash_def inflate_def is_gzip_def bt_get_def
        signature_ok_def parse_signature_file_def demo_def verify_node_signature_def demo_hash_def
        non_empty_def)
  from attestation_sound [OF r(1)] r show ?thesis by (auto simp: Let_def)
qed

text \<open>Without distinct node names the threshold counts signature files, not nodes: one node's
  valid signature handed in twice attests a file for a book of four nodes, of which one (less
  than a third) has signed.\<close>

theorem attestation_counts_duplicates:
  "let sig = \<lparr>node = ''0.0.3'', ns_bytes = 6 # 97 # replicate 48 0\<rparr>;
       book = [(''0.0.3'', ''a''), (''0.0.4'', ''b''), (''0.0.5'', ''c''), (''0.0.6'', ''d'')]
   in \<exists>r. verify_record_file demo [] [sig, sig] book = Inr r \<and> attested r \<and>
        3 * card (set (vr_valid r)) < card (dom (bt_get book))"
proof -
  let ?sig = "\<lparr>node = ''0.0.3'', ns_bytes = 6 # 97 # replicate 48 0\<rparr>"
  let ?book = "[(''0.0.3'', ''a''), (''0.0.4'', ''b''), (''0.0.5'', ''c''), (''0.0.6'', ''d'')]"
  have "\<exists>r. verify_record_file demo [] [?sig, ?sig] ?book = Inr r \<and> attested r \<and> vr_valid r = [''0.0.3'', ''0.0.3'']"
    by (simp add: verify_record_file_def record_file_hash_def inflate_def is_gzip_def bt_get_def
        signature_ok_def parse_signature_file_def demo_def verify_node_signature_def demo_hash_def
        non_empty_def)
  moreover have "bt_get ?book = map_of ?book" by (rule ext) (simp add: bt_get_def)
  then have "card (dom (bt_get ?book)) = 4" by (simp only: dom_map_of_conv_image_fst) simp
  ultimately show ?thesis by (auto simp: Let_def)
qed

text \<open>The signed metadata determines what it covers: when the bytes hashed for two files agree and
  their start running hashes have the same length, then so do the running hashes, the block number
  and the version numbers.\<close>

theorem metadata_bytes_injective:
  assumes "metadata_bytes v f = metadata_bytes w g"
    and "length (default_bytes (rsf_start_object_running_hash f)) = length (default_bytes (rsf_start_object_running_hash g))"
    and "version_fits f" "version_fits g"
    and "in_i64 (rsf_block_number f)" "in_i64 (rsf_block_number g)"
  shows "default_bytes (rsf_start_object_running_hash f) = default_bytes (rsf_start_object_running_hash g) \<and>
    default_bytes (rsf_end_object_running_hash f) = default_bytes (rsf_end_object_running_hash g) \<and>
    rsf_block_number f = rsf_block_number g \<and>
    (\<forall>part \<in> {sv_major, sv_minor, sv_patch}.
      version_part part (rsf_hapi_proto_version f) = version_part part (rsf_hapi_proto_version g))"
  using metadata_bytes_inject [OF assms] by blast

lemma metadata_bytes_injective_witness:
  "let f = \<lparr>rsf_hapi_proto_version = None, rsf_start_object_running_hash = Some [1],
            rsf_record_stream_items = [], rsf_end_object_running_hash = Some [2], rsf_block_number = 7\<rparr>
   in metadata_bytes 6 f \<noteq> metadata_bytes 6 (f\<lparr>rsf_block_number := 8\<rparr>)"
proof -
  let ?f = "\<lparr>rsf_hapi_proto_version = None, rsf_start_object_running_hash = Some [1],
            rsf_record_stream_items = [], rsf_end_object_running_hash = Some [2], rsf_block_number = 7\<rparr>"
  have False if "metadata_bytes 6 ?f = metadata_bytes 6 (?f\<lparr>rsf_block_number := 8\<rparr>)"
    using metadata_bytes_injective [OF that] by (auto simp: version_fits_def version_part_def in_i64_def)
  then show ?thesis by (auto simp: Let_def)
qed

text \<open>The address book has one entry for each account that some node of the message names with a
  key, the key of the last such node, and its size, against which the threshold is computed, is
  the number of these accounts.\<close>

theorem parse_address_book_entries:
  assumes "parse_address_book E bytes = Inr book" "dec_node_address_book E bytes = Inr nodes"
  shows "bt_wf book \<and> (\<forall>k. bt_get book k = map_of (rev (filter_map book_entry nodes)) k) \<and>
    length book = card (fst ` set (filter_map book_entry nodes))"
proof -
  have book: "book = bt.build [] (filter_map book_entry nodes)"
    using assms by (simp add: parse_address_book_def insert_nodes_build)
  have "bt_get book k = map_of (rev (filter_map book_entry nodes)) k" for k
    by (simp add: book bt.get_build [OF bt.wf_empty] bt.get_empty split: option.split)
  then show ?thesis
    by (simp add: book bt.wf_build [OF bt.wf_empty] bt.len_build)
qed

lemma parse_address_book_entries_witness:
  "let node = (\<lambda>n k. \<lparr>na_node_account_id = Some \<lparr>acc_shard_num = 0, acc_realm_num = 0, acc_account = Some (AccountNum n)\<rparr>,
                     na_rsa_pub_key = k\<rparr>);
       E = demo\<lparr>dec_node_address_book := \<lambda>_. Inr [node 3 ''aa'', node 4 [], node 3 ''bb'']\<rparr>
   in \<exists>book. parse_address_book E [] = Inr book \<and> bt_get book ''0.0.3'' = Some ''bb'' \<and> length book = 1"
proof -
  let ?node = "\<lambda>n k. \<lparr>na_node_account_id = Some \<lparr>acc_shard_num = 0, acc_realm_num = 0, acc_account = Some (AccountNum n)\<rparr>,
                     na_rsa_pub_key = k\<rparr>"
  let ?nodes = "[?node 3 ''aa'', ?node 4 [], ?node 3 ''bb'']"
  let ?E = "demo\<lparr>dec_node_address_book := \<lambda>_. Inr ?nodes\<rparr>"
  have entries: "filter_map book_entry ?nodes = [(''0.0.3'', ''aa''), (''0.0.3'', ''bb'')]"
    by (simp add: book_entry_def dotted_def show_int_def show_nat.simps)
  obtain book where book: "parse_address_book ?E [] = Inr book" by (simp add: parse_address_book_def)
  have "dec_node_address_book ?E [] = Inr ?nodes" by simp
  from parse_address_book_entries [OF book this] have
    "bt_get book ''0.0.3'' = Some ''bb''" "length book = 1"
    unfolding entries by simp_all
  with book show ?thesis by (auto simp: Let_def)
qed

end
