(* ===== verification/Attest.thy ===== *)
theory Attest
  imports Sentinel_Run Record_Verify
begin

text \<open>
  \<open>src/cli/attest.rs\<close>: the address book page by page from a mirror node, every node's signature file from
  the bucket, and the attestation of one record file. Requests, files and the environment are those of
  \<open>sentinel_env\<close>; \<open>parse_json\<close> is \<open>into_string\<close> and \<open>serde_json::from_str\<close>, \<open>hex\<close> is \<open>hex::encode\<close>. The book is read
  by following links for as long as the mirror gives one, so that loop takes fuel and \<open>None\<close> is fuel that ran out.
\<close>

section \<open>Names and paths\<close>

definition BUCKET :: string where
  "BUCKET = ''https://storage.googleapis.com/storage/v1/b/hedera-mainnet-streams/o''"

definition unreserved :: "char \<Rightarrow> bool" where
  "unreserved c \<longleftrightarrow>
     (let b = of_char c :: nat in (65 \<le> b \<and> b \<le> 90) \<or> (97 \<le> b \<and> b \<le> 122) \<or> (48 \<le> b \<and> b \<le> 57)) \<or>
     c \<in> {CHR ''-'', CHR ''.'', CHR ''_'', CHR ''~''}"

text \<open>\<open>{b:02X}\<close>\<close>

definition hex_upper :: "nat \<Rightarrow> char" where
  "hex_upper d = (if d < 10 then digit_char d else char_of (55 + d))"

fun percent_encode :: "string \<Rightarrow> string" where
  "percent_encode [] = []"
| "percent_encode (c # cs) =
     (if unreserved c then [c] else [CHR ''%'', hex_upper (of_char c div 16), hex_upper (of_char c mod 16)]) @ percent_encode cs"

text \<open>\<open>Path::file_name\<close>: the last component, unless it is \<open>..\<close>; empty components and dots do not count.\<close>

fun path_components :: "string \<Rightarrow> string \<Rightarrow> string list" where
  "path_components acc [] = [acc]"
| "path_components acc (c # cs) = (if c = CHR ''/'' then acc # path_components [] cs else path_components (acc @ [c]) cs)"

definition file_name :: "string \<Rightarrow> string option" where
  "file_name p =
     (case rev (filter (\<lambda>c. c \<noteq> [] \<and> c \<noteq> ''.'') (path_components [] p)) of
        [] \<Rightarrow> None
      | c # _ \<Rightarrow> if c = ''..'' then None else Some c)"

text \<open>\<open>trim_end_matches\<close> with a pattern that is not empty: as often as it is there.\<close>

function trim_end :: "string \<Rightarrow> string \<Rightarrow> string" where
  "trim_end pat s = (if pat \<noteq> [] \<and> suffix pat s then trim_end pat (take (length s - length pat) s) else s)"
  by pat_completeness auto
termination
  by (relation "measure (\<lambda>(pat, s). length s)") (auto simp: suffix_def)

declare trim_end.simps [simp del]

definition sig_name_of :: "string \<Rightarrow> string" where
  "sig_name_of name = trim_end ''.rcd'' (trim_end ''.gz'' name) @ ''.rcd_sig''"

section \<open>The address book of a mirror\<close>

definition as_array :: "json \<Rightarrow> json list option" where
  "as_array v = (case v of Array xs \<Rightarrow> Some xs | _ \<Rightarrow> None)"

definition node_entry :: "json \<Rightarrow> (string \<times> string) option" where
  "node_entry n =
     (case (as_str (json_get n ''node_account_id''), as_str (json_get n ''public_key'')) of
        (Some account, Some key) \<Rightarrow> Some (account, trim_start_0x key)
      | _ \<Rightarrow> None)"

definition add_page :: "json \<Rightarrow> Record_Verify.address_book \<Rightarrow> Record_Verify.address_book" where
  "add_page body book =
     foldl (\<lambda>m n. case node_entry n of Some (account, key) \<Rightarrow> bt_insert account key m | None \<Rightarrow> m) book
       (case as_array (json_get body ''nodes'') of Some ns \<Rightarrow> ns | None \<Rightarrow> [])"

definition get_page :: "sentinel_env \<Rightarrow> (bytes \<Rightarrow> string + json) \<Rightarrow> string \<Rightarrow> string + json" where
  "get_page V parse_json url =
     (case ureq_get V url [] of
        Http_Body body \<Rightarrow> and_then body parse_json
      | Http_Status _ e \<Rightarrow> Inl e
      | Http_Transport e \<Rightarrow> Inl e)"

fun address_book_from :: "nat \<Rightarrow> sentinel_env \<Rightarrow> (bytes \<Rightarrow> string + json) \<Rightarrow> string \<Rightarrow> string \<Rightarrow> Record_Verify.address_book \<Rightarrow>
    (string + Record_Verify.address_book) option" where
  "address_book_from 0 V parse_json mirror p book = None"
| "address_book_from (Suc fuel) V parse_json mirror p book =
     and_then_panic (Some (get_page V parse_json (mirror @ p))) (\<lambda>body.
       (case as_str (json_get (json_get body ''links'') ''next'') of
          Some nxt \<Rightarrow> address_book_from fuel V parse_json mirror nxt (add_page body book)
        | None \<Rightarrow> Some (Inr (add_page body book))))"

definition mirror_book :: "nat \<Rightarrow> sentinel_env \<Rightarrow> (bytes \<Rightarrow> string + json) \<Rightarrow> string \<Rightarrow> (string + Record_Verify.address_book) option" where
  "mirror_book fuel V parse_json mirror = address_book_from fuel V parse_json mirror ''/api/v1/network/nodes?limit=25'' []"

section \<open>The signature files\<close>

definition fetch_sig :: "sentinel_env \<Rightarrow> string \<Rightarrow> string \<Rightarrow> string \<Rightarrow> string \<Rightarrow> bytes option" where
  "fetch_sig V name nd project tok =
     (let object = percent_encode (''recordstreams/record'' @ nd @ ''/'' @ name);
          url = BUCKET @ ''/'' @ object @ ''?alt=media&userProject='' @ project
      in case ureq_get V url (''Bearer '' @ tok) of
           Http_Body body \<Rightarrow> ok body
         | _ \<Rightarrow> None)"

fun collect_signatures :: "(string \<Rightarrow> bytes option) \<Rightarrow> string list \<Rightarrow> node_signature list \<times> string list" where
  "collect_signatures get [] = ([], [])"
| "collect_signatures get (nd # nds) =
     (case collect_signatures get nds of
        (sigs, missing) \<Rightarrow>
          (case get nd of
             Some b \<Rightarrow> (\<lparr>node = nd, ns_bytes = b\<rparr> # sigs, missing)
           | None \<Rightarrow> (sigs, nd # missing)))"

section \<open>The command\<close>

definition attest_value :: "(bytes \<Rightarrow> string) \<Rightarrow> string \<Rightarrow> verify_result \<Rightarrow> nat \<Rightarrow> string list \<Rightarrow> json" where
  "attest_value hex name r fetched missing = Object
     [(''file'', String name),
      (''fileHash'', String (hex (vr_hash r))),
      (''nodesInAddressBook'', Number (int (node_count r))),
      (''signaturesFetched'', Number (int fetched)),
      (''signatureMissing'', Array (map String missing)),
      (''valid'', Array (map String (vr_valid r))),
      (''invalid'', Array (map String (vr_invalid r))),
      (''attested'', Bool (attested r)),
      (''meaning'', String (if attested r then ''nodes holding >= 1/3 of the address book signed exactly these bytes''
         else ''NOT attested '' @ em_dash @ '' insufficient valid signatures''))]"

text \<open>What is printed (nothing, or the report) and how the command ends.\<close>

definition attest_run :: "nat \<Rightarrow> externals \<Rightarrow> (bytes \<Rightarrow> string) \<Rightarrow> sentinel_env \<Rightarrow> (bytes \<Rightarrow> string + json) \<Rightarrow> string list \<Rightarrow>
    json list \<times> (string + exit_code) option" where
  "attest_run fuel E hex V parse_json args =
     (case args of
        [] \<Rightarrow> ([], Some (Inr USAGE))
      | rcd_path # _ \<Rightarrow>
          (case and_then (ok_or ''GCS is requester-pays: pass --project or set GCS_USER_PROJECT''
                  (case flag args ''--project'' of Some p \<Rightarrow> Some p | None \<Rightarrow> env_var V ''GCS_USER_PROJECT'')) (\<lambda>project.
                and_then (ok_or ''bad file path'' (file_name rcd_path)) (\<lambda>name.
                and_then (read_path V rcd_path) (\<lambda>record_bytes. Inr (project, name, record_bytes)))) of
             Inl e \<Rightarrow> ([], Some (Inl e))
           | Inr (project, name, record_bytes) \<Rightarrow>
               let mirror = (case flag args ''--mirror'' of Some m \<Rightarrow> m | None \<Rightarrow> ''https://mainnet.mirrornode.hedera.com'')
               in (case and_then_panic (mirror_book fuel V parse_json mirror) (\<lambda>book.
                       and_then_panic (Some (access_token V)) (\<lambda>tok. Some (Inr (book, tok)))) of
                     None \<Rightarrow> ([], None)
                   | Some (Inl e) \<Rightarrow> ([], Some (Inl e))
                   | Some (Inr (book, tok)) \<Rightarrow>
                       (case collect_signatures (\<lambda>nd. fetch_sig V (sig_name_of name) nd project tok) (map fst book) of
                          (sigs, missing) \<Rightarrow>
                            (case verify_record_file E record_bytes sigs book of
                               Inl e \<Rightarrow> ([], Some (Inl (show_error e)))
                             | Inr r \<Rightarrow>
                                 ([attest_value hex name r (length sigs) missing],
                                  Some (Inr (if attested r then SUCCESS else FAILURE))))))))"

section \<open>The loop over the pages\<close>

definition next_page :: "json \<Rightarrow> string option" where
  "next_page body = as_str (json_get (json_get body ''links'') ''next'')"

text \<open>The pages from one link on: each is there and names the next one, the last names none.\<close>

fun pages_from :: "sentinel_env \<Rightarrow> (bytes \<Rightarrow> string + json) \<Rightarrow> string \<Rightarrow> string \<Rightarrow> json list \<Rightarrow> bool" where
  "pages_from V parse_json mirror p [] \<longleftrightarrow> False"
| "pages_from V parse_json mirror p (b # bs) \<longleftrightarrow>
     get_page V parse_json (mirror @ p) = Inr b \<and>
     (case next_page b of None \<Rightarrow> bs = [] | Some nxt \<Rightarrow> pages_from V parse_json mirror nxt bs)"

lemma address_book_pages:
  "pages_from V parse_json mirror p bodies \<Longrightarrow> length bodies \<le> fuel \<Longrightarrow>
    address_book_from fuel V parse_json mirror p book = Some (Inr (foldl (\<lambda>m b. add_page b m) book bodies))"
proof (induction bodies arbitrary: p book fuel)
  case (Cons b bs)
  from Cons.prems(2) obtain f where f: "fuel = Suc f" "length bs \<le> f" by (cases fuel) auto
  show ?case
  proof (cases "next_page b")
    case None
    with Cons.prems(1) f show ?thesis by (simp add: next_page_def)
  next
    case (Some nxt)
    with Cons.prems(1) have "pages_from V parse_json mirror nxt bs" by simp
    from Cons.IH [OF this f(2), of "add_page b book"] Cons.prems(1) f Some show ?thesis
      by (simp add: next_page_def)
  qed
qed simp

lemma address_book_self_link:
  "get_page V parse_json (mirror @ p) = Inr b \<Longrightarrow> next_page b = Some p \<Longrightarrow> address_book_from fuel V parse_json mirror p book = None"
  by (induction fuel arbitrary: book) (simp_all add: next_page_def)

text \<open>The entries of a page, and the book they make.\<close>

definition page_entries :: "json \<Rightarrow> (string \<times> string) list" where
  "page_entries body = filter_map node_entry (case as_array (json_get body ''nodes'') of Some ns \<Rightarrow> ns | None \<Rightarrow> [])"

lemma add_page_build: "add_page body book = bt.build book (page_entries body)"
proof -
  have "foldl (\<lambda>m n. case node_entry n of Some (account, key) \<Rightarrow> bt_insert account key m | None \<Rightarrow> m) book ns =
      bt.build book (filter_map node_entry ns)" for ns
    by (induction ns arbitrary: book) (auto split: option.split)
  then show ?thesis by (simp add: add_page_def page_entries_def)
qed

lemma build_append: "bt.build m (xs @ ys) = bt.build (bt.build m xs) ys"
  by (induction m xs rule: bt.build.induct) simp_all

lemma pages_build: "foldl (\<lambda>m b. add_page b m) book bodies = bt.build book (concat (map page_entries bodies))"
  by (induction bodies arbitrary: book) (simp_all add: add_page_build build_append)

lemma address_book_wf:
  "bt_wf book \<Longrightarrow> address_book_from fuel V parse_json mirror p book = Some (Inr book') \<Longrightarrow> bt_wf book'"
proof (induction fuel arbitrary: p book)
  case (Suc fuel)
  have wf: "bt_wf (add_page b book)" for b using Suc.prems(1) by (simp add: add_page_build bt.wf_build)
  show ?case using Suc.prems(2) Suc.IH [OF wf] wf
    by (auto simp: and_then_panic_eq_Inr_iff split: option.splits)
qed simp

text \<open>C29. Reading the address book ends when the mirror's pages do: with the pages in a list, that many steps are
  enough, and the book has, for each account, the last key any page gives it. A page that links to itself is followed
  for ever: no number of steps is enough.\<close>

theorem mirror_book_pages:
  "(pages_from V parse_json mirror ''/api/v1/network/nodes?limit=25'' bodies \<longrightarrow> length bodies \<le> fuel \<longrightarrow>
      (\<exists>book. mirror_book fuel V parse_json mirror = Some (Inr book) \<and>
        (\<forall>k. bt_get book k = map_of (rev (concat (map page_entries bodies))) k))) \<and>
   (get_page V parse_json (mirror @ ''/api/v1/network/nodes?limit=25'') = Inr b \<longrightarrow>
      next_page b = Some ''/api/v1/network/nodes?limit=25'' \<longrightarrow> mirror_book fuel V parse_json mirror = None)"
  using bt.get_build [OF bt.wf_empty, of "concat (map page_entries bodies)"]
  by (auto simp: mirror_book_def address_book_pages address_book_self_link pages_build bt.get_empty split: option.splits)


section \<open>What a successful attestation says\<close>

lemma collect_signatures_nodes:
  "collect_signatures get nds = (sigs, missing) \<Longrightarrow>
    map node sigs = filter (\<lambda>nd. get nd \<noteq> None) nds \<and> (\<forall>s \<in> set sigs. get (node s) = Some (ns_bytes s)) \<and>
    missing = filter (\<lambda>nd. get nd = None) nds"
  by (induction nds arbitrary: sigs missing) (auto split: prod.splits option.splits)

lemma attest_run_SUCCESS:
  assumes "attest_run fuel E hex V parse_json (rcd_path # args) = (out, Some (Inr SUCCESS))"
  obtains project name record_bytes book tok sigs missing r where
    "file_name rcd_path = Some name" "read_path V rcd_path = Inr record_bytes"
    "mirror_book fuel V parse_json (case flag (rcd_path # args) ''--mirror'' of Some m \<Rightarrow> m | None \<Rightarrow> ''https://mainnet.mirrornode.hedera.com'') = Some (Inr book)"
    "access_token V = Inr tok"
    "collect_signatures (\<lambda>nd. fetch_sig V (sig_name_of name) nd project tok) (map fst book) = (sigs, missing)"
    "verify_record_file E record_bytes sigs book = Inr r" "attested r" "out = [attest_value hex name r (length sigs) missing]"
proof -
  let ?args = "rcd_path # args"
  let ?head = "and_then (ok_or ''GCS is requester-pays: pass --project or set GCS_USER_PROJECT''
      (case flag ?args ''--project'' of Some p \<Rightarrow> Some p | None \<Rightarrow> env_var V ''GCS_USER_PROJECT'')) (\<lambda>project.
      and_then (ok_or ''bad file path'' (file_name rcd_path)) (\<lambda>name.
      and_then (read_path V rcd_path) (\<lambda>record_bytes. Inr (project, name, record_bytes))))"
  let ?mirror = "case flag ?args ''--mirror'' of Some m \<Rightarrow> m | None \<Rightarrow> ''https://mainnet.mirrornode.hedera.com''"
  let ?mid = "and_then_panic (mirror_book fuel V parse_json ?mirror) (\<lambda>book. and_then_panic (Some (access_token V)) (\<lambda>tok. Some (Inr (book, tok))))"
  note run = assms [unfolded attest_run_def list.case Let_def]
  obtain project name record_bytes where h: "?head = Inr (project, name, record_bytes)"
    using run by (cases ?head) auto
  then have h': "file_name rcd_path = Some name" "read_path V rcd_path = Inr record_bytes"
    by (auto simp: and_then_eq_Inr_iff ok_or_eq_Inr_iff)
  obtain book tok where m: "?mid = Some (Inr (book, tok))"
    using run h by (cases ?mid) (auto split: sum.splits)
  then have m': "mirror_book fuel V parse_json ?mirror = Some (Inr book)" "access_token V = Inr tok"
    by (auto simp: and_then_panic_eq_Inr_iff)
  obtain sigs missing where s: "collect_signatures (\<lambda>nd. fetch_sig V (sig_name_of name) nd project tok) (map fst book) = (sigs, missing)"
    by fastforce
  obtain r where r: "verify_record_file E record_bytes sigs book = Inr r" "attested r" "out = [attest_value hex name r (length sigs) missing]"
    using run h m s by (cases "verify_record_file E record_bytes sigs book") (auto split: if_splits)
  from that [OF h' m' s r] show thesis .
qed

text \<open>C27. What the exit code of \<open>attest\<close> promises: at least a third of the nodes of the address book, each counted
  once, have in the bucket a signature file under this record file's name whose signature verifies, under the
  key the book has for the node, over the hash computed from the file at hand.\<close>

theorem attest_exit_sound:
  assumes "attest_run fuel E hex V parse_json (rcd_path # args) = (out, Some (Inr SUCCESS))"
  shows "\<exists>name record_bytes raw book tok project nodes.
    file_name rcd_path = Some name \<and> read_path V rcd_path = Inr record_bytes \<and> inflate E record_bytes = Inr raw \<and>
    mirror_book fuel V parse_json (case flag (rcd_path # args) ''--mirror'' of Some m \<Rightarrow> m | None \<Rightarrow> ''https://mainnet.mirrornode.hedera.com'') = Some (Inr book) \<and>
    nodes \<subseteq> dom (bt_get book) \<and> 0 < card (dom (bt_get book)) \<and> card (dom (bt_get book)) \<le> 3 * card nodes \<and>
    (\<forall>nd \<in> nodes. \<exists>key b parsed. bt_get book nd = Some key \<and> fetch_sig V (sig_name_of name) nd project tok = Some b \<and>
       parse_signature_file E b = Inr parsed \<and> verify_node_signature E (sha384 E raw) (file_signature parsed) key = Inr True)"
proof -
  from attest_run_SUCCESS [OF assms] obtain project name record_bytes book tok sigs missing r where
    a: "file_name rcd_path = Some name" "read_path V rcd_path = Inr record_bytes"
      "mirror_book fuel V parse_json (case flag (rcd_path # args) ''--mirror'' of Some m \<Rightarrow> m | None \<Rightarrow> ''https://mainnet.mirrornode.hedera.com'') = Some (Inr book)"
      "collect_signatures (\<lambda>nd. fetch_sig V (sig_name_of name) nd project tok) (map fst book) = (sigs, missing)"
      "verify_record_file E record_bytes sigs book = Inr r" "attested r" by metis
  have wf: "bt_wf book" using address_book_wf [OF bt.wf_empty] a(3) by (simp add: mirror_book_def)
  note c = collect_signatures_nodes [OF a(4)]
  have "distinct (map fst book)" using wf by (simp add: bt_wf_def strict_sorted_iff)
  then have dist: "distinct (map node sigs)" using c by simp
  from attestation_facts [OF a(5)] obtain raw where raw: "inflate E record_bytes = Inr raw"
    "\<forall>n \<in> set (vr_valid r). \<exists>s \<in> set sigs. \<exists>key parsed.
        node s = n \<and> bt_get book n = Some key \<and> parse_signature_file E (ns_bytes s) = Inr parsed \<and>
        verify_node_signature E (sha384 E raw) (file_signature parsed) key = Inr True"
    "set (vr_valid r) \<subseteq> dom (bt_get book)" "0 < card (dom (bt_get book))"
    "card (dom (bt_get book)) \<le> 3 * card (set (vr_valid r))" using dist wf a(6) by blast
  have "\<exists>key b parsed. bt_get book nd = Some key \<and> fetch_sig V (sig_name_of name) nd project tok = Some b \<and>
       parse_signature_file E b = Inr parsed \<and> verify_node_signature E (sha384 E raw) (file_signature parsed) key = Inr True"
    if "nd \<in> set (vr_valid r)" for nd
    using raw(2) that c by metis
  with a(1-3) raw(1,3-5) show ?thesis by blast
qed

section \<open>A concrete attestation\<close>

text \<open>A mirror with one node on one page, and a bucket with its signature file.\<close>

definition demo_page :: json where
  "demo_page = Object [(''nodes'', Array [Object [(''node_account_id'', String ''0.0.3''), (''public_key'', String ''0xa'')]])]"

definition demo_mirror :: sentinel_env where
  "demo_mirror = demo_bucket\<lparr>
     ureq_get := \<lambda>url auth. if auth = [] then Http_Body (Inr [1]) else Http_Body (Inr (6 # 97 # replicate 48 0)),
     env_var := \<lambda>_. Some ''t'', read_path := \<lambda>_. Inr []\<rparr>"

lemma demo_page_facts:
  "get_page demo_mirror (\<lambda>_. Inr demo_page) url = Inr demo_page" "next_page demo_page = None"
  "page_entries demo_page = [(''0.0.3'', ''a'')]"
  by (simp_all add: get_page_def demo_mirror_def demo_page_def next_page_def json_get_def as_str_def page_entries_def as_array_def
      node_entry_def)

lemma mirror_book_pages_witness:
  "(\<exists>book. mirror_book 1 demo_mirror (\<lambda>_. Inr demo_page) ''m'' = Some (Inr book) \<and> bt_get book ''0.0.3'' = Some ''a'') \<and>
   mirror_book 1000 demo_mirror (\<lambda>_. Inr (Object [(''links'', Object [(''next'', String ''/api/v1/network/nodes?limit=25'')])])) ''m'' = None"
proof -
  let ?loop = "Object [(''links'', Object [(''next'', String ''/api/v1/network/nodes?limit=25'')])]"
  have pages: "pages_from demo_mirror (\<lambda>_. Inr demo_page) ''m'' ''/api/v1/network/nodes?limit=25'' [demo_page]"
    by (simp add: demo_page_facts)
  have loop: "get_page demo_mirror (\<lambda>_. Inr ?loop) (''m'' @ ''/api/v1/network/nodes?limit=25'') = Inr ?loop"
    "next_page ?loop = Some ''/api/v1/network/nodes?limit=25''"
    by (simp_all add: get_page_def demo_mirror_def next_page_def json_get_def as_str_def)
  from mirror_book_pages [THEN conjunct1, rule_format, OF pages, of 1] obtain book where
    "mirror_book 1 demo_mirror (\<lambda>_. Inr demo_page) ''m'' = Some (Inr book)" "bt_get book ''0.0.3'' = Some ''a''"
    by (auto simp: demo_page_facts)
  with mirror_book_pages [THEN conjunct2, rule_format, OF loop, of 1000] show ?thesis by blast
qed

lemma demo_attest:
  "\<exists>out. attest_run 1 demo (\<lambda>_. []) demo_mirror (\<lambda>_. Inr demo_page) [''f.rcd'', ''--project'', ''p''] = (out, Some (Inr SUCCESS))"
proof -
  have book: "mirror_book 1 demo_mirror (\<lambda>_. Inr demo_page) mirror = Some (Inr [(''0.0.3'', ''a'')])" for mirror
    by (simp add: mirror_book_def demo_page_facts next_page_def [symmetric] add_page_build bt_insert_def)
  have tok: "access_token demo_mirror = Inr ''t''" "read_path demo_mirror p = Inr []" for p
    by (simp_all add: access_token_def demo_mirror_def)
  have sig: "fetch_sig demo_mirror nm nd project ''t'' = Some (6 # 97 # replicate 48 0)" for nm nd project
    by (simp add: fetch_sig_def demo_mirror_def Let_def)
  have name: "file_name ''f.rcd'' = Some ''f.rcd''" by (simp add: file_name_def)
  have "\<exists>r. verify_record_file demo [] [\<lparr>node = ''0.0.3'', ns_bytes = 6 # 97 # replicate 48 0\<rparr>] [(''0.0.3'', ''a'')] = Inr r \<and> attested r"
    by (simp add: verify_record_file_def record_file_hash_def inflate_def is_gzip_def GZIP_MAGIC_def bt_get_def signature_ok_def
        parse_signature_file_def non_empty_def verify_node_signature_def demo_def demo_hash_def)
  then obtain r where "verify_record_file demo [] [\<lparr>node = ''0.0.3'', ns_bytes = 6 # 97 # replicate 48 0\<rparr>] [(''0.0.3'', ''a'')] = Inr r" "attested r"
    by blast
  then show ?thesis by (simp add: attest_run_def Let_def book tok sig name get_at_def del: One_nat_def)
qed

lemma attest_exit_sound_witness:
  "\<exists>out raw nodes. attest_run 1 demo (\<lambda>_. []) demo_mirror (\<lambda>_. Inr demo_page) [''f.rcd'', ''--project'', ''p''] = (out, Some (Inr SUCCESS)) \<and>
     inflate demo [] = Inr raw \<and> 0 < card (nodes :: string set)"
proof -
  obtain out where run: "attest_run 1 demo (\<lambda>_. []) demo_mirror (\<lambda>_. Inr demo_page) [''f.rcd'', ''--project'', ''p''] = (out, Some (Inr SUCCESS))"
    using demo_attest by blast
  from attest_exit_sound [OF run] obtain raw book and nodes :: "string set" where
    "inflate demo [] = Inr raw" "0 < card (dom (bt_get book :: string \<Rightarrow> string option))" "card (dom (bt_get book)) \<le> 3 * card nodes"
    by (auto simp: demo_mirror_def)
  with run show ?thesis by (intro exI [of _ out] exI [of _ raw] exI [of _ nodes]) auto
qed

end
