(* ===== verification/Etl.thy ===== *)
theory Etl
  imports Cli_Args Record_Verify Material Block_Parse "HOL-Library.Multiset"
begin

text \<open>
  The ETL pipelines, \<open>src/cli/etl/\<close>: the era of an input directory (\<open>mod.rs\<close>), the record pipeline
  (\<open>record.rs\<close>: files grouped by the day in their name, parsed on worker threads, chained within and
  across days), the block pipeline (\<open>block.rs\<close>: parsed, sorted and chained by block number, rows
  grouped by their own day) and the rows of the Parquet sink (\<open>parquet.rs\<close>). Reading and writing
  files are the fields of \<open>file_system\<close>; a run returns the partitions it wrote and its outcome, or
  \<open>None\<close> for a panic. An error is its message. A partition counts as written when both of its files are: where
  \<open>write_transfers\<close> fails after \<open>write_transactions\<close> the directory also holds the one file of the last day,
  which the list of partitions leaves out.
\<close>

section \<open>Worker threads\<close>

text \<open>
  One worker maps its chunk in order and stops at the first error; a panic of a worker is a panic of
  the run. The chunks are contiguous and joined in order. \<open>usize::div_ceil\<close> panics on a divisor of
  zero, before any worker starts.
\<close>

fun work_chunk :: "('a \<Rightarrow> ('e + 'b) option) \<Rightarrow> 'a list \<Rightarrow> ('e + 'b list) option" where
  "work_chunk f [] = Some (Inr [])"
| "work_chunk f (x # xs) =
     (case f x of
        None \<Rightarrow> None
      | Some (Inl e) \<Rightarrow> Some (Inl e)
      | Some (Inr y) \<Rightarrow> map_option (\<lambda>r. and_then r (\<lambda>ys. Inr (y # ys))) (work_chunk f xs))"

definition fan_out :: "nat \<Rightarrow> ('a \<Rightarrow> ('e + 'b) option) \<Rightarrow> 'a list \<Rightarrow> ('e + 'b list) option" where
  "fan_out threads f xs =
     (if threads = 0 then None
      else map_option (\<lambda>rs. and_then (map_result (\<lambda>r. r) rs) (\<lambda>yss. Inr (concat yss)))
             (those (map (work_chunk f) (chunks (max 1 (div_ceil (length xs) threads)) xs))))"

section \<open>The Parquet rows\<close>

record leg_row =
  lr_consensus_timestamp :: string
  lr_account :: string
  lr_amount :: i64
  lr_token :: "string option"

definition nft_leg_rows :: "string \<Rightarrow> nft_transfer \<Rightarrow> leg_row list" where
  "nft_leg_rows ts leg =
     (let tok = fmt_token_id (token leg) @ CHR ''#'' # show_int (serial_number leg)
      in (case sender leg of
            Some s \<Rightarrow> [\<lparr>lr_consensus_timestamp = ts, lr_account = fmt_account_id s, lr_amount = -1, lr_token = Some tok\<rparr>]
          | None \<Rightarrow> [])
       @ (case receiver leg of
            Some r \<Rightarrow> [\<lparr>lr_consensus_timestamp = ts, lr_account = fmt_account_id r, lr_amount = 1, lr_token = Some tok\<rparr>]
          | None \<Rightarrow> []))"

definition legs_of_transaction :: "parsed_transaction \<Rightarrow> leg_row list" where
  "legs_of_transaction tx =
     map (\<lambda>leg. \<lparr>lr_consensus_timestamp = consensus_timestamp tx, lr_account = leg_account leg,
                 lr_amount = leg_amount leg, lr_token = None\<rparr>) (transfers tx)
   @ map (\<lambda>leg. \<lparr>lr_consensus_timestamp = consensus_timestamp tx, lr_account = ttleg_account leg,
                 lr_amount = ttleg_amount leg, lr_token = Some (ttleg_token leg)\<rparr>) (token_transfers tx)
   @ concat (map (nft_leg_rows (consensus_timestamp tx)) (nft_transfers tx))"

record tx_columns =
  col_consensus_timestamp :: "string list"
  col_payer :: "string list"
  col_type :: "string list"
  col_result :: "string list"
  col_result_code :: "i32 list"
  col_fee_tinybar :: "i64 list"

text \<open>\<open>charged_fee_tinybar as i64\<close> reinterprets the 64 bits.\<close>

definition write_transactions :: "parsed_transaction list \<Rightarrow> tx_columns" where
  "write_transactions rows = \<lparr>
     col_consensus_timestamp = map consensus_timestamp rows,
     col_payer = map payer rows,
     col_type = map tx_type rows,
     col_result = map result_name rows,
     col_result_code = map result_code rows,
     col_fee_tinybar = map (\<lambda>r. sint (charged_fee_tinybar r)) rows\<rparr>"

record leg_columns =
  leg_col_consensus_timestamp :: "string list"
  leg_col_account :: "string list"
  leg_col_amount :: "i64 list"
  leg_col_def_levels :: "nat list"
  leg_col_token :: "string list"

text \<open>The optional column: definition level 1 with a value, 0 without one.\<close>

definition write_transfers :: "leg_row list \<Rightarrow> leg_columns" where
  "write_transfers rows = \<lparr>
     leg_col_consensus_timestamp = map lr_consensus_timestamp rows,
     leg_col_account = map lr_account rows,
     leg_col_amount = map lr_amount rows,
     leg_col_def_levels = map (\<lambda>r. if lr_token r \<noteq> None then 1 else 0) rows,
     leg_col_token = filter_map lr_token rows\<rparr>"

record partition =
  part_day :: string
  part_transactions :: tx_columns
  part_transfers :: "leg_columns option"
  part_rows :: "parsed_transaction list"

text \<open>\<open>write_day\<close>: the contents of the two files; \<open>part_rows\<close> keeps the rows they are made of.\<close>

definition write_day :: "string \<Rightarrow> parsed_transaction list \<Rightarrow> bool \<Rightarrow> partition" where
  "write_day d rows with_legs = \<lparr>
     part_day = d,
     part_transactions = write_transactions rows,
     part_transfers = (if with_legs then Some (write_transfers (concat (map legs_of_transaction rows))) else None),
     part_rows = rows\<rparr>"

section \<open>Files\<close>

text \<open>Listing a directory, reading a file of the input directory, and creating and writing a partition's
  files (the message of the error, when it fails).\<close>

record file_system =
  list_dir :: "string + string list"
  read_file :: "string \<Rightarrow> io_error + bytes"
  write_fails :: "partition \<Rightarrow> string option"

record etl_options =
  with_transfers :: bool
  verify_chain :: bool
  threads :: nat

type_synonym etl_run = "(partition list \<times> (string + unit)) option"

section \<open>The record pipeline\<close>

fun group_days :: "(string, string list) btree_map \<Rightarrow> string list \<Rightarrow> string + (string, string list) btree_map" where
  "group_days days [] = Inr days"
| "group_days days (name # names) =
     (case get_prefix 10 name of
        None \<Rightarrow> Inl (name @ '': file name has no YYYY-MM-DD prefix'')
      | Some d \<Rightarrow> group_days (bt_upsert d [name] (\<lambda>ns. ns @ [name]) days) names)"

definition parse_named :: "externals \<Rightarrow> file_system \<Rightarrow> string \<Rightarrow> string + parsed_record_file" where
  "parse_named E fs name =
     and_then (map_err (\<lambda>e. name @ '': read failed: '' @ e) (read_file fs name)) (\<lambda>bytes.
       map_err (\<lambda>e. name @ '': parse failed: '' @ show_error e) (parse_record_file E bytes))"

text \<open>The two chain checks of one day: the seam with the day before, then the day itself.\<close>

definition check_day :: "string \<Rightarrow> string list \<Rightarrow> parsed_record_file option \<Rightarrow> parsed_record_file list \<Rightarrow> string + unit" where
  "check_day d files boundary parsed_files =
     and_then
       (case (boundary, parsed_files) of
          (Some prev, first # _) \<Rightarrow>
            map_err (\<lambda>e. ''chain break at the '' @ d @ '' day boundary ('' @ files ! 0 @ ''): '' @ reason e)
              (verify_running_hash_chain [prev, first])
        | _ \<Rightarrow> Inr ())
       (\<lambda>_. map_err (\<lambda>e. ''chain break within '' @ d @ '' at file '' @ show_nat (break_index e) @ '' (''
                        @ files ! break_index e @ ''): '' @ reason e)
              (verify_running_hash_chain parsed_files))"

definition sort_rows :: "parsed_transaction list \<Rightarrow> parsed_transaction list" where
  "sort_rows rows = sort_key consensus_timestamp rows"

fun record_days :: "externals \<Rightarrow> file_system \<Rightarrow> etl_options \<Rightarrow> partition list \<Rightarrow> parsed_record_file option \<Rightarrow>
    (string \<times> string list) list \<Rightarrow> etl_run" where
  "record_days E fs opts written boundary [] = Some (written, Inr ())"
| "record_days E fs opts written boundary ((d, files) # days) =
     (case fan_out (threads opts) (\<lambda>name. Some (parse_named E fs name)) files of
        None \<Rightarrow> None
      | Some (Inl e) \<Rightarrow> Some (written, Inl e)
      | Some (Inr parsed_files) \<Rightarrow>
          (case (if verify_chain opts then check_day d files boundary parsed_files else Inr ()) of
             Inl e \<Rightarrow> Some (written, Inl e)
           | Inr _ \<Rightarrow>
               let boundary' = (if verify_chain opts then (if parsed_files = [] then None else Some (last parsed_files)) else boundary);
                   part = write_day d (sort_rows (concat (map prf_transactions parsed_files))) (with_transfers opts)
               in (case write_fails fs part of
                     Some e \<Rightarrow> Some (written, Inl e)
                   | None \<Rightarrow> record_days E fs opts (written @ [part]) boundary' days)))"

definition record_run :: "externals \<Rightarrow> file_system \<Rightarrow> etl_options \<Rightarrow> string list \<Rightarrow> etl_run" where
  "record_run E fs opts names =
     (case group_days [] names of
        Inl e \<Rightarrow> Some ([], Inl e)
      | Inr days \<Rightarrow> record_days E fs opts [] None days)"

section \<open>The block pipeline\<close>

record block_file =
  bf_name :: string
  bf_info :: block_chain_info
  bf_transactions :: "parsed_transaction list"

definition parse_block_named :: "externals \<Rightarrow> file_system \<Rightarrow> string \<Rightarrow> (string + block_file) option" where
  "parse_block_named E fs name =
     (case and_then (map_err (\<lambda>e. name @ '': read failed: '' @ e) (read_file fs name)) (\<lambda>bytes.
           and_then (map_err (\<lambda>e. name @ '': parse failed: '' @ show_error e) (parse_block E bytes)) (\<lambda>p. Inr (bytes, p))) of
        Inl e \<Rightarrow> Some (Inl e)
      | Inr (bytes, p) \<Rightarrow>
          map_option (\<lambda>r. and_then (map_err (\<lambda>e. name @ '': chain info failed: '' @ show_error e) r) (\<lambda>info.
              Inr \<lparr>bf_name = name, bf_info = info, bf_transactions = pb_transactions p\<rparr>))
            (block_chain_info E bytes))"

definition block_number_of :: "block_file \<Rightarrow> u64" where
  "block_number_of b = info_block_number (bf_info b)"

fun check_blocks :: "(block_file \<times> block_file) list \<Rightarrow> string + unit" where
  "check_blocks [] = Inr ()"
| "check_blocks ((prev, nxt) # rest) =
     (if Some (block_number_of nxt) \<noteq> checked_add_u64 (block_number_of prev) 1 then
        Inl (''block gap: '' @ bf_name prev @ '' (block '' @ show_u64 (block_number_of prev) @ '') is followed by ''
             @ bf_name nxt @ '' (block '' @ show_u64 (block_number_of nxt) @ '')'')
      else if info_previous_block_root (bf_info nxt) \<noteq> info_block_root (bf_info prev) then
        Inl (''chain break at '' @ bf_name nxt @ '' (block '' @ show_u64 (block_number_of nxt)
             @ ''): footer's previous-root claim does not match the recomputed root of ''
             @ bf_name prev @ '' (block '' @ show_u64 (block_number_of prev) @ '')'')
      else check_blocks rest)"

definition add_row :: "(string, parsed_transaction list) btree_map \<Rightarrow> parsed_transaction \<Rightarrow>
    (string, parsed_transaction list) btree_map" where
  "add_row days tx = bt_upsert (day tx) [tx] (\<lambda>rows. rows @ [tx]) days"

fun write_days :: "file_system \<Rightarrow> bool \<Rightarrow> partition list \<Rightarrow> (string \<times> parsed_transaction list) list \<Rightarrow>
    partition list \<times> (string + unit)" where
  "write_days fs with_legs written [] = (written, Inr ())"
| "write_days fs with_legs written ((d, rows) # days) =
     (let part = write_day d (sort_rows rows) with_legs
      in (case write_fails fs part of
            Some e \<Rightarrow> (written, Inl e)
          | None \<Rightarrow> write_days fs with_legs (written @ [part]) days))"

definition block_run :: "externals \<Rightarrow> file_system \<Rightarrow> etl_options \<Rightarrow> string list \<Rightarrow> etl_run" where
  "block_run E fs opts names =
     (case fan_out (threads opts) (parse_block_named E fs) names of
        None \<Rightarrow> None
      | Some (Inl e) \<Rightarrow> Some ([], Inl e)
      | Some (Inr parsed_blocks) \<Rightarrow>
          let blocks = sort_key block_number_of parsed_blocks
          in (case (if verify_chain opts then check_blocks (windows2 blocks) else Inr ()) of
                Inl e \<Rightarrow> Some ([], Inl e)
              | Inr _ \<Rightarrow>
                  Some (write_days fs (with_transfers opts) []
                    (foldl add_row [] (concat (map bf_transactions blocks))))))"

section \<open>The entry point\<close>

definition is_record_name :: "string \<Rightarrow> bool" where
  "is_record_name n \<longleftrightarrow> ends_with n ''.rcd.gz'' \<or> ends_with n ''.rcd''"

definition is_block_name :: "string \<Rightarrow> bool" where
  "is_block_name n \<longleftrightarrow> ends_with n ''.blk.gz'' \<or> ends_with n ''.blk''"

text \<open>\<open>parallelism\<close> is \<open>available_parallelism\<close> (4 when unknown); \<open>open_dir\<close> the file system seen from
  the input and output directories.\<close>

definition etl_run :: "externals \<Rightarrow> (string \<Rightarrow> string \<Rightarrow> file_system) \<Rightarrow> nat \<Rightarrow> string list \<Rightarrow> etl_run" where
  "etl_run E open_dir parallelism args =
     (case and_then (ok_or ''--dir <input dir> required'' (flag args ''--dir'')) (\<lambda>dir.
           and_then (ok_or ''--out <dataset dir> required'' (flag args ''--out'')) (\<lambda>out. Inr (dir, out))) of
        Inl e \<Rightarrow> Some ([], Inl e)
      | Inr (dir, out) \<Rightarrow>
          let fs = open_dir dir out;
              opts = \<lparr>with_transfers = (''--transfers'' \<in> set args), verify_chain = (''--verify-chain'' \<in> set args),
                      threads = (case Option.bind (flag args ''--threads'') parse_u64 of
                                   Some n \<Rightarrow> unat n | None \<Rightarrow> parallelism)\<rparr>
          in (case list_dir fs of
                Inl e \<Rightarrow> Some ([], Inl e)
              | Inr all_names \<Rightarrow>
                  let names = filter is_record_name all_names;
                      block_names = filter is_block_name all_names
                  in if names \<noteq> [] \<and> block_names \<noteq> [] then
                       Some ([], Inl (''input directory mixes record files (.rcd) and block files (.blk) '' @ em_dash
                                      @ '' run the eras separately''))
                     else if block_names \<noteq> [] then block_run E fs opts (sort block_names)
                     else record_run E fs opts (sort names)))"

section \<open>The number of threads does not matter\<close>

lemma work_chunk_total: "work_chunk (\<lambda>x. Some (g x)) xs = Some (map_result g xs)"
  by (induction xs) (auto split: sum.splits)

lemma map_result_concat:
  "and_then (map_result (\<lambda>r. r) (map (map_result g) xss)) (\<lambda>yss. Inr (concat yss)) = map_result g (concat xss)"
proof (induction xss)
  case (Cons xs xss)
  show ?case
    unfolding concat.simps map_result_append Cons.IH [symmetric]
    by (cases "map_result g xs"; cases "map_result (\<lambda>r. r) (map (map_result g) xss)") simp_all
qed simp

lemma those_map_total: "those (map (\<lambda>x. Some (h x)) xs) = Some (map h xs)"
  by (induction xs) simp_all

lemma fan_out_total:
  "fan_out n (\<lambda>x. Some (g x)) xs = (if n = 0 then None else Some (map_result g xs))"
proof (cases "n = 0")
  case False
  let ?c = "max 1 (div_ceil (length xs) n)"
  have "concat (chunks ?c xs) = xs" by (rule concat_chunks) simp
  with False show ?thesis
    using map_result_concat [of g "chunks ?c xs"]
    by (simp add: fan_out_def work_chunk_total [abs_def] those_map_total)
qed (simp add: fan_out_def)

section \<open>Days in order\<close>

lemma take_mono_le:
  fixes xs ys :: string
  shows "xs \<le> ys \<Longrightarrow> take n xs \<le> take n ys"
proof (induction n arbitrary: xs ys)
  case (Suc n)
  then show ?case by (cases xs; cases ys) auto
qed simp

lemma upsert_last:
  assumes "bt_wf m" "\<forall>k \<in> fst ` set m. k \<le> d"
  shows "concat (map snd (bt_upsert d [n] (\<lambda>ns. ns @ [n]) m)) = concat (map snd m) @ [n]"
  using assms
proof (induction d "[n]" "\<lambda>ns. ns @ [n]" m rule: bt_upsert.induct)
  case (2 d k' v' m)
  have later: "\<forall>x \<in> fst ` set m. k' < x" "bt_wf m" using 2(2) by (simp_all add: bt_wf_def)
  show ?case
  proof (cases "d = k'")
    case True
    then have "m = []" using later(1) 2(3) by (cases m) auto
    with True show ?thesis by simp
  next
    case False
    then have "\<not> d < k'" using 2(3) by auto
    with False 2 later show ?thesis by simp
  qed
qed simp

lemma group_days_concat:
  assumes "group_days m names = Inr days" "sorted names" "bt_wf m"
    and "\<forall>k \<in> fst ` set m. \<forall>name \<in> set names. k \<le> take 10 name" "\<forall>ns \<in> snd ` set m. ns \<noteq> []"
  shows "bt_wf days \<and> concat (map snd days) = concat (map snd m) @ names \<and> (\<forall>ns \<in> snd ` set days. ns \<noteq> [])"
  using assms
proof (induction m names rule: group_days.induct)
  case (2 m name names)
  from 2(2) obtain d where d: "get_prefix 10 name = Some d" "d = take 10 name"
    "group_days (bt_upsert d [name] (\<lambda>ns. ns @ [name]) m) names = Inr days"
    by (cases "get_prefix 10 name") (auto simp: get_prefix_def split: if_splits)
  let ?m = "bt_upsert d [name] (\<lambda>ns. ns @ [name]) m"
  have up: "concat (map snd ?m) = concat (map snd m) @ [name]"
    using 2(4,5) d(2) by (intro upsert_last) simp_all
  have "d \<le> take 10 nm" if "nm \<in> set names" for nm
    using 2(3) that d(2) take_mono_le [of name nm 10] by simp
  then have "\<forall>k \<in> fst ` set ?m. \<forall>nm \<in> set names. k \<le> take 10 nm"
    using 2(5) by (auto simp: bt_upsert_keys)
  moreover have "\<forall>ns \<in> snd ` set (bt_upsert d [name] (\<lambda>ns. ns @ [name]) m). ns \<noteq> []"
    using 2(6) by (induction d "[name]" "\<lambda>ns. ns @ [name]" m rule: bt_upsert.induct) auto
  ultimately have "bt_wf days \<and> concat (map snd days) = concat (map snd ?m) @ names \<and> (\<forall>ns \<in> snd ` set days. ns \<noteq> [])"
    using 2(1) [OF d(1,3)] 2(3,4) by (simp add: bt_wf_upsert)
  with up show ?case by simp
qed simp

section \<open>One chain over all days\<close>

definition pre_of :: "parsed_record_file option \<Rightarrow> parsed_record_file list" where
  "pre_of boundary = (case boundary of None \<Rightarrow> [] | Some b \<Rightarrow> [b])"

lemma map_err_unit: "map_err g r = Inr () \<longleftrightarrow> r = Inr ()"
  by (cases r) simp_all

lemma check_day_ok:
  assumes "check_day d files boundary ps = Inr ()"
  shows "chained record_link (pre_of boundary @ ps)"
proof -
  have ps: "chained record_link ps"
    using assms by (auto simp: check_day_def and_then_eq_Inr_iff map_err_unit verify_running_hash_chain_iff)
  show ?thesis
  proof (cases boundary)
    case None
    with ps show ?thesis by (simp add: pre_of_def)
  next
    case (Some b)
    show ?thesis
    proof (cases ps)
      case Nil
      with Some show ?thesis by (simp add: pre_of_def)
    next
      case (Cons p ps')
      with Some assms have "chained record_link [b, p]"
        by (auto simp: check_day_def and_then_eq_Inr_iff map_err_unit verify_running_hash_chain_iff)
      with Some Cons ps show ?thesis by (simp add: pre_of_def)
    qed
  qed
qed

lemma mset_sort_rows: "mset (sort_rows rows) = mset rows"
  by (simp add: sort_rows_def)

lemma set_sort_rows: "set (sort_rows rows) = set rows"
  by (simp add: sort_rows_def)

lemma part_rows_write_day: "part_rows (write_day d rows b) = rows" "part_day (write_day d rows b) = d"
  by (simp_all add: write_day_def)

lemma map_result_nonempty: "map_result f xs = Inr ys \<Longrightarrow> xs \<noteq> [] \<Longrightarrow> ys \<noteq> []"
  by (cases xs) (auto simp: and_then_eq_Inr_iff)

lemma record_days_chain:
  assumes "record_days E fs opts written boundary days = Some (parts, Inr ())"
    and "\<forall>ns \<in> snd ` set days. ns \<noteq> []"
  shows "\<exists>files. map_result (parse_named E fs) (concat (map snd days)) = Inr files \<and>
    (verify_chain opts \<longrightarrow> chained record_link (pre_of boundary @ files)) \<and>
    mset (concat (map part_rows parts)) = mset (concat (map part_rows written)) + mset (concat (map prf_transactions files))"
  using assms
proof (induction E fs opts written boundary days rule: record_days.induct)
  case (1 E fs opts written boundary)
  then show ?case by (cases boundary) (simp_all add: pre_of_def)
next
  case (2 E fs opts written boundary d names days)
  obtain ps where ps: "fan_out (threads opts) (\<lambda>name. Some (parse_named E fs name)) names = Some (Inr ps)"
    using 2(2) by (auto split: option.splits sum.splits)
  then have names: "map_result (parse_named E fs) names = Inr ps"
    by (simp add: fan_out_total split: if_splits)
  have ne: "ps \<noteq> []" using map_result_nonempty [OF names] 2(3) by simp
  let ?check = "if verify_chain opts then check_day d names boundary ps else Inr ()"
  let ?part = "write_day d (sort_rows (concat (map prf_transactions ps))) (with_transfers opts)"
  let ?b = "if verify_chain opts then (if ps = [] then None else Some (last ps)) else boundary"
  have chk: "?check = Inr ()" using 2(2) ps by (auto split: sum.splits)
  have wr: "write_fails fs ?part = None" using 2(2) ps chk by (auto simp: Let_def split: option.splits)
  have rec: "record_days E fs opts (written @ [?part]) ?b days = Some (parts, Inr ())"
    using 2(2) ps chk wr by (simp add: Let_def)
  have "\<exists>files. map_result (parse_named E fs) (concat (map snd days)) = Inr files \<and>
    (verify_chain opts \<longrightarrow> chained record_link (pre_of ?b @ files)) \<and>
    mset (concat (map part_rows parts)) = mset (concat (map part_rows (written @ [?part]))) + mset (concat (map prf_transactions files))"
    by (rule 2(1) [OF ps refl chk refl refl wr rec]) (use 2(3) in simp)
  then obtain files where files: "map_result (parse_named E fs) (concat (map snd days)) = Inr files"
    "verify_chain opts \<longrightarrow> chained record_link (pre_of ?b @ files)"
    "mset (concat (map part_rows parts)) = mset (concat (map part_rows (written @ [?part]))) + mset (concat (map prf_transactions files))"
    by blast
  have "chained record_link (pre_of boundary @ ps @ files)" if v: "verify_chain opts"
  proof -
    have "chained record_link (pre_of boundary @ ps)" using check_day_ok chk v by simp
    moreover have "chained record_link (last ps # files)" using files(2) v ne by (simp add: pre_of_def)
    ultimately show ?thesis using ne
      by (cases files) (simp_all add: chained_append [of _ "pre_of boundary @ ps", simplified append_assoc] chained_Cons)
  qed
  with files names show ?case
    by (intro exI [of _ "ps @ files"]) (simp add: map_result_append part_rows_write_day mset_sort_rows)
qed

section \<open>What a finished run has written\<close>

definition partition_of :: "bool \<Rightarrow> partition \<Rightarrow> bool" where
  "partition_of with_legs p \<longleftrightarrow>
     p = write_day (part_day p) (part_rows p) with_legs \<and> sorted (map consensus_timestamp (part_rows p))"

lemma partition_of_write_day: "partition_of b (write_day d (sort_rows rows) b)"
  by (simp add: partition_of_def part_rows_write_day sort_rows_def)

lemma record_days_partitions:
  "record_days E fs opts written boundary days = Some (parts, Inr ()) \<Longrightarrow>
     (\<forall>p \<in> set written. partition_of (with_transfers opts) p) \<Longrightarrow>
     (\<forall>p \<in> set parts. partition_of (with_transfers opts) p) \<and> map part_day parts = map part_day written @ map fst days"
proof (induction E fs opts written boundary days rule: record_days.induct)
  case (2 E fs opts written boundary d names days)
  let ?part = "\<lambda>ps. write_day d (sort_rows (concat (map prf_transactions ps))) (with_transfers opts)"
  from 2(2) obtain ps b where ps: "fan_out (threads opts) (\<lambda>name. Some (parse_named E fs name)) names = Some (Inr ps)"
    and chk: "(if verify_chain opts then check_day d names boundary ps else Inr ()) = Inr ()"
    and wr: "write_fails fs (?part ps) = None"
    and b: "b = (if verify_chain opts then (if ps = [] then None else Some (last ps)) else boundary)"
    and rec: "record_days E fs opts (written @ [?part ps]) b days = Some (parts, Inr ())"
    by (auto simp: Let_def split: option.splits sum.splits if_splits)
  have "\<forall>p \<in> set (written @ [?part ps]). partition_of (with_transfers opts) p"
    using 2(3) partition_of_write_day by auto
  from 2(1) [OF ps refl chk b refl wr rec this] show ?case by (simp add: part_rows_write_day)
qed simp

section \<open>The files of a day\<close>

text \<open>What the partition of a day should hold: the transactions of the files whose name begins with it.\<close>

definition rows_of_day :: "string \<Rightarrow> string list \<Rightarrow> parsed_record_file list \<Rightarrow> parsed_transaction list" where
  "rows_of_day d names files = concat (map (\<lambda>(name, f). prf_transactions f) (filter (\<lambda>(name, f). take 10 name = d) (zip names files)))"

lemma rows_of_day_append:
  "length ns = length fs \<Longrightarrow> rows_of_day d (ns @ ns') (fs @ fs') = rows_of_day d ns fs @ rows_of_day d ns' fs'"
  by (simp add: rows_of_day_def)

lemma rows_of_day_all:
  "length ns = length fs \<Longrightarrow> \<forall>n \<in> set ns. take 10 n = d \<Longrightarrow> rows_of_day d ns fs = concat (map prf_transactions fs)"
  by (induction ns fs rule: list_induct2) (simp_all add: rows_of_day_def)

lemma rows_of_day_none:
  "length ns = length fs \<Longrightarrow> \<forall>n \<in> set ns. take 10 n \<noteq> d \<Longrightarrow> rows_of_day d ns fs = []"
  by (induction ns fs rule: list_induct2) (simp_all add: rows_of_day_def)

definition named_by_day :: "(string \<times> string list) list \<Rightarrow> bool" where
  "named_by_day days \<longleftrightarrow> (\<forall>(d, ns) \<in> set days. ns \<noteq> [] \<and> (\<forall>n \<in> set ns. take 10 n = d))"

lemma named_by_day_upsert:
  "named_by_day m \<Longrightarrow> take 10 name = d \<Longrightarrow> named_by_day (bt_upsert d [name] (\<lambda>ns. ns @ [name]) m)"
proof (induction d "[name]" "\<lambda>ns. ns @ [name]" m rule: bt_upsert.induct)
qed (auto simp: named_by_day_def)

lemma group_days_named: "group_days m names = Inr days \<Longrightarrow> named_by_day m \<Longrightarrow> named_by_day days"
proof (induction m names rule: group_days.induct)
  case (2 m name names)
  from 2(2) obtain d where d: "get_prefix 10 name = Some d" "take 10 name = d"
    "group_days (bt_upsert d [name] (\<lambda>ns. ns @ [name]) m) names = Inr days"
    by (cases "get_prefix 10 name") (auto simp: get_prefix_def split: if_splits)
  from 2(1) [OF d(1,3) named_by_day_upsert [OF 2(3) d(2)]] show ?case .
qed simp

lemma record_days_parts:
  assumes "record_days E fs opts written boundary days = Some (parts, Inr ())"
  shows "\<exists>fss. list_all2 (\<lambda>(d, ns) files. map_result (parse_named E fs) ns = Inr files) days fss \<and>
    parts = written @ map (\<lambda>((d, ns), files). write_day d (sort_rows (concat (map prf_transactions files))) (with_transfers opts)) (zip days fss)"
  using assms
proof (induction E fs opts written boundary days rule: record_days.induct)
  case (2 E fs opts written boundary d names days)
  let ?part = "\<lambda>ps. write_day d (sort_rows (concat (map prf_transactions ps))) (with_transfers opts)"
  from 2(2) obtain ps b where ps: "fan_out (threads opts) (\<lambda>name. Some (parse_named E fs name)) names = Some (Inr ps)"
    and chk: "(if verify_chain opts then check_day d names boundary ps else Inr ()) = Inr ()"
    and wr: "write_fails fs (?part ps) = None"
    and b: "b = (if verify_chain opts then (if ps = [] then None else Some (last ps)) else boundary)"
    and rec: "record_days E fs opts (written @ [?part ps]) b days = Some (parts, Inr ())"
    by (auto simp: Let_def split: option.splits sum.splits if_splits)
  from 2(1) [OF ps refl chk b refl wr rec] obtain fss where
    "list_all2 (\<lambda>(d, ns) files. map_result (parse_named E fs) ns = Inr files) days fss"
    "parts = (written @ [?part ps]) @ map (\<lambda>((d, ns), files). write_day d (sort_rows (concat (map prf_transactions files))) (with_transfers opts)) (zip days fss)"
    by blast
  moreover have "map_result (parse_named E fs) names = Inr ps" using ps by (simp add: fan_out_total split: if_splits)
  ultimately show ?case by (intro exI [of _ "ps # fss"]) simp
qed simp

lemma map_result_length: "map_result f xs = Inr ys \<Longrightarrow> length xs = length ys"
  by (induction xs arbitrary: ys) (auto simp: and_then_eq_Inr_iff)

lemma map_result_days:
  "list_all2 (\<lambda>(d, ns) files. map_result f ns = Inr files) days fss \<Longrightarrow>
     map_result f (concat (map snd days)) = Inr (concat fss)"
  by (induction rule: list_all2_induct) (auto simp: map_result_append)

lemma rows_of_days:
  assumes "list_all2 (\<lambda>(d, ns) files. length ns = length files) days fss" "named_by_day days" "distinct (map fst days)"
  shows "\<forall>((d, ns), files) \<in> set (zip days fss). rows_of_day d (concat (map snd days)) (concat fss) = concat (map prf_transactions files)"
  using assms
proof (induction days fss rule: list_all2_induct)
  case (Cons x days files fss)
  obtain d ns where x: "x = (d, ns)" by (cases x)
  have len: "length ns = length files" using Cons(1) by (simp add: x)
  have rest: "named_by_day days" "distinct (map fst days)" using Cons(4,5) by (simp_all add: named_by_day_def)
  have lens: "length (concat (map snd days)) = length (concat fss)"
    using Cons(2) by (induction rule: list_all2_induct) auto
  have here: "\<forall>n \<in> set ns. take 10 n = d" using Cons(4) by (simp add: named_by_day_def x)
  have other: "\<forall>n \<in> set (concat (map snd days)). take 10 n \<noteq> d"
  proof
    fix n assume "n \<in> set (concat (map snd days))"
    then obtain y where "y \<in> set days" "n \<in> set (snd y)" by auto
    then have "take 10 n = fst y" "fst y \<in> set (map fst days)" using Cons(4) by (auto simp: named_by_day_def)
    then show "take 10 n \<noteq> d" using Cons(5) by (auto simp: x)
  qed
  have "rows_of_day d' (ns @ concat (map snd days)) (files @ concat fss) = rows_of_day d' (concat (map snd days)) (concat fss)"
    if "((d', ns'), fs') \<in> set (zip days fss)" for d' ns' fs'
  proof -
    have "d' \<noteq> d" using set_zip_leftD [OF that] Cons(5) by (force simp: x)
    with here have "\<forall>n \<in> set ns. take 10 n \<noteq> d'" by auto
    then show ?thesis by (simp add: rows_of_day_append [OF len] rows_of_day_none [OF len])
  qed
  moreover have "rows_of_day d (ns @ concat (map snd days)) (files @ concat fss) = concat (map prf_transactions files)"
    by (simp add: rows_of_day_append [OF len] rows_of_day_all [OF len here] rows_of_day_none [OF lens other])
  ultimately show ?case using Cons(3) [OF rest] by (fastforce simp: x)
qed simp

text \<open>C18. A record run over the sorted names that ends well parsed every one of them. With
  \<open>--verify-chain\<close> the parsed files, over all days, are one running-hash chain in the order of
  their names. The partitions are one for each day that a file name begins with, in order, and the partition of a day
  holds exactly the rows of the files named by that day, each once, sorted by timestamp; so every row of every
  file is written exactly once.\<close>

theorem record_run_complete:
  assumes "record_run E fs opts names = Some (parts, Inr ())" "sorted names"
  shows "\<exists>files. map_result (parse_named E fs) names = Inr files \<and>
    (if verify_chain opts then chained record_link files else True) \<and>
    set (map part_day parts) = take 10 ` set names \<and> sorted_wrt (<) (map part_day parts) \<and>
    list_all (\<lambda>p. partition_of (with_transfers opts) p \<and> mset (part_rows p) = mset (rows_of_day (part_day p) names files)) parts \<and>
    mset (concat (map part_rows parts)) = mset (concat (map prf_transactions files))"
proof -
  obtain days where days: "group_days [] names = Inr days" "record_days E fs opts [] None days = Some (parts, Inr ())"
    using assms(1) by (auto simp: record_run_def split: sum.splits)
  have g: "bt_wf days" "concat (map snd days) = names" "\<forall>ns \<in> snd ` set days. ns \<noteq> []"
    using group_days_concat [OF days(1) assms(2)] by (simp_all add: bt_wf_def)
  have named: "named_by_day days" using group_days_named [OF days(1)] by (simp add: named_by_day_def)
  have "distinct (map fst days)" using g(1) by (simp add: bt_wf_def strict_sorted_iff)
  obtain fss where fss: "list_all2 (\<lambda>(d, ns) files. map_result (parse_named E fs) ns = Inr files) days fss"
    "parts = map (\<lambda>((d, ns), files). write_day d (sort_rows (concat (map prf_transactions files))) (with_transfers opts)) (zip days fss)"
    using record_days_parts [OF days(2)] by auto
  have len: "list_all2 (\<lambda>(d, ns) files. length ns = length files) days fss"
    by (rule list_all2_mono [OF fss(1)]) (auto dest: map_result_length)
  have files: "map_result (parse_named E fs) names = Inr (concat fss)" using map_result_days [OF fss(1)] g(2) by simp
  have parts: "map part_day parts = map fst days" "list_all (partition_of (with_transfers opts)) parts"
    using record_days_partitions [OF days(2)] by (simp_all add: list_all_iff)
  have "fst ` set days = take 10 ` set names"
  proof (intro equalityI subsetI)
    fix d assume "d \<in> fst ` set days"
    then obtain ns where d: "(d, ns) \<in> set days" by auto
    with named have "ns \<noteq> [] \<and> (\<forall>n \<in> set ns. take 10 n = d)" by (auto simp: named_by_day_def)
    then have "hd ns \<in> set ns" "take 10 (hd ns) = d" by simp_all
    moreover from this(1) d have "hd ns \<in> set names" unfolding g(2) [symmetric] by force
    ultimately show "d \<in> take 10 ` set names" by blast
  next
    fix d assume "d \<in> take 10 ` set names"
    then obtain n y where "d = take 10 n" "y \<in> set days" "n \<in> set (snd y)" unfolding g(2) [symmetric] by auto
    moreover from this(2,3) have "take 10 n = fst y" using named by (auto simp: named_by_day_def)
    ultimately show "d \<in> fst ` set days" by simp
  qed
  then have "set (map part_day parts) = take 10 ` set names" by (simp add: parts(1))
  moreover have "sorted_wrt (<) (map part_day parts)" using g(1) by (simp add: parts(1) bt_wf_def)
  moreover have "mset (part_rows p) = mset (rows_of_day (part_day p) names (concat fss))" if "p \<in> set parts" for p
    using that rows_of_days [OF len named \<open>distinct (map fst days)\<close>] by (auto simp: fss(2) part_rows_write_day mset_sort_rows g(2))
  moreover have "(if verify_chain opts then chained record_link (concat fss) else True) \<and>
      mset (concat (map part_rows parts)) = mset (concat (map prf_transactions (concat fss)))"
    using record_days_chain [OF days(2) g(3)] g(2) files by (auto simp: pre_of_def)
  ultimately show ?thesis using files parts(2) by (intro exI [of _ "concat fss"]) (simp add: list_all_iff)
qed

lemma work_chunk_Inr: "work_chunk f xs = Some (Inr ys) \<longleftrightarrow> list_all2 (\<lambda>x y. f x = Some (Inr y)) xs ys"
proof (induction xs arbitrary: ys)
  case (Cons x xs)
  then show ?case
    by (cases ys) (auto simp: and_then_eq_Inr_iff split: option.splits sum.splits)
qed (simp add: eq_commute)

lemma those_Some_iff: "those rs = Some ys \<longleftrightarrow> list_all2 (\<lambda>r y. r = Some y) rs ys"
proof (induction rs arbitrary: ys)
  case (Cons r rs)
  then show ?case by (cases ys) (auto split: option.splits)
qed (simp add: eq_commute)

lemma list_all2_concat:
  "list_all2 (list_all2 P) xss yss \<Longrightarrow> list_all2 P (concat xss) (concat yss)"
  by (induction rule: list_all2_induct) (simp_all add: list_all2_appendI)

lemma fan_out_Inr:
  assumes "fan_out n f xs = Some (Inr ys)"
  shows "list_all2 (\<lambda>x y. f x = Some (Inr y)) xs ys"
proof -
  let ?cs = "chunks (max 1 (div_ceil (length xs) n)) xs"
  from assms obtain rs yss where "those (map (work_chunk f) ?cs) = Some rs" "map_result (\<lambda>r. r) rs = Inr yss"
    and ys: "ys = concat yss"
    by (auto simp: fan_out_def and_then_eq_Inr_iff split: if_splits)
  then have "list_all2 (\<lambda>c r. work_chunk f c = Some r) ?cs rs" "list_all2 (\<lambda>r ys. r = Inr ys) rs yss"
    by (simp_all add: those_Some_iff map_result_Inr_iff list.rel_map)
  then have "list_all2 (list_all2 (\<lambda>x y. f x = Some (Inr y))) ?cs yss"
    by (rule list_all2_trans [rotated]) (simp add: work_chunk_Inr)
  then have "list_all2 (\<lambda>x y. f x = Some (Inr y)) (concat ?cs) ys" unfolding ys by (rule list_all2_concat)
  moreover have "concat ?cs = xs" by (rule concat_chunks) simp
  ultimately show ?thesis by simp
qed

section \<open>The block chain\<close>

definition block_link :: "block_file \<Rightarrow> block_file \<Rightarrow> bool" where
  "block_link prev nxt \<longleftrightarrow>
     checked_add_u64 (block_number_of prev) 1 = Some (block_number_of nxt) \<and>
     info_previous_block_root (bf_info nxt) = info_block_root (bf_info prev)"

interpretation block_chain: linked block_link "\<lambda>b. int (unat (block_number_of b))"
  by unfold_locales (simp add: block_link_def checked_add_u64_Some)

lemma chained_blocks:
  assumes "chained block_link bs"
  shows "\<forall>i. Suc i < length bs \<longrightarrow> info_previous_block_root (bf_info (bs ! Suc i)) = info_block_root (bf_info (bs ! i))"
    and "\<forall>i < length bs. unat (block_number_of (bs ! i)) = unat (block_number_of (hd bs)) + i"
proof -
  show "\<forall>i. Suc i < length bs \<longrightarrow> info_previous_block_root (bf_info (bs ! Suc i)) = info_block_root (bf_info (bs ! i))"
    using chained_nth [OF assms] by (simp add: block_link_def)
  show "\<forall>i < length bs. unat (block_number_of (bs ! i)) = unat (block_number_of (hd bs)) + i"
    using block_chain.chained_numbers [OF assms] by (metis of_nat_add of_nat_eq_iff)
qed

lemma check_blocks_ok: "check_blocks ps = Inr () \<longleftrightarrow> list_all (\<lambda>(p, n). block_link p n) ps"
  by (induction ps rule: check_blocks.induct) (auto simp: block_link_def)

section \<open>Rows by their own day\<close>

definition day_rows :: "(string, parsed_transaction list) btree_map \<Rightarrow> bool" where
  "day_rows days \<longleftrightarrow> bt_wf days \<and> (\<forall>x \<in> set days. \<forall>r \<in> set (snd x). day r = fst x)"

lemma mset_upsert_row:
  "mset (concat (map snd (bt_upsert d [tx] (\<lambda>rows. rows @ [tx]) m))) = add_mset tx (mset (concat (map snd m)))"
  by (induction d "[tx]" "\<lambda>rows. rows @ [tx]" m rule: bt_upsert.induct) simp_all

lemma day_rows_add_row:
  assumes "day_rows days"
  shows "day_rows (add_row days tx)"
proof -
  have "\<forall>x \<in> set m. \<forall>r \<in> set (snd x). day r = fst x \<Longrightarrow>
    \<forall>x \<in> set (bt_upsert (day tx) [tx] (\<lambda>rows. rows @ [tx]) m). \<forall>r \<in> set (snd x). day r = fst x" for m
    by (induction m) (auto split: if_splits)
  from this [of days] assms show ?thesis by (simp add: day_rows_def add_row_def bt_wf_upsert)
qed

lemma foldl_add_row:
  "day_rows days \<Longrightarrow> day_rows (foldl add_row days txs) \<and>
     mset (concat (map snd (foldl add_row days txs))) = mset (concat (map snd days)) + mset txs"
proof (induction txs arbitrary: days)
  case (Cons tx txs)
  from Cons.IH [OF day_rows_add_row [OF Cons.prems]] show ?case
    by (simp add: mset_upsert_row add_row_def)
qed simp

lemma write_days_ok:
  "write_days fs b written days = (parts, Inr ()) \<Longrightarrow>
     parts = written @ map (\<lambda>(d, rows). write_day d (sort_rows rows) b) days"
  by (induction fs b written days rule: write_days.induct) (auto simp: Let_def split: option.splits)

text \<open>C19. A block run that ends well parsed every file. With \<open>--verify-chain\<close> the blocks in the order of
  their numbers are gapless from the first on, each footer naming the recomputed root of the block
  before. Each row is written exactly once, in the partition of its own day, and the partitions
  are in the order of their days.\<close>

theorem block_run_complete:
  assumes "block_run E fs opts names = Some (parts, Inr ())"
  shows "\<exists>blocks. list_all2 (\<lambda>name b. parse_block_named E fs name = Some (Inr b)) names blocks \<and>
    (let bs = sort_key block_number_of blocks
     in verify_chain opts \<longrightarrow>
       (\<forall>i. Suc i < length bs \<longrightarrow>
          info_previous_block_root (bf_info (bs ! Suc i)) = info_block_root (bf_info (bs ! i))) \<and>
       (\<forall>i < length bs. unat (block_number_of (bs ! i)) = unat (block_number_of (hd bs)) + i)) \<and>
    mset (concat (map part_rows parts)) = mset (concat (map bf_transactions blocks)) \<and>
    list_all (\<lambda>p. partition_of (with_transfers opts) p \<and> list_all (\<lambda>r. day r = part_day p) (part_rows p)) parts \<and>
    sorted_wrt (<) (map part_day parts)"
proof -
  obtain blocks where par: "fan_out (threads opts) (parse_block_named E fs) names = Some (Inr blocks)"
    using assms by (auto simp: block_run_def split: option.splits sum.splits)
  define bs where "bs = sort_key block_number_of blocks"
  define days where "days = foldl add_row [] (concat (map bf_transactions bs))"
  have chk: "(if verify_chain opts then check_blocks (windows2 bs) else Inr ()) = Inr ()"
    and wr: "write_days fs (with_transfers opts) [] days = (parts, Inr ())"
    using assms par by (auto simp: block_run_def Let_def bs_def days_def split: sum.splits)
  have ch: "verify_chain opts \<Longrightarrow> chained block_link bs"
    using chk by (simp add: chained_windows2 check_blocks_ok)
  have parts: "parts = map (\<lambda>(d, rows). write_day d (sort_rows rows) (with_transfers opts)) days"
    using write_days_ok [OF wr] by simp
  have rows: "mset (concat (map part_rows parts)) = mset (concat (map snd days))"
    unfolding parts by (induction days) (auto simp: part_rows_write_day mset_sort_rows)
  have days: "day_rows days" "mset (concat (map snd days)) = mset (concat (map bf_transactions bs))"
    using foldl_add_row [of "[]" "concat (map bf_transactions bs)"] by (simp_all add: days_def day_rows_def bt_wf_def)
  have "mset (map bf_transactions bs) = mset (map bf_transactions blocks)" by (simp add: bs_def)
  then have "mset (concat (map bf_transactions bs)) = mset (concat (map bf_transactions blocks))"
    by (metis mset_concat sum_mset_sum_list mset_map)
  with rows days(2) have "mset (concat (map part_rows parts)) = mset (concat (map bf_transactions blocks))" by simp
  moreover have "map part_day parts = map fst days" unfolding parts by (auto simp: part_rows_write_day)
  then have "sorted_wrt (<) (map part_day parts)" using days(1) by (simp add: day_rows_def bt_wf_def)
  moreover have "list_all (\<lambda>p. partition_of (with_transfers opts) p \<and> list_all (\<lambda>r. day r = part_day p) (part_rows p)) parts"
    using days(1) unfolding parts
    by (auto simp: list_all_iff day_rows_def partition_of_write_day part_rows_write_day [where rows = "sort_rows _"] set_sort_rows)
  moreover note fan_out_Inr [OF par]
  moreover note chained_blocks [OF ch]
  ultimately show ?thesis by (intro exI [of _ blocks]) (simp add: bs_def [symmetric] Let_def)
qed

section \<open>The number of threads\<close>

lemma fan_out_cong:
  assumes "\<And>x. x \<in> set xs \<Longrightarrow> f x = Some (g x)"
  shows "fan_out n f xs = (if n = 0 then None else Some (map_result g xs))"
proof -
  have wc: "work_chunk f ys = work_chunk (\<lambda>x. Some (g x)) ys" if "set ys \<subseteq> set xs" for ys
    using that assms by (induction ys) (auto split: sum.split)
  define cs where "cs = chunks (max 1 (div_ceil (length xs) n)) xs"
  have "concat cs = xs" unfolding cs_def by (rule concat_chunks) simp
  then have "set c \<subseteq> set xs" if "c \<in> set cs" for c using that by auto
  then have "map (work_chunk f) cs = map (work_chunk (\<lambda>x. Some (g x))) cs" using wc by simp
  then show ?thesis using fan_out_total [of n g xs] unfolding fan_out_def cs_def [symmetric] by metis
qed

lemma record_days_threads:
  "0 < n \<Longrightarrow> 0 < m \<Longrightarrow>
     record_days E fs (opts\<lparr>threads := n\<rparr>) written boundary days = record_days E fs (opts\<lparr>threads := m\<rparr>) written boundary days"
  by (induction days arbitrary: written boundary) (auto simp: fan_out_total Let_def split: sum.splits option.splits)

text \<open>C35. The number of worker threads changes nothing of what a run writes or answers, as long as it
  is not zero: \<open>--threads 0\<close> panics before any file is read.\<close>

theorem threads_irrelevant:
  assumes "0 < n" "0 < m"
    and "\<And>name. name \<in> set names \<Longrightarrow> parse_block_named E fs name \<noteq> None"
  shows "record_run E fs (opts\<lparr>threads := n\<rparr>) names = record_run E fs (opts\<lparr>threads := m\<rparr>) names \<and>
    block_run E fs (opts\<lparr>threads := n\<rparr>) names = block_run E fs (opts\<lparr>threads := m\<rparr>) names \<and>
    block_run E fs (opts\<lparr>threads := 0\<rparr>) names = None"
proof -
  have "\<And>name. name \<in> set names \<Longrightarrow> parse_block_named E fs name = Some (the (parse_block_named E fs name))"
    using assms(3) by auto
  note par = fan_out_cong [OF this]
  show ?thesis
    using assms(1,2) by (auto simp: record_run_def block_run_def par Let_def record_days_threads [of n m] split: sum.split)
qed

section \<open>The columns\<close>

lemma sint_u64:
  fixes w :: u64
  shows "sint w = (if unat w < 2 ^ 63 then int (unat w) else int (unat w) - 2 ^ 64)"
proof -
  have lo: "- (2 ^ 63) \<le> sint w" and hi: "sint w < 2 ^ 63" using sint_ge [of w] sint_lt [of w] by simp_all
  define n where "n = unat w"
  have u: "int n = sint w mod 2 ^ 64" using uint_sint [of w] by (simp add: n_def take_bit_eq_mod)
  show ?thesis unfolding n_def [symmetric]
  proof (cases "0 \<le> sint w")
    case True
    with hi u have "int n = sint w" by simp
    with hi show "sint w = (if n < 2 ^ 63 then int n else int n - 2 ^ 64)" by simp
  next
    case False
    with lo have "(sint w + 2 ^ 64) mod 2 ^ 64 = sint w + 2 ^ 64" by (intro mod_pos_pos_trivial) simp_all
    with u have "int n = sint w + 2 ^ 64" by simp
    with lo show "sint w = (if n < 2 ^ 63 then int n else int n - 2 ^ 64)" by simp
  qed
qed

text \<open>
  A reader of the two published schemas. A transaction row is read off the six columns at its index; a leg's token
  is read off the optional column, whose values are those of the rows at definition level 1. Columns
  that do not fit together are no table.
\<close>

record tx_row =
  row_consensus_timestamp :: string
  row_payer :: string
  row_type :: string
  row_result :: string
  row_result_code :: i32
  row_fee_tinybar :: i64

definition read_transactions :: "tx_columns \<Rightarrow> tx_row list option" where
  "read_transactions c =
     (let n = length (col_consensus_timestamp c)
      in if length (col_payer c) = n \<and> length (col_type c) = n \<and> length (col_result c) = n \<and>
            length (col_result_code c) = n \<and> length (col_fee_tinybar c) = n
         then Some (map (\<lambda>i. \<lparr>row_consensus_timestamp = col_consensus_timestamp c ! i, row_payer = col_payer c ! i,
                  row_type = col_type c ! i, row_result = col_result c ! i,
                  row_result_code = col_result_code c ! i, row_fee_tinybar = col_fee_tinybar c ! i\<rparr>) [0..<n])
         else None)"

fun read_optional :: "nat list \<Rightarrow> 'a list \<Rightarrow> 'a option list option" where
  "read_optional [] [] = Some []"
| "read_optional (l # ls) vs =
     (if l = 0 then map_option ((#) None) (read_optional ls vs)
      else (case vs of v # vs' \<Rightarrow> map_option ((#) (Some v)) (read_optional ls vs') | [] \<Rightarrow> None))"
| "read_optional _ _ = None"

definition read_transfers :: "leg_columns \<Rightarrow> leg_row list option" where
  "read_transfers c =
     (case read_optional (leg_col_def_levels c) (leg_col_token c) of
        None \<Rightarrow> None
      | Some tokens \<Rightarrow>
          (let n = length tokens
           in if length (leg_col_consensus_timestamp c) = n \<and> length (leg_col_account c) = n \<and> length (leg_col_amount c) = n
              then Some (map (\<lambda>i. \<lparr>lr_consensus_timestamp = leg_col_consensus_timestamp c ! i,
                       lr_account = leg_col_account c ! i, lr_amount = leg_col_amount c ! i, lr_token = tokens ! i\<rparr>) [0..<n])
              else None))"

lemma read_write_transactions:
  "read_transactions (write_transactions rows) =
     Some (map (\<lambda>r. \<lparr>row_consensus_timestamp = consensus_timestamp r, row_payer = payer r, row_type = tx_type r,
       row_result = result_name r, row_result_code = result_code r, row_fee_tinybar = sint (charged_fee_tinybar r)\<rparr>) rows)"
  unfolding read_transactions_def write_transactions_def tx_columns.simps length_map Let_def
  by (simp cong: if_cong) (rule nth_equalityI, simp_all)

lemma read_optional_levels:
  "read_optional (map (\<lambda>r. if f r \<noteq> None then 1 else 0) rows) (filter_map f rows) = Some (map f rows)"
  by (induction rows) (auto split: option.split)

lemma read_write_transfers: "read_transfers (write_transfers legs) = Some legs"
  unfolding read_transfers_def write_transfers_def leg_columns.simps read_optional_levels option.case length_map Let_def
  by simp (rule nth_equalityI, simp_all)

text \<open>
  What the dataset promises of a row: the fee as the number it is below \<open>2 ^ 63\<close>, and above that the
  number less \<open>2 ^ 64\<close>. The token of an NFT leg is told from a fungible one by the mark between the token and
  the serial number, which no entity id has.
\<close>

definition published_row :: "parsed_transaction \<Rightarrow> tx_row" where
  "published_row r = \<lparr>row_consensus_timestamp = consensus_timestamp r, row_payer = payer r, row_type = tx_type r,
     row_result = result_name r, row_result_code = result_code r,
     row_fee_tinybar = (let fee = unat (charged_fee_tinybar r) in if fee < 2 ^ 63 then int fee else int fee - 2 ^ 64)\<rparr>"

definition plain_tokens :: "parsed_transaction \<Rightarrow> bool" where
  "plain_tokens r \<longleftrightarrow> list_all (\<lambda>l. CHR ''#'' \<notin> set (ttleg_token l)) (token_transfers r)"

lemma plain_tokens_parse_item: "parse_item E item = Some r \<Longrightarrow> plain_tokens r"
  by (auto simp: parse_item_def plain_tokens_def token_legs_of_def token_entity_id_no_hash list_all_iff Let_def split: option.splits)

lemma plain_tokens_transaction_from: "plain_tokens (transaction_from E body res)"
  using token_entity_id_no_hash
  by (auto simp: transaction_from_def plain_tokens_def list_all_iff Let_def)

definition is_nft_leg :: "leg_row \<Rightarrow> bool" where
  "is_nft_leg l \<longleftrightarrow> (case lr_token l of Some t \<Rightarrow> CHR ''#'' \<in> set t | None \<Rightarrow> False)"

definition nft_name :: "token_id \<Rightarrow> i64 \<Rightarrow> string" where
  "nft_name t serial = fmt_token_id t @ ''#'' @ show_int serial"

definition nft_legs_at :: "parsed_transaction list \<Rightarrow> string \<Rightarrow> (nft_transfer \<Rightarrow> bool) \<Rightarrow> nat" where
  "nft_legs_at rows ts P =
     length (filter P (concat (map nft_transfers (filter (\<lambda>r. consensus_timestamp r = ts) rows))))"

lemma nft_name_inject: "nft_name t s = nft_name t' s' \<longleftrightarrow> t = t' \<and> s = s'"
proof
  assume "nft_name t s = nft_name t' s'"
  then have "fmt_token_id t @ CHR ''#'' # show_int s = fmt_token_id t' @ CHR ''#'' # show_int s'" by (simp add: nft_name_def)
  from split_at_sep_eq [OF this] dotted_no_hash show "t = t' \<and> s = s'"
    by (simp add: fmt_token_id_def dotted_inject token_id.expand)
qed simp

lemma nft_leg_rows_eq:
  "nft_leg_rows ts leg =
     (case sender leg of Some s \<Rightarrow> [\<lparr>lr_consensus_timestamp = ts, lr_account = fmt_account_id s, lr_amount = -1,
        lr_token = Some (nft_name (token leg) (serial_number leg))\<rparr>] | None \<Rightarrow> [])
   @ (case receiver leg of Some r \<Rightarrow> [\<lparr>lr_consensus_timestamp = ts, lr_account = fmt_account_id r, lr_amount = 1,
        lr_token = Some (nft_name (token leg) (serial_number leg))\<rparr>] | None \<Rightarrow> [])"
  by (simp add: nft_leg_rows_def nft_name_def Let_def split: option.split)

lemma nft_name_hash: "CHR ''#'' \<in> set (nft_name t s)"
  by (simp add: nft_name_def)

lemma is_nft_leg_rows: "l \<in> set (nft_leg_rows ts n) \<Longrightarrow> is_nft_leg l \<and> lr_token l \<noteq> None \<and> lr_consensus_timestamp l = ts"
  by (auto simp: nft_leg_rows_eq is_nft_leg_def nft_name_hash split: option.splits)

lemma filter_nft_legs:
  "filter (\<lambda>l. lr_token l = None) (concat (map (nft_leg_rows ts) ns)) = []"
  "filter (\<lambda>l. lr_token l \<noteq> None \<and> \<not> is_nft_leg l) (concat (map (nft_leg_rows ts) ns)) = []"
  by (auto simp: filter_empty_conv dest: is_nft_leg_rows)

lemma account_legs_of_transaction:
  "map (\<lambda>l. (lr_consensus_timestamp l, lr_account l, lr_amount l)) (filter (\<lambda>l. lr_token l = None) (legs_of_transaction r)) =
     map (\<lambda>l. (consensus_timestamp r, leg_account l, leg_amount l)) (transfers r)"
  by (simp only: legs_of_transaction_def filter_append filter_nft_legs) (simp add: filter_map comp_def)

lemma token_legs_of_transaction:
  "plain_tokens r \<Longrightarrow>
   map (\<lambda>l. (lr_consensus_timestamp l, lr_token l, lr_account l, lr_amount l))
     (filter (\<lambda>l. lr_token l \<noteq> None \<and> \<not> is_nft_leg l) (legs_of_transaction r)) =
   map (\<lambda>l. (consensus_timestamp r, Some (ttleg_token l), ttleg_account l, ttleg_amount l)) (token_transfers r)"
  by (simp only: legs_of_transaction_def filter_append filter_nft_legs)
    (simp add: filter_map comp_def is_nft_leg_def plain_tokens_def list_all_iff cong: filter_cong)

lemma nft_legs_of_transaction:
  "plain_tokens r \<Longrightarrow> filter is_nft_leg (legs_of_transaction r) = concat (map (nft_leg_rows (consensus_timestamp r)) (nft_transfers r))"
  by (auto simp: legs_of_transaction_def filter_map comp_def is_nft_leg_def plain_tokens_def list_all_iff
      filter_id_conv filter_empty_conv nft_leg_rows_eq nft_name_hash split: option.splits)

lemma count_nft_leg_rows:
  "count_list (concat (map (nft_leg_rows ts) ns)) \<lparr>lr_consensus_timestamp = ts', lr_account = fmt_account_id a, lr_amount = 1,
      lr_token = Some (nft_name t s)\<rparr> =
     (if ts = ts' then length (filter (\<lambda>n. token n = t \<and> serial_number n = s \<and> receiver n = Some a) ns) else 0)"
  "count_list (concat (map (nft_leg_rows ts) ns)) \<lparr>lr_consensus_timestamp = ts', lr_account = fmt_account_id a, lr_amount = -1,
      lr_token = Some (nft_name t s)\<rparr> =
     (if ts = ts' then length (filter (\<lambda>n. token n = t \<and> serial_number n = s \<and> sender n = Some a) ns) else 0)"
  by (induction ns) (auto simp: nft_leg_rows_eq nft_name_inject fmt_account_id_inject split: option.splits)

lemma length_nft_leg_rows:
  "length (nft_leg_rows ts n) = of_bool (sender n \<noteq> None) + of_bool (receiver n \<noteq> None)"
  by (simp add: nft_leg_rows_eq split: option.split)

lemma count_list_filter: "P x \<Longrightarrow> count_list (filter P xs) x = count_list xs x"
  by (induction xs) auto

lemma count_nft_legs:
  assumes "list_all plain_tokens rows"
  shows "count_list (concat (map legs_of_transaction rows)) \<lparr>lr_consensus_timestamp = ts, lr_account = fmt_account_id a, lr_amount = 1,
      lr_token = Some (nft_name t s)\<rparr> = nft_legs_at rows ts (\<lambda>n. token n = t \<and> serial_number n = s \<and> receiver n = Some a)" (is "count_list _ ?plus = _")
    and "count_list (concat (map legs_of_transaction rows)) \<lparr>lr_consensus_timestamp = ts, lr_account = fmt_account_id a, lr_amount = -1,
      lr_token = Some (nft_name t s)\<rparr> = nft_legs_at rows ts (\<lambda>n. token n = t \<and> serial_number n = s \<and> sender n = Some a)" (is "count_list _ ?minus = _")
    and "length (filter is_nft_leg (concat (map legs_of_transaction rows))) =
      sum_list (map (\<lambda>n. of_bool (sender n \<noteq> None) + of_bool (receiver n \<noteq> None)) (concat (map nft_transfers rows)))"
proof -
  have nft: "is_nft_leg ?plus" "is_nft_leg ?minus" by (simp_all add: is_nft_leg_def nft_name_hash)
  have "count_list (legs_of_transaction r) x = count_list (concat (map (nft_leg_rows (consensus_timestamp r)) (nft_transfers r))) x"
    if "plain_tokens r" "is_nft_leg x" for r x
    using count_list_filter [of is_nft_leg x "legs_of_transaction r"] that by (simp add: nft_legs_of_transaction)
  note one = this [OF _ nft(1)] this [OF _ nft(2)]
  show "count_list (concat (map legs_of_transaction rows)) ?plus = nft_legs_at rows ts (\<lambda>n. token n = t \<and> serial_number n = s \<and> receiver n = Some a)"
    using assms by (induction rows) (simp_all add: nft_legs_at_def one count_nft_leg_rows)
  show "count_list (concat (map legs_of_transaction rows)) ?minus = nft_legs_at rows ts (\<lambda>n. token n = t \<and> serial_number n = s \<and> sender n = Some a)"
    using assms by (induction rows) (simp_all add: nft_legs_at_def one count_nft_leg_rows)
  show "length (filter is_nft_leg (concat (map legs_of_transaction rows))) =
      sum_list (map (\<lambda>n. of_bool (sender n \<noteq> None) + of_bool (receiver n \<noteq> None)) (concat (map nft_transfers rows)))"
    using assms by (induction rows) (simp_all add: nft_legs_of_transaction length_concat length_nft_leg_rows comp_def)
qed

text \<open>C36. What a reader of the published schemas gets back from a day written by \<open>write_day\<close>. The transaction
  table gives one row for each row of the day, in order, with its timestamp, payer, type, result, code and fee (a fee
  of \<open>2 ^ 63\<close> or more, which the unsigned field of the record admits, comes back as a negative number). The transfer
  table, there exactly with \<open>--with-transfers\<close>, gives: without a token, the account legs of all rows in order; with a fungible
  token, the token legs of all rows in order; and for every time, NFT and account as many rows of \<open>1\<close> as
  the account received it, as many of \<open>-1\<close> as it sent it, and no other NFT row, so that a mint or a burn is one row.
  The hypothesis, that no fungible token is named like an NFT, holds of every row of the two parsers
  (\<open>plain_tokens_parse_item\<close>, \<open>plain_tokens_transaction_from\<close>).\<close>

theorem parquet_columns_faithful:
  assumes "list_all plain_tokens rows"
  shows "part_day (write_day d rows with_legs) = d \<and>
    read_transactions (part_transactions (write_day d rows with_legs)) = Some (map published_row rows) \<and>
    (if with_legs then \<exists>cols legs. part_transfers (write_day d rows with_legs) = Some cols \<and> read_transfers cols = Some legs \<and>
       map (\<lambda>l. (lr_consensus_timestamp l, lr_account l, lr_amount l)) (filter (\<lambda>l. lr_token l = None) legs) =
         concat (map (\<lambda>r. map (\<lambda>l. (consensus_timestamp r, leg_account l, leg_amount l)) (transfers r)) rows) \<and>
       map (\<lambda>l. (lr_consensus_timestamp l, lr_token l, lr_account l, lr_amount l)) (filter (\<lambda>l. lr_token l \<noteq> None \<and> \<not> is_nft_leg l) legs) =
         concat (map (\<lambda>r. map (\<lambda>l. (consensus_timestamp r, Some (ttleg_token l), ttleg_account l, ttleg_amount l)) (token_transfers r)) rows) \<and>
       (\<forall>ts t s a.
          count_list legs \<lparr>lr_consensus_timestamp = ts, lr_account = fmt_account_id a, lr_amount = 1, lr_token = Some (nft_name t s)\<rparr> =
            nft_legs_at rows ts (\<lambda>n. token n = t \<and> serial_number n = s \<and> receiver n = Some a) \<and>
          count_list legs \<lparr>lr_consensus_timestamp = ts, lr_account = fmt_account_id a, lr_amount = -1, lr_token = Some (nft_name t s)\<rparr> =
            nft_legs_at rows ts (\<lambda>n. token n = t \<and> serial_number n = s \<and> sender n = Some a)) \<and>
       length (filter is_nft_leg legs) =
         sum_list (map (\<lambda>n. of_bool (sender n \<noteq> None) + of_bool (receiver n \<noteq> None)) (concat (map nft_transfers rows)))
     else part_transfers (write_day d rows with_legs) = None)"
proof -
  have rows: "read_transactions (write_transactions rows) = Some (map published_row rows)"
    unfolding read_write_transactions published_row_def sint_u64 by (simp add: Let_def)
  have accounts: "map (\<lambda>l. (lr_consensus_timestamp l, lr_account l, lr_amount l)) (filter (\<lambda>l. lr_token l = None) (concat (map legs_of_transaction rows))) =
      concat (map (\<lambda>r. map (\<lambda>l. (consensus_timestamp r, leg_account l, leg_amount l)) (transfers r)) rows)"
    by (simp add: filter_concat map_concat comp_def account_legs_of_transaction)
  have tokens: "map (\<lambda>l. (lr_consensus_timestamp l, lr_token l, lr_account l, lr_amount l))
        (filter (\<lambda>l. lr_token l \<noteq> None \<and> \<not> is_nft_leg l) (concat (map legs_of_transaction rows))) =
      concat (map (\<lambda>r. map (\<lambda>l. (consensus_timestamp r, Some (ttleg_token l), ttleg_account l, ttleg_amount l)) (token_transfers r)) rows)"
    using assms by (induction rows) (simp_all add: token_legs_of_transaction del: not_None_eq)
  show ?thesis
  proof (cases with_legs)
    case True
    with rows accounts tokens count_nft_legs [OF assms] show ?thesis
      by (simp only: write_day_def partition.simps if_True) (auto simp: read_write_transfers)
  qed (simp add: write_day_def rows)
qed

definition demo_row :: parsed_transaction where
  "demo_row = \<lparr>consensus_timestamp = ''1.000000000'', day = ''1970-01-01'', payer = ''0.0.2'', transaction_id = [],
     tx_type = ''CRYPTOTRANSFER'', result_code = 22, result_name = ''SUCCESS'', charged_fee_tinybar = 5,
     transfers = [\<lparr>leg_account = ''0.0.2'', leg_amount = -5\<rparr>],
     token_transfers = [\<lparr>ttleg_token = ''0.0.9'', ttleg_account = ''0.0.2'', ttleg_amount = 1\<rparr>],
     nft_transfers = [\<lparr>sender = None, receiver = Some (Account_Id 0 0 2), token = Token_Id 0 0 8, serial_number = 1,
        is_approval = False\<rparr>]\<rparr>"

lemma parquet_columns_faithful_witness:
  "\<exists>cols legs. part_transfers (write_day ''1970-01-01'' [demo_row] True) = Some cols \<and> read_transfers cols = Some legs \<and>
     count_list legs \<lparr>lr_consensus_timestamp = ''1.000000000'', lr_account = fmt_account_id (Account_Id 0 0 2), lr_amount = 1,
       lr_token = Some (nft_name (Token_Id 0 0 8) 1)\<rparr> = 1 \<and> length (filter is_nft_leg legs) = 1"
proof -
  have "list_all plain_tokens [demo_row]" by (simp add: plain_tokens_def demo_row_def)
  from parquet_columns_faithful [OF this, of "''1970-01-01''" True] obtain cols legs where
    "part_transfers (write_day ''1970-01-01'' [demo_row] True) = Some cols" "read_transfers cols = Some legs"
    and n: "count_list legs \<lparr>lr_consensus_timestamp = ''1.000000000'', lr_account = fmt_account_id (Account_Id 0 0 2), lr_amount = 1,
        lr_token = Some (nft_name (Token_Id 0 0 8) 1)\<rparr> = nft_legs_at [demo_row] ''1.000000000''
          (\<lambda>n. token n = Token_Id 0 0 8 \<and> serial_number n = 1 \<and> receiver n = Some (Account_Id 0 0 2))"
    and l: "length (filter is_nft_leg legs) =
       sum_list (map (\<lambda>n. of_bool (sender n \<noteq> None) + of_bool (receiver n \<noteq> None)) (concat (map nft_transfers [demo_row])))"
    unfolding if_True by blast
  moreover have "length (filter is_nft_leg legs) = 1" unfolding l by (simp add: demo_row_def)
  ultimately show ?thesis by (simp add: nft_legs_at_def demo_row_def)
qed

section \<open>Examples\<close>

text \<open>A directory of two record files of one day and the next; the decoder numbers a file by its length.\<close>

definition demo_etl :: externals where
  "demo_etl = demo\<lparr>dec_record_stream_file := (\<lambda>b. Inr \<lparr>rsf_hapi_proto_version = None,
     rsf_start_object_running_hash = None, rsf_record_stream_items = [], rsf_end_object_running_hash = None,
     rsf_block_number = int (length b)\<rparr>)\<rparr>"

definition demo_files :: file_system where
  "demo_files = \<lparr>list_dir = Inr [''2024-01-02.rcd'', ''2024-01-01.rcd''],
     read_file = (\<lambda>name. if name = ''7.blk'' then Inr demo_block
        else if name = ''2024-01-02.rcd'' then Inr [0, 0, 0, 6, 1, 1] else Inr [0, 0, 0, 6, 1]),
     write_fails = (\<lambda>_. None)\<rparr>"

definition demo_opts :: etl_options where
  "demo_opts = \<lparr>with_transfers = True, verify_chain = True, threads = 2\<rparr>"

lemma demo_record_file:
  "length b = 2 \<Longrightarrow> parse_record_file demo_etl ([0, 0, 0, 6] @ b) = Inr \<lparr>prf_version = 6, prf_block_number = 2,
     start_running_hash = [], end_running_hash = [], prf_hapi_version = ''0.0.0'', prf_transactions = []\<rparr>"
  "length b = 1 \<Longrightarrow> parse_record_file demo_etl ([0, 0, 0, 6] @ b) = Inr \<lparr>prf_version = 6, prf_block_number = 1,
     start_running_hash = [], end_running_hash = [], prf_hapi_version = ''0.0.0'', prf_transactions = []\<rparr>"
  by (simp_all add: parse_record_file_def inflate_def is_gzip_def GZIP_MAGIC_def i32_from_be_bytes_def be_nat_def
      demo_etl_def default_bytes_def version_part_def dotted_def show_int_def show_nat.simps filter_map_def Let_def)

lemma demo_names: "(''2024-01-01'' :: string) < ''2024-01-02''" "sorted [''2024-01-01.rcd'' :: string, ''2024-01-02.rcd'']"
  by (simp_all add: less_char_def less_eq_char_def)

lemma demo_group:
  "group_days [] [''2024-01-01.rcd'', ''2024-01-02.rcd''] =
     Inr [(''2024-01-01'', [''2024-01-01.rcd'']), (''2024-01-02'', [''2024-01-02.rcd''])]"
  using demo_names(1) less_asym [OF demo_names(1)] by (simp add: get_prefix_def is_char_boundary_def)

lemma demo_parse:
  "parse_named demo_etl demo_files ''2024-01-01.rcd'' = Inr \<lparr>prf_version = 6, prf_block_number = 1,
     start_running_hash = [], end_running_hash = [], prf_hapi_version = ''0.0.0'', prf_transactions = []\<rparr>"
  "parse_named demo_etl demo_files ''2024-01-02.rcd'' = Inr \<lparr>prf_version = 6, prf_block_number = 2,
     start_running_hash = [], end_running_hash = [], prf_hapi_version = ''0.0.0'', prf_transactions = []\<rparr>"
  using demo_record_file(2) [of "[1]"] demo_record_file(1) [of "[1, 1]"]
  by (simp_all add: parse_named_def demo_files_def)

lemma demo_fields [simp]:
  "write_fails demo_files p = None" "verify_chain demo_opts" "with_transfers demo_opts" "threads demo_opts = 2"
  by (simp_all add: demo_files_def demo_opts_def)

lemma check_day_okI:
  assumes "chained record_link (pre_of boundary @ ps)"
  shows "check_day d files boundary ps = Inr ()"
proof -
  have "verify_running_hash_chain ps = Inr ()"
    using assms by (simp add: verify_running_hash_chain_iff chained_append)
  moreover have "verify_running_hash_chain [b, p] = Inr ()" if "boundary = Some b" "ps = p # ps'" for b p ps'
    using assms that by (simp add: verify_running_hash_chain_iff pre_of_def)
  ultimately show ?thesis by (auto simp: check_day_def split: option.split list.split)
qed

lemma demo_run:
  "\<exists>parts. record_run demo_etl demo_files demo_opts [''2024-01-01.rcd'', ''2024-01-02.rcd''] = Some (parts, Inr ()) \<and>
     map part_day parts = [''2024-01-01'', ''2024-01-02'']"
  unfolding record_run_def demo_group
  by (simp add: fan_out_total demo_parse check_day_okI pre_of_def record_link_def checked_add_i64_def
      in_i64_def part_rows_write_day Let_def)

lemma record_run_complete_witness:
  "\<exists>parts files. record_run demo_etl demo_files demo_opts [''2024-01-01.rcd'', ''2024-01-02.rcd''] = Some (parts, Inr ()) \<and>
     map_result (parse_named demo_etl demo_files) [''2024-01-01.rcd'', ''2024-01-02.rcd''] = Inr files \<and>
     chained record_link files"
proof -
  obtain parts where run: "record_run demo_etl demo_files demo_opts [''2024-01-01.rcd'', ''2024-01-02.rcd''] = Some (parts, Inr ())"
    using demo_run by blast
  show ?thesis
    using record_run_complete [OF run demo_names(2)] run by auto
qed

lemma demo_parse_block: "\<exists>b. parse_block_named demo_env demo_files ''7.blk'' = Some (Inr b)"
proof -
  obtain m where "extract_proof_material demo_env demo_block = Some (Inr m)" using demo_extract by blast
  then obtain s where "scan_block demo_env demo_block = Some (Inr s)"
    by (auto simp: extract_proof_material_def and_then_eq_Inr_iff)
  moreover have "\<exists>p. parse_block demo_env demo_block = Inr p"
    using demo_block_inflate by (simp add: parse_block_def demo_env_def demo_def)
  ultimately show ?thesis
    by (auto simp: parse_block_named_def demo_files_def block_chain_info_def)
qed

lemma block_run_complete_witness:
  "\<exists>parts (blocks :: block_file list). block_run demo_env demo_files demo_opts [''7.blk''] = Some (parts, Inr ()) \<and>
     length blocks = 1 \<and> mset (concat (map part_rows parts)) = mset (concat (map bf_transactions blocks))"
proof -
  obtain b where "parse_block_named demo_env demo_files ''7.blk'' = Some (Inr b)" using demo_parse_block by blast
  then have "fan_out 2 (parse_block_named demo_env demo_files) [''7.blk''] = Some (Inr [b])"
    using fan_out_cong [of "[''7.blk'']" "parse_block_named demo_env demo_files" "\<lambda>_. Inr b" 2] by simp
  moreover have "write_days demo_files lg w days = (parts, r) \<Longrightarrow> r = Inr ()" for lg w days parts r
    by (induction days arbitrary: w) (auto simp: Let_def)
  ultimately obtain parts where run: "block_run demo_env demo_files demo_opts [''7.blk''] = Some (parts, Inr ())"
    by (simp add: block_run_def) (metis surj_pair)
  from block_run_complete [OF run] obtain blocks where
    "list_all2 (\<lambda>name b. parse_block_named demo_env demo_files name = Some (Inr b)) [''7.blk''] blocks"
    "mset (concat (map part_rows parts)) = mset (concat (map bf_transactions blocks))" by blast
  moreover from this(1) have "length blocks = 1" by (auto dest: list_all2_lengthD)
  ultimately show ?thesis using run by blast
qed

lemma threads_irrelevant_witness:
  "block_run demo_env demo_files (demo_opts\<lparr>threads := 3\<rparr>) [''7.blk''] = block_run demo_env demo_files demo_opts [''7.blk'']"
proof -
  have "\<And>name. name \<in> set [''7.blk''] \<Longrightarrow> parse_block_named demo_env demo_files name \<noteq> None"
    using demo_parse_block by auto
  from threads_irrelevant [of 3 2 "[''7.blk'']", OF _ _ this, where opts = demo_opts] show ?thesis by (simp add: demo_opts_def)
qed

end
