(* ===== verification/Cli.thy ===== *)
theory Cli
  imports Attest Etl
begin

text \<open>
  \<open>src/cli/mod.rs\<close>: the commands and their dispatch. A command gives the JSON values it prints and how it ends:
  an error message, an exit code, or \<open>None\<close> for a panic (or a loop out of fuel). Files, requests and the features
  of the build are the fields of \<open>cli_env\<close>; a verifier of block proofs is there exactly in a build with
  \<open>block-proofs\<close>. What the theorems show: the exit code is the contract, it is \<open>SUCCESS\<close> for exactly the
  verifications that passed.
\<close>

section \<open>The build and its surroundings\<close>

type_synonym outcome = "json list \<times> (string + exit_code) option"

type_synonym block_verifier = "(block_proof_material \<Rightarrow> bootstrap \<Rightarrow> (error + block_proof_verification) option) option"

record cli_env =
  lib :: externals
  hex_encode :: "bytes \<Rightarrow> string"
  host :: sentinel_env
  response_json :: "bytes \<Rightarrow> string + json"
  open_dir :: "string \<Rightarrow> string \<Rightarrow> file_system"
  parallelism :: nat
  overflow_checks :: bool
  loop_fuel :: nat
  hints_check :: hints_verifier
  proof_check :: block_verifier
  fetch_feature :: bool
  etl_feature :: bool

definition fail_with :: "string \<Rightarrow> outcome" where
  "fail_with e = ([], Some (Inl e))"

definition display :: "'a result \<Rightarrow> string + 'a" where
  "display r = map_err show_error r"

section \<open>\<open>parse\<close>\<close>

definition cmd_parse :: "cli_env \<Rightarrow> string \<Rightarrow> outcome" where
  "cmd_parse C p =
     (case and_then (read_path (host C) p) (\<lambda>bytes.
           and_then (display (detect_format (lib C) bytes)) (\<lambda>fmt.
             (case fmt of
                BlockStream \<Rightarrow> and_then (display (parse_block (lib C) bytes)) (\<lambda>b. Inr (block_to_json_value b))
              | _ \<Rightarrow> and_then (display (parse_record_file (lib C) bytes)) (\<lambda>f. Inr (record_file_to_json_value f))))) of
        Inl e \<Rightarrow> fail_with e
      | Inr v \<Rightarrow> ([v], Some (Inr SUCCESS)))"

section \<open>\<open>verify\<close>\<close>

text \<open>A block: the bootstrap comes from the block itself or from the genesis block named by \<open>--bootstrap\<close>.\<close>

definition cmd_verify_block :: "cli_env \<Rightarrow> (block_proof_material \<Rightarrow> bootstrap \<Rightarrow> (error + block_proof_verification) option) \<Rightarrow>
    bytes \<Rightarrow> string list \<Rightarrow> outcome" where
  "cmd_verify_block C verify stream_bytes args =
     (case and_then_panic (map_option display (extract_proof_material (lib C) stream_bytes)) (\<lambda>m.
           and_then_panic (Some (case flag args ''--bootstrap'' of
               Some p \<Rightarrow> and_then (map_err (\<lambda>e. p @ '': '' @ e) (read_path (host C) p)) (\<lambda>b. Inr (Some b))
             | None \<Rightarrow> Inr None)) (\<lambda>genesis.
           and_then_panic (map_option display (resolve_bootstrap (lib C) m genesis ''pass --bootstrap <genesis.blk[.gz]>'')) (\<lambda>boot.
           and_then_panic (map_option display (verify m boot)) (\<lambda>v. Some (Inr (m, boot, v)))))) of
        None \<Rightarrow> ([], None)
      | Some (Inl e) \<Rightarrow> fail_with e
      | Some (Inr (m, boot, v)) \<Rightarrow>
          ([block_proof_to_json_value (hex_encode C) m (ledger_id boot) v], Some (Inr (if valid v then SUCCESS else FAILURE))))"

text \<open>The key of a record file's signature: named directly, or looked up in an address book; \<open>Inl\<close> ends the
  command with that exit code.\<close>

definition public_key_of :: "cli_env \<Rightarrow> string list \<Rightarrow> string + (exit_code + string)" where
  "public_key_of C args =
     (case flag args ''--public-key'' of
        Some key \<Rightarrow> Inr (Inr key)
      | None \<Rightarrow>
          (case (flag args ''--address-book'', flag args ''--node'') of
             (Some book_path, Some nd) \<Rightarrow>
               and_then (read_path (host C) book_path) (\<lambda>b.
               and_then (display (parse_address_book (lib C) b)) (\<lambda>book.
                 (case bt_get book nd of Some key \<Rightarrow> Inr (Inr key) | None \<Rightarrow> Inr (Inl FAILURE))))
           | _ \<Rightarrow> Inr (Inl USAGE)))"

definition verify_value :: "(bytes \<Rightarrow> string) \<Rightarrow> bytes \<Rightarrow> bool \<Rightarrow> bool \<Rightarrow> json" where
  "verify_value hex h claim ok_sig = Object
     [(''fileHash'', String (hex h)),
      (''hashMatchesSignatureFileClaim'', Bool claim),
      (''signatureValid'', Bool ok_sig),
      (''note'', String (if ok_sig then
          ''this node signed exactly these bytes; network attestation requires >= 1/3 of the address book (fetch more nodes' .rcd_sig files)''
        else ''signature INVALID for the locally computed hash''))]"

definition cmd_verify_record :: "cli_env \<Rightarrow> bytes \<Rightarrow> string list \<Rightarrow> outcome" where
  "cmd_verify_record C stream_bytes args =
     (case get_at args 1 of
        None \<Rightarrow> ([], Some (Inr USAGE))
      | Some sig_path \<Rightarrow>
          (case public_key_of C args of
             Inl e \<Rightarrow> fail_with e
           | Inr (Inl code) \<Rightarrow> ([], Some (Inr code))
           | Inr (Inr key) \<Rightarrow>
               (case and_then (display (record_file_hash (lib C) stream_bytes)) (\<lambda>h.
                     and_then (read_path (host C) sig_path) (\<lambda>b.
                     and_then (display (parse_signature_file (lib C) b)) (\<lambda>sig.
                     and_then (display (verify_node_signature (lib C) h (file_signature sig) key)) (\<lambda>good.
                       Inr (h, sig, good))))) of
                  Inl e \<Rightarrow> fail_with e
                | Inr (h, sig, good) \<Rightarrow>
                    ([verify_value (hex_encode C) h (file_hash sig = h) good], Some (Inr (if good then SUCCESS else FAILURE))))))"

definition cmd_verify :: "cli_env \<Rightarrow> string list \<Rightarrow> outcome" where
  "cmd_verify C args =
     (case args of
        [] \<Rightarrow> ([], Some (Inr USAGE))
      | stream_path # _ \<Rightarrow>
          (case and_then (read_path (host C) stream_path) (\<lambda>bytes.
                and_then (display (detect_format (lib C) bytes)) (\<lambda>fmt. Inr (bytes, fmt))) of
             Inl e \<Rightarrow> fail_with e
           | Inr (bytes, fmt) \<Rightarrow>
               if fmt = BlockStream then
                 (case proof_check C of
                    Some verify \<Rightarrow> cmd_verify_block C verify bytes args
                  | None \<Rightarrow> fail_with (''this is a block-stream file; its proof is verified in-band '' @ em_dash
                      @ '' rebuild with `--features block-proofs`''))
               else cmd_verify_record C bytes args))"

section \<open>\<open>chain-info\<close>\<close>

text \<open>\<open>!a.starts_with("--")\<close>\<close>

definition is_file_argument :: "string \<Rightarrow> bool" where
  "is_file_argument a \<longleftrightarrow> \<not> prefix ''--'' a"

definition chain_line :: "(bytes \<Rightarrow> string) \<Rightarrow> string \<Rightarrow> block_proof_material \<Rightarrow> (string \<times> json) list" where
  "chain_line hex p m =
     [(''file'', String p),
      (''blockNumber'', String (show_u64 (block_number m))),
      (''blockRoot'', String (hex (block_root m))),
      (''previousBlockRoot'', String (hex (previous_block_root m))),
      (''proofPath'', String (fst (path_name (path (layout m))))),
      (''signatureBytes'', Number (int (layout_bytes (layout m)))),
      (''hasBootstrap'', Bool (material_bootstrap m \<noteq> None))]"

text \<open>One file after the other; the lines of the files before an error are printed already.\<close>

fun chain_files :: "cli_env \<Rightarrow> bool \<Rightarrow> string list \<Rightarrow> json list \<Rightarrow> bool \<Rightarrow> outcome" where
  "chain_files C check_hints [] out all_ok = (out, Some (Inr (if all_ok then SUCCESS else FAILURE)))"
| "chain_files C check_hints (p # ps) out all_ok =
     (case and_then_panic (Some (read_path (host C) p)) (\<lambda>bytes.
           map_option (map_err (\<lambda>e. p @ '': '' @ show_error e)) (extract_proof_material (lib C) bytes)) of
        None \<Rightarrow> (out, None)
      | Some (Inl e) \<Rightarrow> (out, Some (Inl e))
      | Some (Inr m) \<Rightarrow>
          (case (if check_hints \<and> snd (path_name (path (layout m))) then hints_check C else None) of
             None \<Rightarrow> chain_files C check_hints ps (out @ [Object (chain_line (hex_encode C) p m)]) all_ok
           | Some verify \<Rightarrow>
               (case hints_passed (verify (layout m) (block_root m)) of
                  None \<Rightarrow> (out, None)
                | Some passed \<Rightarrow>
                    chain_files C check_hints ps
                      (out @ [Object (chain_line (hex_encode C) p m @ [(''hintsAllPassed'', Bool passed)])]) (all_ok \<and> passed))))"

definition cmd_chain_info :: "cli_env \<Rightarrow> string list \<Rightarrow> outcome" where
  "cmd_chain_info C args =
     (let check_hints = (''--check-hints'' \<in> set args); files = filter is_file_argument args
      in if check_hints \<and> hints_check C = None then
           fail_with (''--check-hints verifies the hinTS threshold signature '' @ em_dash @ '' rebuild with `--features block-proofs`'')
         else if files = [] then ([], Some (Inr USAGE))
         else chain_files C check_hints files [] True)"

section \<open>\<open>block-activity\<close>\<close>

definition activity_value :: "block_activity \<Rightarrow> json" where
  "activity_value a = Object
     [(''blockNumber'', Number (int (unat (activity_block_number a)))),
      (''rounds'', Array (map (\<lambda>r. Number (int (unat r))) (activity_rounds a))),
      (''totalEvents'', Number (int (unat (total_events a)))),
      (''activeNodeCount'', Number (int (length (events_by_node a)))),
      (''eventsByNode'', Object (map (\<lambda>(nd, events). (show_int nd, Number (int (unat events)))) (events_by_node a)))]"

definition activity_report :: "cli_env \<Rightarrow> string \<Rightarrow> string + json" where
  "activity_report C p =
     and_then (map_err (\<lambda>e. p @ '': '' @ e) (read_path (host C) p)) (\<lambda>bytes.
     and_then (display (detect_format (lib C) bytes)) (\<lambda>fmt.
       if fmt \<noteq> BlockStream then Inl (p @ '': not a block-stream file'')
       else and_then (map_err (\<lambda>e. p @ '': '' @ show_error e) (block_activity (lib C) bytes)) (\<lambda>a. Inr (activity_value a))))"

definition cmd_block_activity :: "cli_env \<Rightarrow> string list \<Rightarrow> outcome" where
  "cmd_block_activity C paths =
     (case map_result (activity_report C) paths of
        Inl e \<Rightarrow> fail_with e
      | Inr [v] \<Rightarrow> ([v], Some (Inr SUCCESS))
      | Inr reports \<Rightarrow> ([Array reports], Some (Inr SUCCESS)))"

section \<open>The dispatch\<close>

definition etl_outcome :: "etl_run \<Rightarrow> (string + exit_code) option" where
  "etl_outcome r = (case r of None \<Rightarrow> None | Some (_, Inl e) \<Rightarrow> Some (Inl e) | Some (_, Inr _) \<Rightarrow> Some (Inr SUCCESS))"

definition sentinel_command :: "cli_env \<Rightarrow> string list \<Rightarrow> sentinel_result" where
  "sentinel_command C args =
     sentinel_run (overflow_checks C) (loop_fuel C) (check_block (lib C) (hex_encode C) (hints_check C)) (host C) args"

definition attest_command :: "cli_env \<Rightarrow> string list \<Rightarrow> outcome" where
  "attest_command C args = attest_run (loop_fuel C) (lib C) (hex_encode C) (host C) (response_json C) args"

text \<open>How the matched command ended, \<open>Inl USAGE\<close> when none matched.\<close>

definition dispatch :: "cli_env \<Rightarrow> string list \<Rightarrow> exit_code + (string + exit_code) option" where
  "dispatch C args =
     (case args of
        [] \<Rightarrow> Inl USAGE
      | cmd # rest \<Rightarrow>
          if cmd = ''sentinel'' \<and> fetch_feature C then Inr (snd (sentinel_command C rest))
          else (case rest of
              [] \<Rightarrow> Inl USAGE
            | p # _ \<Rightarrow>
                if cmd = ''parse'' then Inr (snd (cmd_parse C p))
                else if cmd = ''verify'' then Inr (snd (cmd_verify C rest))
                else if cmd = ''block-activity'' then Inr (snd (cmd_block_activity C rest))
                else if cmd = ''chain-info'' then Inr (snd (cmd_chain_info C rest))
                else if cmd = ''attest'' \<and> fetch_feature C then Inr (snd (attest_command C rest))
                else if cmd = ''etl'' \<and> etl_feature C then
                  Inr (etl_outcome (etl_run (lib C) (open_dir C) (parallelism C) rest))
                else Inl USAGE))"

text \<open>The exit code of the process; \<open>None\<close> is a panic.\<close>

definition cli_run :: "cli_env \<Rightarrow> string list \<Rightarrow> exit_code option" where
  "cli_run C args =
     (case dispatch C args of
        Inl code \<Rightarrow> Some code
      | Inr outcome \<Rightarrow> map_option (\<lambda>r. case r of Inl _ \<Rightarrow> FAILURE | Inr code \<Rightarrow> code) outcome)"

section \<open>What the exit codes say\<close>

lemmas result_iffs = and_then_eq_Inr_iff and_then_panic_eq_Inr_iff map_err_eq_Inr_iff ok_or_eq_Inr_iff

lemma display_eq_Inr_iff [simp]: "display r = Inr x \<longleftrightarrow> r = Inr x"
  by (simp add: display_def map_err_eq_Inr_iff)

lemma map_display_eq_Inr_iff [simp]: "map_option display r = Some (Inr x) \<longleftrightarrow> r = Some (Inr x)"
  by (cases r) simp_all

lemma verify_block_steps:
  assumes "and_then_panic (map_option display X) (\<lambda>m. and_then_panic (Some G) (\<lambda>g.
      and_then_panic (map_option display (R m g)) (\<lambda>boot.
      and_then_panic (map_option display (V m boot)) (\<lambda>v. Some (Inr (m, boot, v)))))) = Some (Inr (m, boot, v))"
  obtains g where "X = Some (Inr m)" "G = Inr g" "R m g = Some (Inr boot)" "V m boot = Some (Inr v)"
  using assms by (auto simp: result_iffs)

lemma cmd_verify_block_SUCCESS:
  assumes "snd (cmd_verify_block C verify b args) = Some (Inr SUCCESS)"
  shows "\<exists>m boot v. extract_proof_material (lib C) b = Some (Inr m) \<and>
    (\<exists>genesis. (genesis = None \<or> (\<exists>p g. flag args ''--bootstrap'' = Some p \<and> read_path (host C) p = Inr g \<and> genesis = Some g)) \<and>
       resolve_bootstrap (lib C) m genesis ''pass --bootstrap <genesis.blk[.gz]>'' = Some (Inr boot)) \<and>
    verify m boot = Some (Inr v) \<and> valid v"
proof -
  let ?r = "and_then_panic (map_option display (extract_proof_material (lib C) b)) (\<lambda>m.
      and_then_panic (Some (case flag args ''--bootstrap'' of
          Some p \<Rightarrow> and_then (map_err (\<lambda>e. p @ '': '' @ e) (read_path (host C) p)) (\<lambda>b. Inr (Some b))
        | None \<Rightarrow> Inr None)) (\<lambda>genesis.
      and_then_panic (map_option display (resolve_bootstrap (lib C) m genesis ''pass --bootstrap <genesis.blk[.gz]>'')) (\<lambda>boot.
      and_then_panic (map_option display (verify m boot)) (\<lambda>v. Some (Inr (m, boot, v))))))"
  note run = assms [unfolded cmd_verify_block_def]
  obtain m boot v where r: "?r = Some (Inr (m, boot, v))" and v: "valid v"
    using run by (cases ?r) (auto simp: fail_with_def split: sum.splits if_splits)
  from verify_block_steps [OF r] obtain genesis where *: "extract_proof_material (lib C) b = Some (Inr m)" "verify m boot = Some (Inr v)"
    and g: "(case flag args ''--bootstrap'' of
          Some p \<Rightarrow> and_then (map_err (\<lambda>e. p @ '': '' @ e) (read_path (host C) p)) (\<lambda>b. Inr (Some b))
        | None \<Rightarrow> Inr None) = Inr genesis"
    "resolve_bootstrap (lib C) m genesis ''pass --bootstrap <genesis.blk[.gz]>'' = Some (Inr boot)" by blast
  from g(1) have "genesis = None \<or> (\<exists>p g. flag args ''--bootstrap'' = Some p \<and> read_path (host C) p = Inr g \<and> genesis = Some g)"
    by (auto simp: result_iffs split: option.splits)
  with * g(2) v show ?thesis by blast
qed

lemma public_key_of_key:
  "public_key_of C args = Inr (Inr key) \<Longrightarrow>
     flag args ''--public-key'' = Some key \<or>
     (\<exists>book_path nd b book. flag args ''--address-book'' = Some book_path \<and> flag args ''--node'' = Some nd \<and>
        read_path (host C) book_path = Inr b \<and> parse_address_book (lib C) b = Inr book \<and> bt_get book nd = Some key)"
  by (auto simp: public_key_of_def result_iffs split: option.splits)

lemma public_key_of_code: "public_key_of C args = Inr (Inl code) \<Longrightarrow> code \<noteq> SUCCESS"
  by (auto simp: public_key_of_def result_iffs split: option.splits)

lemma cmd_verify_record_SUCCESS:
  assumes "snd (cmd_verify_record C b args) = Some (Inr SUCCESS)"
  shows "\<exists>sig_path key h s sig. get_at args 1 = Some sig_path \<and> public_key_of C args = Inr (Inr key) \<and>
    record_file_hash (lib C) b = Inr h \<and> read_path (host C) sig_path = Inr s \<and> parse_signature_file (lib C) s = Inr sig \<and>
    verify_node_signature (lib C) h (file_signature sig) key = Inr True"
  using assms public_key_of_code
  by (auto simp: cmd_verify_record_def fail_with_def result_iffs split: option.splits sum.splits if_splits)

text \<open>The build with \<open>--features block-proofs\<close>: its two verifiers are those of the crate. Success on a block, and a TSS
  block that the sentinel accepts, then rest on the checks of \<open>verify_hints\<close> over the root recomputed from the file.\<close>

definition with_block_proofs :: "('b::field, 'bq::zero, 'b1::ab_group_add, 'b2::ab_group_add) bls \<Rightarrow> ('n::zero, 's) sponge_lib \<Rightarrow>
    ('j, 'e::ab_group_add) jubjub \<Rightarrow> ('n, 'nq::zero, 'n1::ab_group_add, 'n2::ab_group_add) bn254 \<Rightarrow> cli_env \<Rightarrow> cli_env" where
  "with_block_proofs B P J N C =
     C\<lparr>hints_check := Some (verify_hints (overflow_checks C) B), proof_check := Some (verify_block_proof (overflow_checks C) B P J N)\<rparr>"

lemma verify_block_with_block_proofs:
  assumes "proof_check (with_block_proofs B P J N C) = Some verify"
    and "snd (cmd_verify_block C verify bytes args) = Some (Inr SUCCESS)"
  shows "\<exists>m c. extract_proof_material (lib C) bytes = Some (Inr m) \<and> path (layout m) \<noteq> Unknown_Path \<and>
    verify_hints (overflow_checks C) B (layout m) (block_root m) = Some (Inr c) \<and> Hints.all_passed c"
proof -
  obtain m boot v where m: "extract_proof_material (lib C) bytes = Some (Inr m)" "valid v"
    and "verify_proof_over_root (overflow_checks C) B P J N m boot (block_root m) = Some (Inr v)"
    using cmd_verify_block_SUCCESS [OF assms(2)] assms(1) by (auto simp: with_block_proofs_def verify_block_proof_def)
  from verify_proof_over_root_Inr [OF this(3)] m show ?thesis
    by (auto simp: Block_Proof.valid_def split: proof_path.splits)
qed

lemma acceptable_with_block_proofs:
  assumes "acceptable (hints_check (with_block_proofs B P J N C)) m" "snd (path_name (path (layout m)))"
  shows "\<exists>c. verify_hints (overflow_checks C) B (layout m) (block_root m) = Some (Inr c) \<and> Hints.all_passed c"
proof -
  have "hints_passed r = Some True \<Longrightarrow> \<exists>c. r = Some (Inr c) \<and> Hints.all_passed c" for r
    by (cases r; cases "the r") (simp_all add: hints_passed_def)
  with assms show ?thesis by (simp add: acceptable_def with_block_proofs_def)
qed

text \<open>C26. When \<open>verify\<close> exits with success, something was verified: for a block stream the proof over the root recomputed
  from the file is valid under a bootstrap found in the file or in the named genesis block, and the build has
  the proof stack; for any other file the node's signature verifies over the hash of exactly these bytes, under the key
  given or found in the address book. There is no other way to that exit code.\<close>

theorem verify_exit_sound:
  assumes "cli_run C (''verify'' # p # rest) = Some SUCCESS"
  shows "\<exists>bytes fmt. read_path (host C) p = Inr bytes \<and> detect_format (lib C) bytes = Inr fmt \<and>
    (if fmt = BlockStream then
       \<exists>verify m boot v genesis. proof_check C = Some verify \<and> extract_proof_material (lib C) bytes = Some (Inr m) \<and>
         (genesis = None \<or> (\<exists>q g. flag (p # rest) ''--bootstrap'' = Some q \<and> read_path (host C) q = Inr g \<and> genesis = Some g)) \<and>
         resolve_bootstrap (lib C) m genesis ''pass --bootstrap <genesis.blk[.gz]>'' = Some (Inr boot) \<and>
         verify m boot = Some (Inr v) \<and> valid v
     else
       \<exists>sig_path key h s sig. get_at rest 0 = Some sig_path \<and>
         (flag (p # rest) ''--public-key'' = Some key \<or>
          (\<exists>book_path nd b book. flag (p # rest) ''--address-book'' = Some book_path \<and> flag (p # rest) ''--node'' = Some nd \<and>
             read_path (host C) book_path = Inr b \<and> parse_address_book (lib C) b = Inr book \<and> bt_get book nd = Some key)) \<and>
         record_file_hash (lib C) bytes = Inr h \<and> read_path (host C) sig_path = Inr s \<and>
         parse_signature_file (lib C) s = Inr sig \<and> verify_node_signature (lib C) h (file_signature sig) key = Inr True)"
proof -
  have s: "snd (cmd_verify C (p # rest)) = Some (Inr SUCCESS)"
    using assms by (cases "snd (cmd_verify C (p # rest))"; cases "the (snd (cmd_verify C (p # rest)))")
      (simp_all add: cli_run_def dispatch_def)
  let ?r = "and_then (read_path (host C) p) (\<lambda>bytes. and_then (display (detect_format (lib C) bytes)) (\<lambda>fmt. Inr (bytes, fmt)))"
  obtain bytes fmt where r: "?r = Inr (bytes, fmt)"
    using s by (cases ?r) (auto simp: cmd_verify_def fail_with_def)
  then have io: "read_path (host C) p = Inr bytes" "detect_format (lib C) bytes = Inr fmt" by (auto simp: result_iffs)
  show ?thesis
  proof (cases "fmt = BlockStream")
    case True
    with s r obtain verify where "proof_check C = Some verify" "snd (cmd_verify_block C verify bytes (p # rest)) = Some (Inr SUCCESS)"
      by (auto simp: cmd_verify_def fail_with_def split: option.splits)
    with cmd_verify_block_SUCCESS [OF this(2)] show ?thesis
      by (intro exI [of _ bytes] exI [of _ fmt] conjI io, simp only: True if_True simp_thms) blast
  next
    case False
    with s r have "snd (cmd_verify_record C bytes (p # rest)) = Some (Inr SUCCESS)" by (auto simp: cmd_verify_def)
    from cmd_verify_record_SUCCESS [OF this] obtain sig_path key h s sig where
      k: "get_at (p # rest) 1 = Some sig_path" "public_key_of C (p # rest) = Inr (Inr key)" "record_file_hash (lib C) bytes = Inr h"
      "read_path (host C) sig_path = Inr s" "parse_signature_file (lib C) s = Inr sig"
      "verify_node_signature (lib C) h (file_signature sig) key = Inr True" by blast
    have "get_at rest 0 = Some sig_path" using k(1) by (simp add: get_at_def split: if_splits)
    with k(3-6) public_key_of_key [OF k(2)] show ?thesis
      by (intro exI [of _ bytes] exI [of _ fmt] conjI io, simp only: False if_False simp_thms) blast
  qed
qed

section \<open>\<open>chain-info\<close> over all its files\<close>

text \<open>What \<open>--check-hints\<close> asks of one block.\<close>

definition hints_fine :: "cli_env \<Rightarrow> bool \<Rightarrow> block_proof_material \<Rightarrow> bool" where
  "hints_fine C check_hints m \<longleftrightarrow>
     check_hints \<longrightarrow> path (layout m) \<noteq> Unknown_Path \<longrightarrow>
       (\<forall>verify. hints_check C = Some verify \<longrightarrow> hints_passed (verify (layout m) (block_root m)) = Some True)"

lemma chain_files_exit:
  assumes "chain_files C check_hints ps out all_ok = (out', Some (Inr code))"
  shows "\<exists>ms. list_all2 (\<lambda>p m. \<exists>b. read_path (host C) p = Inr b \<and> extract_proof_material (lib C) b = Some (Inr m)) ps ms \<and>
    (\<exists>new. out' = out @ new \<and> list_all2 (\<lambda>(p, m) l. \<exists>extra. l = Object (chain_line (hex_encode C) p m @ extra)) (zip ps ms) new) \<and>
    code = (if all_ok \<and> (\<forall>m \<in> set ms. hints_fine C check_hints m) then SUCCESS else FAILURE)"
  using assms
proof (induction ps arbitrary: out all_ok)
  case Nil
  then show ?case by simp
next
  case (Cons p ps)
  let ?r = "and_then_panic (Some (read_path (host C) p)) (\<lambda>bytes.
           map_option (map_err (\<lambda>e. p @ '': '' @ show_error e)) (extract_proof_material (lib C) bytes))"
  obtain m where r: "?r = Some (Inr m)" using Cons.prems by (cases ?r) (auto split: sum.splits)
  then obtain b where b: "read_path (host C) p = Inr b" "extract_proof_material (lib C) b = Some (Inr m)"
    by (auto simp: result_iffs)
  obtain line ok where step: "chain_files C check_hints ps (out @ [line]) (all_ok \<and> ok) = (out', Some (Inr code))"
    "\<exists>extra. line = Object (chain_line (hex_encode C) p m @ extra)" "ok \<longleftrightarrow> hints_fine C check_hints m"
  proof (cases "if check_hints \<and> snd (path_name (path (layout m))) then hints_check C else None")
    case None
    then have "hints_fine C check_hints m" by (auto simp: hints_fine_def split: if_splits)
    moreover have "\<exists>extra. Object (chain_line (hex_encode C) p m) = Object (chain_line (hex_encode C) p m @ extra)"
      by (intro exI [of _ "[]"]) simp
    ultimately show thesis using that [of "Object (chain_line (hex_encode C) p m)" True] Cons.prems r None by simp
  next
    case (Some verify)
    with Cons.prems r obtain passed where p: "hints_passed (verify (layout m) (block_root m)) = Some passed"
      by (auto split: option.splits)
    have "passed \<longleftrightarrow> hints_fine C check_hints m" using Some p by (auto simp: hints_fine_def split: if_splits)
    with that [of "Object (chain_line (hex_encode C) p m @ [(''hintsAllPassed'', Bool passed)])" passed] Cons.prems r Some p
    show thesis by auto
  qed
  from Cons.IH [OF step(1)] obtain ms new where
    "list_all2 (\<lambda>p m. \<exists>b. read_path (host C) p = Inr b \<and> extract_proof_material (lib C) b = Some (Inr m)) ps ms"
    "out' = (out @ [line]) @ new" "list_all2 (\<lambda>(p, m) l. \<exists>extra. l = Object (chain_line (hex_encode C) p m @ extra)) (zip ps ms) new"
    "code = (if (all_ok \<and> ok) \<and> (\<forall>m \<in> set ms. hints_fine C check_hints m) then SUCCESS else FAILURE)" by blast
  with b step(2,3) show ?case by (intro exI [of _ "m # ms"]) auto
qed

text \<open>C28. \<open>chain-info\<close> prints one line for each file in order and ends with an exit code only when every file was
  read; the code is success exactly when, with \<open>--check-hints\<close>, the threshold signature of every block that
  carries a TSS proof passed. Blocks of the older layout do not count, whatever their bytes.\<close>

theorem chain_info_exit:
  assumes "cmd_chain_info C args = (out, Some (Inr code))" "filter is_file_argument args \<noteq> []"
  shows "\<exists>ms. list_all2 (\<lambda>p m. \<exists>b. read_path (host C) p = Inr b \<and> extract_proof_material (lib C) b = Some (Inr m))
      (filter is_file_argument args) ms \<and>
    list_all2 (\<lambda>(p, m) l. \<exists>extra. l = Object (chain_line (hex_encode C) p m @ extra)) (zip (filter is_file_argument args) ms) out \<and>
    (code = SUCCESS \<longleftrightarrow> (\<forall>m \<in> set ms. ''--check-hints'' \<in> set args \<longrightarrow> path (layout m) \<noteq> Unknown_Path \<longrightarrow>
       (\<exists>verify. hints_check C = Some verify \<and> hints_passed (verify (layout m) (block_root m)) = Some True)))"
proof -
  let ?ch = "''--check-hints'' \<in> set args"
  have files: "chain_files C ?ch (filter is_file_argument args) [] True = (out, Some (Inr code))" and built: "?ch \<Longrightarrow> hints_check C \<noteq> None"
    using assms by (auto simp: cmd_chain_info_def Let_def fail_with_def split: if_splits)
  from chain_files_exit [OF files] obtain ms where ms:
    "list_all2 (\<lambda>p m. \<exists>b. read_path (host C) p = Inr b \<and> extract_proof_material (lib C) b = Some (Inr m)) (filter is_file_argument args) ms"
    "list_all2 (\<lambda>(p, m) l. \<exists>extra. l = Object (chain_line (hex_encode C) p m @ extra)) (zip (filter is_file_argument args) ms) out"
    "code = (if \<forall>m \<in> set ms. hints_fine C ?ch m then SUCCESS else FAILURE)" by auto
  have "hints_fine C ?ch m \<longleftrightarrow> (?ch \<longrightarrow> path (layout m) \<noteq> Unknown_Path \<longrightarrow>
       (\<exists>verify. hints_check C = Some verify \<and> hints_passed (verify (layout m) (block_root m)) = Some True))" for m
    using built by (auto simp: hints_fine_def)
  with ms show ?thesis by (intro exI [of _ ms]) simp
qed

section \<open>Concrete commands\<close>

definition demo_cli :: "externals \<Rightarrow> (string \<Rightarrow> bytes) \<Rightarrow> cli_env" where
  "demo_cli E files = \<lparr>lib = E, hex_encode = demo_hex, host = demo_bucket\<lparr>read_path := \<lambda>p. Inr (files p)\<rparr>,
     response_json = (\<lambda>_. Inr demo_page), open_dir = (\<lambda>_ _. demo_files), parallelism = 4, overflow_checks = True, loop_fuel = 27,
     hints_check = None, proof_check = None, fetch_feature = True, etl_feature = True\<rparr>"

lemma demo_cli_simps [simp]:
  "lib (demo_cli E files) = E" "hex_encode (demo_cli E files) = demo_hex" "read_path (host (demo_cli E files)) p = Inr (files p)"
  "hints_check (demo_cli E files) = None" "proof_check (demo_cli E files) = None"
  by (simp_all add: demo_cli_def)

text \<open>A record file and a signature file of it.\<close>

definition demo_record :: "string \<Rightarrow> bytes" where
  "demo_record p = (if p = ''f.rcd'' then [0, 0, 0, 6] else 6 # 97 # demo_hash [0, 0, 0, 6])"

lemma verify_exit_sound_witness:
  "\<exists>h. cli_run (demo_cli demo demo_record) [''verify'', ''f.rcd'', ''f.rcd_sig'', ''--public-key'', ''a''] = Some SUCCESS \<and>
     record_file_hash demo [0, 0, 0, 6] = Inr h"
proof -
  let ?C = "demo_cli demo demo_record" and ?args = "[''f.rcd'', ''f.rcd_sig'', ''--public-key'', ''a'']"
  have fmt: "detect_format demo [0, 0, 0, 6] = Inr RecordFileV6"
    by (simp add: detect_format_def is_gzip_def GZIP_MAGIC_def i32_from_be_bytes_def be_nat_def)
  have h: "record_file_hash demo [0, 0, 0, 6] = Inr (demo_hash [0, 0, 0, 6])"
    by (simp add: record_file_hash_def inflate_def is_gzip_def GZIP_MAGIC_def demo_def)
  have "\<exists>sig. parse_signature_file demo (6 # 97 # demo_hash [0, 0, 0, 6]) = Inr sig \<and> file_signature sig = 97 # demo_hash [0, 0, 0, 6]"
    by (simp add: parse_signature_file_def non_empty_def demo_def)
  then obtain sig where sig: "parse_signature_file demo (6 # 97 # demo_hash [0, 0, 0, 6]) = Inr sig"
    "file_signature sig = 97 # demo_hash [0, 0, 0, 6]" by blast
  have good: "verify_node_signature demo (demo_hash [0, 0, 0, 6]) (97 # demo_hash [0, 0, 0, 6]) ''a'' = Inr True"
    by (simp add: verify_node_signature_def demo_def)
  have "snd (cmd_verify_record ?C [0, 0, 0, 6] ?args) = Some (Inr SUCCESS)"
    by (simp add: cmd_verify_record_def get_at_def public_key_of_def demo_record_def h sig good display_def)
  then have "snd (cmd_verify ?C ?args) = Some (Inr SUCCESS)"
    by (simp add: cmd_verify_def demo_record_def fmt display_def)
  then have run: "cli_run ?C (''verify'' # ?args) = Some SUCCESS" by (simp add: cli_run_def dispatch_def)
  from verify_exit_sound [OF run] show ?thesis using run h by blast
qed

lemma chain_info_exit_witness:
  "\<exists>out (ms :: block_proof_material list). cmd_chain_info (demo_cli demo_env (\<lambda>_. demo_block)) [''7.blk''] = (out, Some (Inr SUCCESS)) \<and> length ms = 1"
proof -
  let ?C = "demo_cli demo_env (\<lambda>_. demo_block)"
  obtain m where m: "extract_proof_material demo_env demo_block = Some (Inr m)" using demo_material by blast
  have f: "filter is_file_argument [''7.blk''] = [''7.blk'']" by (simp add: is_file_argument_def)
  then obtain out where run: "cmd_chain_info ?C [''7.blk''] = (out, Some (Inr SUCCESS))"
    by (simp add: cmd_chain_info_def m)
  from chain_info_exit [OF run] f obtain ms where
    "list_all2 (\<lambda>p m. \<exists>b. read_path (host ?C) p = Inr b \<and> extract_proof_material (lib ?C) b = Some (Inr m)) [''7.blk''] ms" by auto
  then have "length ms = 1" by (auto dest: list_all2_lengthD)
  with run show ?thesis by blast
qed

end
