(* ===== verification/Node_Bindings.thy ===== *)
theory Node_Bindings
  imports Cli
begin

text \<open>
  \<open>bindings/node/src/lib.rs\<close>: the functions the Node.js package exports. A function gives \<open>Inl\<close> the reason of the
  JavaScript error or \<open>Inr\<close> its result, where a JSON text is the value it prints; \<open>None\<close> is a panic. The lemmas show what
  the file's own comment promises: the output is the one of the command line, with the errors the same but for the
  hint that names the missing argument.
\<close>

definition parse_record_file_json :: "externals \<Rightarrow> bytes \<Rightarrow> string + json" where
  "parse_record_file_json E bytes =
     and_then (display (parse_record_file E bytes)) (\<lambda>parsed. Inr (record_file_to_json_value parsed))"

definition parse_block_json :: "externals \<Rightarrow> bytes \<Rightarrow> string + json" where
  "parse_block_json E bytes =
     and_then (display (parse_block E bytes)) (\<lambda>parsed. Inr (block_to_json_value parsed))"

definition verify_block_proof_json :: "externals \<Rightarrow> (bytes \<Rightarrow> string) \<Rightarrow>
    (block_proof_material \<Rightarrow> bootstrap \<Rightarrow> (error + block_proof_verification) option) \<Rightarrow> bytes \<Rightarrow> bytes option \<Rightarrow>
    (string + json) option" where
  "verify_block_proof_json E hex verify bytes bootstrap_block =
     and_then_panic (map_option display (extract_proof_material E bytes)) (\<lambda>m.
     and_then_panic (map_option display (resolve_bootstrap E m bootstrap_block ''pass the genesis block as the second argument'')) (\<lambda>boot.
     and_then_panic (map_option display (verify m boot)) (\<lambda>v.
       Some (Inr (block_proof_to_json_value hex m (ledger_id boot) v)))))"

definition record_file_hash_hex :: "externals \<Rightarrow> (bytes \<Rightarrow> string) \<Rightarrow> bytes \<Rightarrow> string + string" where
  "record_file_hash_hex E hex bytes = and_then (display (record_file_hash E bytes)) (\<lambda>h. Inr (hex h))"

definition node_signature_binding :: "externals \<Rightarrow> string \<Rightarrow> bytes \<Rightarrow> string \<Rightarrow> string + bool" where
  "node_signature_binding E file_hash_hex signature public_key_hex =
     and_then (hex_decode E file_hash_hex) (\<lambda>hash.
       display (verify_node_signature E hash signature public_key_hex))"

section \<open>The bindings and the command line\<close>

text \<open>\<open>parse\<close> prints the value of the binding for the file's era, and fails with its error.\<close>

lemma cmd_parse_binding:
  assumes "read_path (host C) p = Inr bytes" "detect_format (lib C) bytes = Inr fmt"
  shows "cmd_parse C p =
    (case (if fmt = BlockStream then parse_block_json (lib C) bytes else parse_record_file_json (lib C) bytes) of
       Inl e \<Rightarrow> fail_with e
     | Inr v \<Rightarrow> ([v], Some (Inr SUCCESS)))"
  using assms by (cases fmt) (simp_all add: cmd_parse_def parse_block_json_def parse_record_file_json_def display_def)

text \<open>The bootstrap found does not depend on the hint of the error.\<close>

lemma resolve_bootstrap_hint:
  "resolve_bootstrap E m genesis hint = Some (Inr boot) \<Longrightarrow> resolve_bootstrap E m genesis hint' = Some (Inr boot)"
  by (auto simp: resolve_bootstrap_def split: option.splits)

text \<open>What \<open>verify\<close> prints of a block is what the binding returns for the same bytes and the same genesis block.\<close>

lemma cmd_verify_block_binding:
  assumes "cmd_verify_block C verify bytes args = ([v], out)"
  shows "\<exists>genesis. (case flag args ''--bootstrap'' of
        None \<Rightarrow> genesis = None
      | Some p \<Rightarrow> \<exists>g. read_path (host C) p = Inr g \<and> genesis = Some g) \<and>
    verify_block_proof_json (lib C) (hex_encode C) verify bytes genesis = Some (Inr v)"
proof -
  let ?g = "case flag args ''--bootstrap'' of
      Some p \<Rightarrow> and_then (map_err (\<lambda>e. p @ '': '' @ e) (read_path (host C) p)) (\<lambda>b. Inr (Some b))
    | None \<Rightarrow> Inr None"
  let ?r = "and_then_panic (map_option display (extract_proof_material (lib C) bytes)) (\<lambda>m.
      and_then_panic (Some ?g) (\<lambda>genesis.
      and_then_panic (map_option display (resolve_bootstrap (lib C) m genesis ''pass --bootstrap <genesis.blk[.gz]>'')) (\<lambda>boot.
      and_then_panic (map_option display (verify m boot)) (\<lambda>v. Some (Inr (m, boot, v))))))"
  note run = assms [unfolded cmd_verify_block_def]
  obtain m boot w where ok: "?r = Some (Inr (m, boot, w))"
  proof (cases ?r)
    case None
    with run show thesis by simp
  next
    case (Some x)
    with run that show thesis by (cases x) (auto simp: fail_with_def)
  qed
  with run have r: "?r = Some (Inr (m, boot, w))" "v = block_proof_to_json_value (hex_encode C) m (ledger_id boot) w"
    by simp_all
  from verify_block_steps [OF r(1)] obtain genesis where m: "extract_proof_material (lib C) bytes = Some (Inr m)" "verify m boot = Some (Inr w)"
    and g: "?g = Inr genesis"
    and boot: "resolve_bootstrap (lib C) m genesis ''pass --bootstrap <genesis.blk[.gz]>'' = Some (Inr boot)" by blast
  have "case flag args ''--bootstrap'' of None \<Rightarrow> genesis = None | Some p \<Rightarrow> \<exists>g. read_path (host C) p = Inr g \<and> genesis = Some g"
    using g by (cases "flag args ''--bootstrap''") (auto simp: result_iffs)
  moreover have "verify_block_proof_json (lib C) (hex_encode C) verify bytes genesis = Some (Inr v)"
    using resolve_bootstrap_hint [OF boot] m r(2) by (simp add: verify_block_proof_json_def display_def)
  ultimately show ?thesis by blast
qed

text \<open>With a decoder that reads back what the encoder wrote, the hash handed through JavaScript is the hash of the file.\<close>

lemma hash_then_signature:
  assumes "record_file_hash_hex E hex bytes = Inr t" "\<And>h. hex_decode E (hex h) = Inr h"
  shows "\<exists>h. record_file_hash E bytes = Inr h \<and> node_signature_binding E t sig key = display (verify_node_signature E h sig key)"
  using assms by (auto simp: record_file_hash_hex_def node_signature_binding_def result_iffs)

end
