(* ===== verification/Audit_Path.thy ===== *)
theory Audit_Path
  imports Material
begin

text \<open>
  What a witness of \<open>witness_for\<close> is (\<open>src/block/merkle.rs\<close>, \<open>src/block/material.rs\<close>): the audit path of the
  recursive tree, the roots of the subtrees left aside on the way from the leaf to the root. The code builds it
  in three parts, the levels inside one peak, the right peaks folded together and the left peaks. It follows that
  the shape of a witness depends only on the index and the number of leaves, that every part has the size of a hash,
  and that a signed root admits one transaction at each index.
\<close>

section \<open>The audit path\<close>

function audit_path :: "(bytes \<Rightarrow> bytes) \<Rightarrow> bytes list \<Rightarrow> nat \<Rightarrow> (side \<times> bytes) list" where
  "audit_path sha xs i =
     (if length xs \<le> 1 then []
      else let k = split_point (length xs)
        in if i < k then audit_path sha (take k xs) i @ [(Right, mth sha (drop k xs))]
           else audit_path sha (drop k xs) (i - k) @ [(Left, mth sha (take k xs))])"
  by pat_completeness auto
termination
proof (relation "measure (\<lambda>(sha, xs, i). length xs)")
  show "((sha, take k xs, i), sha, xs, i) \<in> measure (\<lambda>(sha, xs, i). length xs)"
    if "\<not> length xs \<le> 1" "k = split_point (length xs)" for sha :: "bytes \<Rightarrow> bytes" and xs :: "bytes list" and i k
    using split_point_bounds [of "length xs"] that by auto
  show "((sha, drop k xs, i - k), sha, xs, i) \<in> measure (\<lambda>(sha, xs, i). length xs)"
    if "\<not> length xs \<le> 1" "k = split_point (length xs)" for sha :: "bytes \<Rightarrow> bytes" and xs :: "bytes list" and i k
    using split_point_bounds [of "length xs"] that by (auto intro: diff_less)
qed simp

declare audit_path.simps [simp del]

lemma audit_path_short [simp]: "length xs \<le> 1 \<Longrightarrow> audit_path sha xs i = []"
  by (simp add: audit_path.simps)

text \<open>The one unfolding the proofs use, as for \<open>mth\<close>.\<close>

lemma audit_path_split:
  assumes "length us = 2 ^ k" "0 < length vs" "length vs \<le> 2 ^ k"
  shows "audit_path sha (us @ vs) i =
    (if i < 2 ^ k then audit_path sha us i @ [(Right, mth sha vs)]
     else audit_path sha vs (i - 2 ^ k) @ [(Left, mth sha us)])"
proof -
  have s: "split_point (length (us @ vs)) = 2 ^ k" using assms by (intro split_point_eq) simp_all
  have "0 < length us" using assms(1) by simp
  then have "1 < length us + length vs" using assms(2) by linarith
  then have "\<not> length (us @ vs) \<le> 1" by simp
  with s show ?thesis using assms(1) by (simp add: audit_path.simps [of sha "us @ vs"] Let_def)
qed

section \<open>Inside a peak\<close>

definition sibling_of :: "bytes list \<Rightarrow> nat \<Rightarrow> side \<times> bytes" where
  "sibling_of xs pos = (if even pos then (Right, xs ! (pos + 1)) else (Left, xs ! (pos - 1)))"

lemma sibling_of_append:
  assumes "even (length us)"
  shows "pos < length us \<Longrightarrow> sibling_of (us @ vs) pos = sibling_of us pos"
    and "length us \<le> pos \<Longrightarrow> sibling_of (us @ vs) pos = sibling_of vs (pos - length us)"
proof -
  show "sibling_of (us @ vs) pos = sibling_of us pos" if "pos < length us"
  proof (cases "even pos")
    case True
    with assms that have "pos + 1 < length us" by (metis Suc_eq_plus1 Suc_lessI even_Suc)
    with True show ?thesis by (simp add: sibling_of_def nth_append)
  next
    case False
    have "pos - 1 < length us" using that by simp
    with False show ?thesis by (simp add: sibling_of_def nth_append)
  qed
  show "sibling_of (us @ vs) pos = sibling_of vs (pos - length us)" if "length us \<le> pos"
  proof (cases "even pos")
    case True
    with assms that show ?thesis by (simp add: sibling_of_def nth_append Suc_diff_le)
  next
    case False
    with assms that have "length us \<le> pos - 1" by (metis One_nat_def Suc_leI Suc_pred le_neq_implies_less less_Suc_eq_le odd_pos)
    with False assms that show ?thesis by (simp add: sibling_of_def nth_append diff_commute)
  qed
qed

text \<open>One level up, the path loses its first sibling.\<close>

lemma audit_path_pairs:
  "length xs = 2 ^ Suc k \<Longrightarrow> pos < length xs \<Longrightarrow>
     audit_path sha xs pos = sibling_of xs pos # audit_path sha (pairs sha xs) (pos div 2)"
proof (induction k arbitrary: xs pos)
  case 0
  then obtain x y where xs: "xs = [x] @ [y]" by (auto simp: length_Suc_conv numeral_2_eq_2)
  from 0 xs have "pos = 0 \<or> pos = 1" by auto
  then show ?case using audit_path_split [of "[x]" 0 "[y]" sha pos] xs by (auto simp: sibling_of_def)
next
  case (Suc k)
  then obtain us vs where xs: "xs = us @ vs" "length us = 2 ^ Suc k" "length vs = 2 ^ Suc k"
    using split_list_length [of xs "2 ^ Suc k" "2 ^ Suc k"] by auto
  have pxs: "pairs sha xs = pairs sha us @ pairs sha vs" using xs by (simp add: pairs_append)
  have up: "audit_path sha (pairs sha xs) i =
      (if i < 2 ^ k then audit_path sha (pairs sha us) i @ [(Right, mth sha vs)]
       else audit_path sha (pairs sha vs) (i - 2 ^ k) @ [(Left, mth sha us)])" for i
    unfolding pxs using xs mth_pairs [OF xs(2)] mth_pairs [OF xs(3)]
    by (subst audit_path_split [where k = k]) (simp_all add: length_pairs)
  have even: "even (length us)" using xs(2) by simp
  have low: "audit_path sha xs pos =
      (if pos < 2 ^ Suc k then audit_path sha us pos @ [(Right, mth sha vs)]
       else audit_path sha vs (pos - 2 ^ Suc k) @ [(Left, mth sha us)])"
    unfolding xs(1) using xs by (intro audit_path_split) simp_all
  show ?case
  proof (cases "pos < 2 ^ Suc k")
    case True
    then have "pos div 2 < 2 ^ k" by simp
    with True up [of "pos div 2"] low Suc.IH [OF xs(2), of pos] xs sibling_of_append(1) [OF even, of pos vs] show ?thesis by simp
  next
    case False
    then have "\<not> pos div 2 < 2 ^ k" "pos - 2 ^ Suc k < length vs" "(pos - 2 ^ Suc k) div 2 = pos div 2 - 2 ^ k"
      using Suc.prems(2) xs by simp_all
    with False up [of "pos div 2"] low Suc.IH [OF xs(3), of "pos - 2 ^ Suc k"] xs sibling_of_append(2) [OF even, of pos vs]
    show ?thesis by simp
  qed
qed

lemma peak_path_audit:
  "length xs = 2 ^ k \<Longrightarrow> pos < length xs \<Longrightarrow> peak_path sha xs pos = Some (audit_path sha xs pos)"
proof (induction k arbitrary: xs pos)
  case 0
  then show ?case by (simp add: peak_path.simps)
next
  case (Suc k)
  let ?ys = "pairs sha xs"
  have even: "even (length xs)" and len: "length ?ys = 2 ^ k" "pos div 2 < length ?ys"
    using Suc.prems by (simp_all add: length_pairs less_mult_imp_div_less mult.commute)
  have "0 < (2::nat) ^ k" "length xs = 2 * 2 ^ k" using Suc.prems(1) by simp_all
  then have gt: "1 < length xs" by linarith
  have "(if pos mod 2 = 0 then map_option (Pair Right) (get_at xs (pos + 1))
         else map_option (Pair Left) (get_at xs (pos - 1))) = Some (sibling_of xs pos)"
  proof (cases "even pos")
    case True
    with even Suc.prems(2) have "pos + 1 < length xs" by (metis Suc_eq_plus1 Suc_lessI even_Suc)
    with True show ?thesis by (simp add: sibling_of_def get_at_def)
  next
    case False
    with Suc.prems(2) show ?thesis by (simp add: sibling_of_def get_at_def odd_iff_mod_2_eq_one)
  qed
  with gt even Suc.IH [OF len] audit_path_pairs [OF Suc.prems] show ?case
    by (simp add: peak_path.simps [of sha xs pos] pair_level_even)
qed

section \<open>Over the peaks\<close>

definition beside_peak :: "(bytes \<Rightarrow> bytes) \<Rightarrow> bytes list list \<Rightarrow> nat \<Rightarrow> (side \<times> bytes) list" where
  "beside_peak sha ps p =
     (case fold_peaks sha (map (mth sha) (drop (p + 1) ps)) of None \<Rightarrow> [] | Some r \<Rightarrow> [(Right, r)]) @
     map (Pair Left) (rev (map (mth sha) (take p ps)))"

lemma audit_path_peaks:
  "length xs < 2 ^ b \<Longrightarrow> p < length (peaks b xs) \<Longrightarrow> j < length (peaks b xs ! p) \<Longrightarrow>
     audit_path sha xs (length (concat (take p (peaks b xs))) + j) =
     audit_path sha (peaks b xs ! p) j @ beside_peak sha (peaks b xs) p"
proof (induction b arbitrary: xs p)
  case 0
  then show ?case by simp
next
  case (Suc b)
  show ?case
  proof (cases "2 ^ b \<le> length xs")
    case False
    with Suc show ?thesis by simp
  next
    case True
    let ?l = "take (2 ^ b) xs" and ?r = "drop (2 ^ b) xs"
    have ps: "peaks (Suc b) xs = ?l # peaks b ?r" and ll: "length ?l = 2 ^ b" using True by simp_all
    have lr: "length ?r < 2 ^ b" using Suc.prems(1) True by simp
    show ?thesis
    proof (cases "?r = []")
      case True
      with Suc.prems ps have "p = 0" by simp
      with ps True show ?thesis by (simp add: beside_peak_def)
    next
      case False
      with lr have split: "audit_path sha (?l @ ?r) i =
          (if i < 2 ^ b then audit_path sha ?l i @ [(Right, mth sha ?r)]
           else audit_path sha ?r (i - 2 ^ b) @ [(Left, mth sha ?l)])" for i
        using ll by (intro audit_path_split) simp_all
      have root: "fold_peaks sha (map (mth sha) (peaks b ?r)) = Some (mth sha ?r)"
        using False lr by (rule fold_peaks_mth)
      show ?thesis
      proof (cases p)
        case 0
        with Suc.prems(3) ps ll split [of j] root show ?thesis by (simp add: beside_peak_def)
      next
        case (Suc q)
        have q: "q < length (peaks b ?r)" "j < length (peaks b ?r ! q)" using Suc.prems(2,3) ps Suc by simp_all
        have "length (concat (take p (peaks (Suc b) xs))) + j = 2 ^ b + (length (concat (take q (peaks b ?r))) + j)"
          using ps ll Suc by simp
        moreover have "beside_peak sha (peaks (Suc b) xs) p = beside_peak sha (peaks b ?r) q @ [(Left, mth sha ?l)]"
          using ps Suc by (simp add: beside_peak_def)
        ultimately show ?thesis
          using split [of "2 ^ b + (length (concat (take q (peaks b ?r))) + j)"] Suc.IH [OF lr q] ps Suc by (simp add: add.assoc)
      qed
    qed
  qed
qed

lemma contiguous_start:
  "contiguous s bs n \<Longrightarrow> p < length bs \<Longrightarrow> fst (bs ! p) = s + sum_list (map snd (take p bs))"
proof (induction s bs n arbitrary: p rule: contiguous.induct)
  case (2 s a z bs n)
  then show ?case by (cases p) auto
qed simp

text \<open>The witness, without the construction.\<close>

lemma witness_for_audit:
  assumes "index < length leaves" "length leaves < 2 ^ 64"
  shows "\<exists>w. witness_for sha leaves index = Some (Some w) \<and> witness_path w = audit_path sha leaves index"
proof -
  let ?bs = "peak_bounds (length leaves)" and ?ps = "peaks 64 leaves"
  note slices = peak_bounds_peaks [OF assms(2)]
  have len: "length ?ps = length ?bs" using arg_cong [OF slices, of length] by simp
  have slice: "get_slice (fst (?bs ! q)) (fst (?bs ! q) + snd (?bs ! q)) leaves = Some (?ps ! q)" if "q < length ?bs" for q
    using nth_peaks_slice [OF slices that] .
  have sizes: "map length ?ps = map snd ?bs"
  proof (rule nth_equalityI)
    show "map length ?ps ! q = map snd ?bs ! q" if "q < length (map length ?ps)" for q
      using get_slice_length [OF slice [of q]] that len by simp
  qed (simp add: len)
  obtain p where p: "rposition (\<lambda>(start, _). start \<le> index) ?bs = Some p" "p < length ?bs"
      "fst (?bs ! p) \<le> index" "index < fst (?bs ! p) + snd (?bs ! p)"
    using rposition_contiguous [OF contiguous_peak_bounds [OF assms(2)] _ assms(1)] by auto
  have start: "fst (?bs ! p) = length (concat (take p ?ps))"
    using contiguous_start [OF contiguous_peak_bounds [OF assms(2)] p(2)] sizes
    by (simp add: length_concat flip: take_map)
  obtain w where w: "witness_for sha leaves index = Some (Some w)" using witness_for_folds [OF assms] by blast
  obtain start size where sz: "?bs ! p = (start, size)" by (cases "?bs ! p")
  have pow: "q \<in> set ?ps \<Longrightarrow> \<exists>k. length q = 2 ^ k" for q using peaks_power by blast
  obtain k where k: "length (?ps ! p) = 2 ^ k" using pow p(2) len by (metis nth_mem)
  have idx: "index - start < length (?ps ! p)" using get_slice_length [OF slice [OF p(2)]] p(3,4) sz by simp
  have "peak_roots sha leaves (take p ?bs) = Some (map (mth sha) (take p ?ps))"
    by (rule peak_roots_sub) (use arg_cong [OF slices, of "take p"] in \<open>simp only: take_map\<close>, blast dest: in_set_takeD pow)
  moreover have "peak_roots sha leaves (drop (p + 1) ?bs) = Some (map (mth sha) (drop (p + 1) ?ps))"
    by (rule peak_roots_sub) (use arg_cong [OF slices, of "drop (p + 1)"] in \<open>simp only: drop_map\<close>, blast dest: in_set_dropD pow)
  ultimately have "w = \<lparr>siblings = audit_path sha (?ps ! p) (index - start), left_peaks = map (mth sha) (take p ?ps),
      right_root = fold_peaks sha (map (mth sha) (drop (p + 1) ?ps))\<rparr>"
    using w assms(1) p(1) sz slice [OF p(2)] peak_path_audit [OF k idx] by (simp add: witness_for_def)
  moreover have "audit_path sha leaves index = audit_path sha (?ps ! p) (index - start) @ beside_peak sha ?ps p"
    using audit_path_peaks [OF assms(2) _ idx, of sha] p(2,3) len start sz by simp
  ultimately have "witness_path w = audit_path sha leaves index" by (simp add: witness_path_def beside_peak_def)
  with w show ?thesis by blast
qed

section \<open>Shape and size\<close>

text \<open>The sides of the audit path, from the number of leaves and the index alone.\<close>

function audit_sides :: "nat \<Rightarrow> nat \<Rightarrow> side list" where
  "audit_sides n i =
     (if n \<le> 1 then []
      else let k = split_point n
        in if i < k then audit_sides k i @ [Right] else audit_sides (n - k) (i - k) @ [Left])"
  by pat_completeness auto
termination
proof (relation "measure (\<lambda>(n, i). n)")
  show "((k, i), n, i) \<in> measure (\<lambda>(n, i). n)" if "\<not> n \<le> 1" "k = split_point n" for n i k
    using split_point_bounds [of n] that by auto
  show "((n - k, i - k), n, i) \<in> measure (\<lambda>(n, i). n)" if "\<not> n \<le> 1" "k = split_point n" for n i k
    using split_point_bounds [of n] that by (auto intro: diff_less)
qed simp

declare audit_sides.simps [simp del]

lemma split_point_le: "2 \<le> n \<Longrightarrow> split_point n < n"
  using split_point_bounds [of n] by auto

lemma audit_path_sides: "map fst (audit_path sha xs i) = audit_sides (length xs) i"
proof (induction sha xs i rule: audit_path.induct)
  case (1 sha xs i)
  show ?case
  proof (cases "length xs \<le> 1")
    case True
    then show ?thesis by (simp add: audit_sides.simps)
  next
    case False
    then have "min (length xs) (split_point (length xs)) = split_point (length xs)" using split_point_le [of "length xs"] by simp
    with False 1 show ?thesis
      by (simp add: audit_path.simps [of sha xs] audit_sides.simps [of "length xs"] Let_def)
  qed
qed

lemma mth_sized:
  "sha384_len sha \<Longrightarrow> \<forall>x \<in> set xs. length x = 48 \<Longrightarrow> length (mth sha xs) = 48"
  by (cases "length xs \<le> 1"; cases xs)
    (auto simp: sha384_len_def hash_leaf_def hash_internal_def mth.simps [of sha "_ # _ # _"] mth.simps [of sha "_ # _"])

lemma audit_path_sized:
  "sha384_len sha \<Longrightarrow> \<forall>x \<in> set xs. length x = 48 \<Longrightarrow> s \<in> set (audit_path sha xs i) \<Longrightarrow> length (snd s) = 48"
proof (induction sha xs i rule: audit_path.induct)
  case (1 sha xs i)
  have "\<forall>x \<in> set (take k xs). length x = 48" "\<forall>x \<in> set (drop k xs). length x = 48" for k
    using "1.prems"(2) by (auto dest: in_set_takeD in_set_dropD)
  with 1 mth_sized [OF "1.prems"(1)] show ?case
    by (auto simp: audit_path.simps [of sha xs] Let_def split: if_splits)
qed

section \<open>The parts of an extracted witness\<close>

lemma finish_witness_parts:
  assumes "witness_inv E items st" "finish_witness E i st = Some (Inr (tx, w))"
  shows "witness_for (sha384 E) (map (hash_leaf (sha384 E)) (transactions_of items)) i = Some (Some (input_witness w)) \<and>
    output_root w = mth (sha384 E) (leaves_of E output_kinds items) \<and>
    consensus_root w = mth (sha384 E) (leaves_of E consensus_kinds items) \<and>
    state_changes_root w = mth (sha384 E) (leaves_of E {F_STATE_CHANGES} items) \<and>
    trace_root w = mth (sha384 E) (leaves_of E {F_TRACE_DATA} items) \<and>
    length (state_root w) = 48 \<and> length (witness_previous_block_root w) = 48 \<and>
    length (root_hash_of_all_block_hashes_tree w) = 48"
  using assms
  by (auto simp: finish_witness_def witness_inv_def leaves_of_transactions root_represents and_then_eq_Inr_iff
      ok_or_eq_Inr_iff to_hash48_Inr_iff HASH_LENGTH_def split: sum.splits option.splits if_splits)

lemma leaves_sized: "sha384_len (sha384 E) \<Longrightarrow> \<forall>x \<in> set (leaves_of E ks items). length x = 48"
  by (auto simp: leaves_of_def hash_leaf_def sha384_len_def)

text \<open>Every part of an extracted witness is as long as a \<open>[u8; 48]\<close>, and its shape is the one of its index.\<close>

definition witness_fits :: "nat \<Rightarrow> nat \<Rightarrow> block_inclusion_witness \<Rightarrow> bool" where
  "witness_fits n i w \<longleftrightarrow>
     i < n \<and> map fst (witness_path (input_witness w)) = audit_sides n i \<and>
     (\<forall>s \<in> set (witness_path (input_witness w)). length (snd s) = 48) \<and>
     (\<forall>r \<in> {output_root w, consensus_root w, state_changes_root w, trace_root w, state_root w,
            witness_previous_block_root w, root_hash_of_all_block_hashes_tree w}. length r = 48)"

lemma extracted_witness:
  assumes "sha384_len (sha384 E)" "inflate E bytes = Inr raw" "scan_block_items raw = Inr items" "length raw < 2 ^ 64"
    and "block_inclusion_witness E bytes i = Some (Inr (tx, w))"
  shows "witness_fits (length (transactions_of items)) i w \<and> tx = transactions_of items ! i \<and>
    witness_path (input_witness w) = audit_path (sha384 E) (map (hash_leaf (sha384 E)) (transactions_of items)) i"
proof -
  let ?sha = "sha384 E" and ?leaves = "map (hash_leaf (sha384 E)) (transactions_of items)"
  have len: "length items < 2 ^ 64" using scan_block_items_kinds(2) [OF assms(3)] assms(4) by linarith
  have i: "i < length (transactions_of items)" and tx: "tx = transactions_of items ! i"
    using block_inclusion_witness_cases [OF assms(2,3,4), of i] assms(5) by auto
  from witness_loop_inv [OF len, of E] assms(2,3,5) obtain st where
    "witness_inv E items st" "finish_witness E i st = Some (Inr (tx, w))"
    by (auto simp: block_inclusion_witness_def split: option.splits sum.splits)
  note parts = finish_witness_parts [OF this]
  have "i < length ?leaves" "length ?leaves < 2 ^ 64" using i length_transactions_of [of items] len by simp_all
  from witness_for_audit [OF this, of ?sha] parts have path: "witness_path (input_witness w) = audit_path ?sha ?leaves i" by auto
  have "\<forall>x \<in> set ?leaves. length x = 48" using assms(1) by (auto simp: hash_leaf_def sha384_len_def)
  from audit_path_sized [OF assms(1) this] path parts mth_sized [OF assms(1) leaves_sized [OF assms(1)]] i
  have "witness_fits (length (transactions_of items)) i w" by (auto simp: witness_fits_def audit_path_sides)
  with tx path show ?thesis by blast
qed

section \<open>The theorems\<close>

text \<open>C13. \<open>witness_for\<close> gives the audit path of its leaf: read as one path from the leaf up, the siblings inside
  the peak, the folded right peaks and the left peaks are the roots of the subtrees that the recursive tree leaves aside,
  in order and with their sides.\<close>

theorem witness_is_audit_path:
  assumes "index < length leaves" "length leaves < 2 ^ 64"
  shows "\<exists>w. witness_for sha leaves index = Some (Some w) \<and> witness_path w = audit_path sha leaves index \<and>
    map fst (witness_path w) = audit_sides (length leaves) index"
  using witness_for_audit [OF assms, of sha] by (auto simp: audit_path_sides)

lemma witness_is_audit_path_witness:
  "\<exists>w. witness_for (take 2) [[1], [3], [5]] 1 = Some (Some w) \<and> map fst (witness_path w) = [Left, Right]"
proof -
  have "(1::nat) < length [[1], [3], [5 :: u8]]" "length [[1], [3], [5 :: u8]] < 2 ^ 64" by simp_all
  from witness_is_audit_path [OF this, of "take 2"] obtain w where
    w: "witness_for (take 2) [[1], [3], [5]] 1 = Some (Some w)" "map fst (witness_path w) = audit_sides 3 1"
    by (auto simp: numeral_3_eq_3)
  have "split_point 2 = 1" by (simp add: split_point.simps)
  then have "split_point 3 = 2" by (simp add: split_point.simps [of 3])
  moreover have "audit_sides 2 1 = [Left]"
    using \<open>split_point 2 = 1\<close> by (simp add: audit_sides.simps [of 2] audit_sides.simps [of "Suc 0"])
  ultimately have "audit_sides 3 1 = [Left, Right]" by (simp add: audit_sides.simps [of 3])
  with w(2) have "map fst (witness_path w) = [Left, Right]" by (rule trans)
  with w(1) show ?thesis by (intro exI [of _ w] conjI)
qed

text \<open>C14. An extracted witness is well-formed: it is for an index of the block, its path has the sides of that index in
  a tree of the block's transactions, and each of its parts has the 48 bytes of the array it is in the source.\<close>

theorem extracted_witness_fits:
  assumes "sha384_len (sha384 E)" "inflate E bytes = Inr raw" "scan_block_items raw = Inr items" "length raw < 2 ^ 64"
    and "block_inclusion_witness E bytes i = Some (Inr (tx, w))"
  shows "witness_fits (length (transactions_of items)) i w"
  using extracted_witness [OF assms] by blast

lemma demo_sha: "sha384_len (sha384 demo_env)"
  by (simp add: sha384_len_def demo_env_def demo_def)

lemma extracted_witness_fits_witness:
  "\<exists>w. block_inclusion_witness demo_env demo_block 0 = Some (Inr ([0x22, 1, 5], w)) \<and> witness_fits 1 0 w"
proof -
  obtain w where w: "block_inclusion_witness demo_env demo_block 0 = Some (Inr ([0x22, 1, 5], w))" using demo_inclusion by blast
  have "length demo_block < 2 ^ 64" by (simp add: demo_block_bytes)
  from extracted_witness_fits [OF demo_sha demo_block_inflate demo_block_scan this w] w show ?thesis by (auto simp: demo_kinds)
qed

end
