(* ===== verification/Inclusion.thy ===== *)
theory Inclusion
  imports Audit_Path Block_Proof
begin

text \<open>
  The inclusion check from end to end (\<open>verify_inclusion\<close> of \<open>src/block/proof/mod.rs\<close> over \<open>src/block/material.rs\<close> and
  \<open>src/block/merkle.rs\<close>): what it says about a block when the transaction and its witness come from someone else.
\<close>

lemma witness_fits_sized: "witness_fits n i w \<Longrightarrow> witness_sized w"
  by (simp add: witness_fits_def witness_sized_def)

lemma not_a_mismatch:
  "verify_inclusion checks sha B P J N tx w material boot \<noteq> Some (Inl (Proof witness_mismatch)) \<Longrightarrow>
     recompute_block_root sha tx w = block_root material"
  by (auto simp: verify_inclusion_eq split: if_splits)

text \<open>Two transactions whose witnesses have the shape of the same index and lead to the same root.\<close>

lemma same_root_same_transaction:
  assumes "sha384_len (sha384 E)" "inflate E bytes = Inr raw" "scan_block_items raw = Inr items" "length raw < 2 ^ 64"
    and "block_inclusion_witness E bytes i = Some (Inr (tx, w))" "witness_fits (length (transactions_of items)) i w'"
    and "recompute_block_root (sha384 E) tx w = recompute_block_root (sha384 E) tx' w'"
  shows "tx' = tx \<or> collision_between (sha384 E) (inclusion_inputs (sha384 E) tx w) (inclusion_inputs (sha384 E) tx' w')"
proof -
  note w = extracted_witness [OF assms(1-5)]
  have "map fst (witness_path (input_witness w)) = map fst (witness_path (input_witness w'))"
    using w [THEN conjunct1] assms(6) by (simp add: witness_fits_def)
  with inclusion_binding [OF assms(1) witness_fits_sized witness_fits_sized [OF assms(6)]] w assms(7)
  show ?thesis by blast
qed

text \<open>C3. Whoever made the witness: when the inclusion check against a block's proof material gets past the comparison of
  the roots, and the witness has the shape of an index of that block, the bytes shown are exactly the bytes of
  the block's signed transaction at that index, or else two strings hashed on the two ways to the root collide under
  SHA-384.\<close>

theorem verified_transaction_in_block:
  assumes "sha384_len (sha384 E)" "oneof_law E"
    and "inflate E bytes = Inr raw" "scan_block_items raw = Inr items" "length raw < 2 ^ 64"
    and "extract_proof_material E bytes = Some (Inr m)" "block_inclusion_witness E bytes i = Some (Inr (tx, w))"
    and "verify_inclusion checks (sha384 E) B P J N tx' w' m boot \<noteq> Some (Inl (Proof witness_mismatch))"
    and "witness_fits (length (transactions_of items)) i w'"
  shows "tx' = transactions_of items ! i \<or>
    collision_between (sha384 E) (inclusion_inputs (sha384 E) tx w) (inclusion_inputs (sha384 E) tx' w')"
proof -
  have "recompute_block_root (sha384 E) tx w = recompute_block_root (sha384 E) tx' w'"
    using inclusion_recomputes [OF assms(2,3,5,6,7)] not_a_mismatch [OF assms(8)] by simp
  from same_root_same_transaction [OF assms(1,3,4,5,7,9) this] show ?thesis
    using extracted_witness [OF assms(1,3,4,5,7)] by auto
qed

lemma verified_transaction_in_block_witness:
  "\<exists>m w. extract_proof_material demo_env demo_block = Some (Inr m) \<and> witness_fits 1 0 w \<and>
     ([0x22, 1, 5] = transactions_of [\<lparr>field_number = 4, item_bytes = [0x22, 1, 5]\<rparr>] ! 0 \<or>
      collision_between (sha384 demo_env) (inclusion_inputs (sha384 demo_env) [0x22, 1, 5] w) (inclusion_inputs (sha384 demo_env) [0x22, 1, 5] w))"
proof -
  obtain m where m: "extract_proof_material demo_env demo_block = Some (Inr m)" and lay: "layout m = classify_layout [9]"
    using demo_extract by blast
  obtain w where w: "block_inclusion_witness demo_env demo_block 0 = Some (Inr ([0x22, 1, 5], w))" using demo_inclusion by blast
  have len: "length demo_block < 2 ^ 64" by (simp add: demo_block_bytes)
  note fits = extracted_witness [OF demo_sha demo_block_inflate demo_block_scan len w, THEN conjunct1]
  have "verify_inclusion True (sha384 demo_env) demo_bls demo_zero_sponge demo_jubjub demo_bn [0x22, 1, 5] w m demo_book
      \<noteq> Some (Inl (Proof witness_mismatch))"
    using inclusion_recomputes [OF oneof_law_demo demo_block_inflate len m w]
    by (simp add: verify_inclusion_eq verify_block_proof_def verify_proof_over_root_def verify_hints_def lay classify_layout_def
        FIXED_PREFIX_LENGTH_def HINTS_VK_LENGTH_def HINTS_SIG_LENGTH_def deserialize_vk_def VK_LENGTH_def witness_mismatch_def)
  from verified_transaction_in_block [OF demo_sha oneof_law_demo demo_block_inflate demo_block_scan len m w this fits] m fits
  show ?thesis by (auto simp: demo_kinds transactions_of_def)
qed

text \<open>
  The contract without hashes: a transaction is in a block at an index when its bytes are those of the signed
  transaction at that index of the file, and the check answers with the outcome of the block's own proof for such
  a transaction, with the documented error for any other.
\<close>

definition block_contains :: "externals \<Rightarrow> bytes \<Rightarrow> nat \<Rightarrow> bytes \<Rightarrow> bool" where
  "block_contains E bytes i tx =
     (case and_then (inflate E bytes) scan_block_items of
        Inl _ \<Rightarrow> False
      | Inr items \<Rightarrow> i < length (transactions_of items) \<and> transactions_of items ! i = tx)"

definition inclusion_spec :: "bool \<Rightarrow> externals \<Rightarrow>
    ('b::field, 'bq::zero, 'b1::ab_group_add, 'b2::ab_group_add) bls \<Rightarrow> ('n::zero, 's) sponge_lib \<Rightarrow>
    ('j, 'e::ab_group_add) jubjub \<Rightarrow> ('n, 'nq::zero, 'n1::ab_group_add, 'n2::ab_group_add) bn254 \<Rightarrow>
    bytes \<Rightarrow> nat \<Rightarrow> bytes \<Rightarrow> block_proof_material \<Rightarrow> bootstrap \<Rightarrow> (error + block_proof_verification) option" where
  "inclusion_spec checks E B P J N bytes i tx m boot =
     (if block_contains E bytes i tx then verify_block_proof checks B P J N m boot
      else Some (Inl (Proof witness_mismatch)))"

text \<open>C9. \<open>verify_inclusion\<close> refines that contract, though it sees neither the block nor the index. With the
  witness the crate extracts for an index, and any bytes at all as the transaction, it gives exactly the contract's outcome,
  panics and errors included, unless two strings hashed on the two ways to the root collide under SHA-384. With any
  other witness of the same shape it gives that outcome or the mismatch error, and nothing else: a wrong
  witness can make the check refuse, never accept, never panic where the contract does not.\<close>

theorem verify_inclusion_refines:
  assumes "sha384_len (sha384 E)" "oneof_law E"
    and "inflate E bytes = Inr raw" "scan_block_items raw = Inr items" "length raw < 2 ^ 64"
    and "extract_proof_material E bytes = Some (Inr m)" "block_inclusion_witness E bytes i = Some (Inr (tx, w))"
    and "witness_fits (length (transactions_of items)) i w'"
  shows "verify_inclusion checks (sha384 E) B P J N tx' w' m boot = inclusion_spec checks E B P J N bytes i tx' m boot \<or>
    w' \<noteq> w \<and> verify_inclusion checks (sha384 E) B P J N tx' w' m boot = Some (Inl (Proof witness_mismatch)) \<or>
    collision_between (sha384 E) (inclusion_inputs (sha384 E) tx w) (inclusion_inputs (sha384 E) tx' w')"
proof -
  note w = extracted_witness [OF assms(1,3,4,5,7)]
  have contains: "block_contains E bytes i tx' \<longleftrightarrow> tx' = tx"
    using w by (auto simp: block_contains_def assms(3,4) witness_fits_def)
  have here: "recompute_block_root (sha384 E) tx w = block_root m"
    using inclusion_recomputes [OF assms(2,3,5,6,7)] by simp
  note same = same_root_same_transaction [OF assms(1,3,4,5,7,8)]
  show ?thesis
  proof (cases "recompute_block_root (sha384 E) tx' w' = block_root m")
    case True
    with same [of tx'] here show ?thesis by (auto simp: verify_inclusion_eq inclusion_spec_def contains)
  next
    case False
    with here have "tx' \<noteq> tx \<or> w' \<noteq> w" by auto
    with False show ?thesis by (auto simp: verify_inclusion_eq inclusion_spec_def contains)
  qed
qed

lemma verify_inclusion_refines_witness:
  "\<exists>m w. extract_proof_material demo_env demo_block = Some (Inr m) \<and> witness_fits 1 0 w \<and>
     \<not> block_contains demo_env demo_block 0 [1] \<and> block_contains demo_env demo_block 0 [0x22, 1, 5] \<and>
     (verify_inclusion True (sha384 demo_env) demo_bls demo_zero_sponge demo_jubjub demo_bn [1] w m demo_book = Some (Inl (Proof witness_mismatch)) \<or>
      collision_between (sha384 demo_env) (inclusion_inputs (sha384 demo_env) [0x22, 1, 5] w) (inclusion_inputs (sha384 demo_env) [1] w))"
proof -
  obtain m where m: "extract_proof_material demo_env demo_block = Some (Inr m)" using demo_extract by blast
  obtain w where w: "block_inclusion_witness demo_env demo_block 0 = Some (Inr ([0x22, 1, 5], w))" using demo_inclusion by blast
  have len: "length demo_block < 2 ^ 64" by (simp add: demo_block_bytes)
  note fits = extracted_witness [OF demo_sha demo_block_inflate demo_block_scan len w, THEN conjunct1]
  have "\<not> block_contains demo_env demo_block 0 [1]" "block_contains demo_env demo_block 0 [0x22, 1, 5]"
    by (simp_all add: block_contains_def demo_block_inflate demo_block_scan transactions_of_def demo_kinds)
  with verify_inclusion_refines [OF demo_sha oneof_law_demo demo_block_inflate demo_block_scan len m w fits,
      of True demo_bls demo_zero_sponge demo_jubjub demo_bn "[1]" demo_book] m fits
  show ?thesis by (auto simp: inclusion_spec_def demo_kinds transactions_of_def)
qed

end
