(* ===== verification/Schnorr_Forgery.thy ===== *)
theory Schnorr_Forgery
  imports Schnorr
begin

text \<open>
  The forgery that the acceptance gate of \<open>verify_schnorr\<close> is there for, as the unit test of
  \<open>src/block/proof/schnorr.rs\<close> builds it: a signature of nobody, whose challenge is computed for the identity as the
  aggregate key. The verification equation holds for it, for every book, key and response, so it would endorse any
  hinTS key; the gate refuses it. \<open>to_le\<close> is \<open>into_bigint().to_bytes_le()\<close> of a scalar.
\<close>

section \<open>The forgery\<close>

definition forged_challenge :: "('fr, 'e::ab_group_add) jubjub \<Rightarrow> bytes \<Rightarrow> 'fr \<Rightarrow> 'fr" where
  "forged_challenge J message response =
     (let commitment = ed_mul J (ed_generator J) response; identity = 0
      in jub_from_le J (slice 0 31 (blake2s256 J (serialize_point J identity @ serialize_point J commitment @ message))))"

definition forged_layout :: "('fr \<Rightarrow> bytes) \<Rightarrow> ('fr, 'e::ab_group_add) jubjub \<Rightarrow> bytes \<Rightarrow> bytes \<Rightarrow> 'fr \<Rightarrow> proof_layout" where
  "forged_layout to_le J hints_vk message response =
     \<lparr>path = AggregateSchnorr, hints_verification_key = hints_vk, hints_signature = [],
      suffix_bytes = replicate BITVECTOR_LENGTH 0 @ to_le response @ to_le (forged_challenge J message response)\<rparr>"

text \<open>The rest of the test: its book of one node, its key, and what it asserts.\<close>

definition forgery_book :: bootstrap where
  "forgery_book = \<lparr>ledger_id = replicate 32 7, history_proof_verification_key = [],
     node_contributions = [\<lparr>node_id = 0, weight = 1, history_proof_key = replicate NODE_KEY_LENGTH 0\<rparr>]\<rparr>"

definition forgery_message :: "('p, 's) sponge_lib \<Rightarrow> bytes option" where
  "forgery_message P = map_option (\<lambda>h. ledger_id forgery_book @ p_bytes_le P h) (hash_hints_vk P (replicate 1096 0))"

definition empty_bitvector_forgery_is_rejected :: "('fr \<Rightarrow> bytes) \<Rightarrow> ('p, 's) sponge_lib \<Rightarrow> ('fr, 'e::ab_group_add) jubjub \<Rightarrow>
    'fr \<Rightarrow> bool option" where
  "empty_bitvector_forgery_is_rejected to_le P J response =
     Option.bind (forgery_message P) (\<lambda>message.
     Option.bind (verify_schnorr P J (forged_layout to_le J (replicate 1096 0) message response) forgery_book) (\<lambda>r.
       case r of Inl _ \<Rightarrow> None | Inr outcome \<Rightarrow> Some (signer_count outcome = 0 \<and> \<not> schnorr_valid outcome)))"

section \<open>It satisfies the equation and is refused\<close>

text \<open>The condition behind the gate, for the aggregate key that a selection adds up to.\<close>

definition equation_holds :: "('fr, 'e::ab_group_add) jubjub \<Rightarrow> 'e \<Rightarrow> proof_layout \<Rightarrow> bytes \<Rightarrow> bool" where
  "equation_holds J agg_pk lay message \<longleftrightarrow>
     (let response = jub_from_le J (slice 128 160 (suffix_bytes lay)); challenge = jub_from_le J (drop 160 (suffix_bytes lay))
      in schnorr_challenge J agg_pk (ed_mul J (ed_generator J) response + ed_mul J agg_pk challenge) message = challenge)"

definition scalar_codec :: "('fr \<Rightarrow> bytes) \<Rightarrow> ('fr, 'e) jubjub \<Rightarrow> bool" where
  "scalar_codec to_le J \<longleftrightarrow> (\<forall>x. length (to_le x) = 32 \<and> jub_from_le J (to_le x) = x)"

lemma identity_mul:
  assumes "curve_laws J"
  shows "ed_mul J 0 e = 0"
proof -
  have add: "ed_mul J p (a + b) = ed_mul J p a + ed_mul J p b" and mul: "ed_mul J (ed_mul J p a) b = ed_mul J p (a * b)" for p a b
    using assms by (simp_all add: curve_laws_def)
  have zero: "ed_mul J p 0 = 0" for p using add [of p 0 0] by simp
  have "ed_mul J (ed_mul J 0 0) e = 0" unfolding mul by (simp add: zero)
  then show ?thesis by (simp add: zero)
qed

lemma nobody_signs:
  "\<forall>i < BITVECTOR_LENGTH. bv ! i = 0 \<Longrightarrow> fold_result (add_signer J bv) (0, 0) nodes = Inr (0, 0)"
  by (induction nodes) (auto simp: add_signer_def Let_def not_le)

lemma forged_parts:
  assumes "scalar_codec to_le J"
  shows "slice 0 128 (suffix_bytes (forged_layout to_le J vk message response)) = replicate 128 0"
    and "jub_from_le J (slice 128 160 (suffix_bytes (forged_layout to_le J vk message response))) = response"
    and "jub_from_le J (drop 160 (suffix_bytes (forged_layout to_le J vk message response))) = forged_challenge J message response"
    and "length (suffix_bytes (forged_layout to_le J vk message response)) = 192"
  using assms by (simp_all add: forged_layout_def scalar_codec_def BITVECTOR_LENGTH_def slice_def)

text \<open>C6. The gate is needed and does its work: for every book with a node, every hinTS key and every response, the
  signature of nobody satisfies the verification equation with the identity as the aggregate key, over the message the
  verification itself computes; and it is refused, with no signer counted.\<close>

theorem empty_selection_forgery:
  assumes "curve_laws J" "scalar_codec to_le J" "node_contributions boot \<noteq> []"
    and "rotation_message P (forged_layout to_le J vk [] 0) boot = Some message"
  shows "rotation_message P (forged_layout to_le J vk message response) boot = Some message \<and>
    equation_holds J 0 (forged_layout to_le J vk message response) message \<and>
    verify_schnorr P J (forged_layout to_le J vk message response) boot =
      Some (Inr \<lparr>schnorr_valid = False, signer_count = 0, total_nodes = length (node_contributions boot)\<rparr>)"
proof (intro conjI)
  let ?lay = "forged_layout to_le J vk message response"
  note parts = forged_parts [OF assms(2), of vk message response]
  show "rotation_message P ?lay boot = Some message"
    using assms(4) by (cases "vk = []") (simp_all add: rotation_message_def forged_layout_def)
  show "equation_holds J 0 ?lay message"
    by (simp add: equation_holds_def parts identity_mul [OF assms(1)]) (simp add: schnorr_challenge_def forged_challenge_def)
  have "fold_result (add_signer J (replicate 128 0)) (0, 0) (enumerate 0 (node_contributions boot)) = Inr (0, 0)"
    by (rule nobody_signs) (simp add: BITVECTOR_LENGTH_def)
  moreover have "path ?lay = AggregateSchnorr" by (simp add: forged_layout_def)
  ultimately show "verify_schnorr P J ?lay boot =
      Some (Inr \<lparr>schnorr_valid = False, signer_count = 0, total_nodes = length (node_contributions boot)\<rparr>)"
    using parts assms(3) by (simp add: verify_schnorr_def SUFFIX_LENGTH_def BITVECTOR_LENGTH_def Let_def)
qed

text \<open>The unit test, for every response.\<close>

lemma forgery_test_passes:
  assumes "scalar_codec to_le J" "hash_hints_vk P (replicate 1096 0) \<noteq> None"
  shows "empty_bitvector_forgery_is_rejected to_le P J response = Some True"
proof -
  obtain message where m: "forgery_message P = Some message" using assms(2) by (auto simp: forgery_message_def)
  let ?lay = "forged_layout to_le J (replicate 1096 0) message response"
  note parts = forged_parts [OF assms(1), of "replicate 1096 0" message response]
  have "fold_result (add_signer J (replicate 128 0)) (0, 0) (enumerate 0 (node_contributions forgery_book)) = Inr (0, 0)"
    by (rule nobody_signs) (simp add: BITVECTOR_LENGTH_def)
  moreover have "path ?lay = AggregateSchnorr" "node_contributions forgery_book \<noteq> []"
    by (simp_all add: forged_layout_def forgery_book_def)
  ultimately have "verify_schnorr P J ?lay forgery_book =
      Some (Inr \<lparr>schnorr_valid = False, signer_count = 0, total_nodes = length (node_contributions forgery_book)\<rparr>)"
    using parts by (simp add: verify_schnorr_def SUFFIX_LENGTH_def BITVECTOR_LENGTH_def Let_def)
  with m show ?thesis by (simp add: empty_bitvector_forgery_is_rejected_def)
qed

section \<open>A concrete instance\<close>

definition demo_to_le :: "gf2 \<Rightarrow> bytes" where
  "demo_to_le x = (if x = 0 then 0 else 1) # replicate 31 0"

lemma demo_codec: "scalar_codec demo_to_le demo_jubjub"
proof -
  have "x = 0 \<or> x = 1" for x :: gf2 by (cases x) (simp_all add: zero_gf2_def one_gf2_def)
  then show ?thesis by (auto simp: scalar_codec_def demo_to_le_def demo_jubjub_def)
qed

lemma empty_selection_forgery_witness:
  "\<exists>message. equation_holds demo_jubjub 0 (forged_layout demo_to_le demo_jubjub (replicate 1096 0) message 1) message \<and>
     verify_schnorr demo_sponge demo_jubjub (forged_layout demo_to_le demo_jubjub (replicate 1096 0) message 1) demo_book =
       Some (Inr \<lparr>schnorr_valid = False, signer_count = 0, total_nodes = 2\<rparr>)"
proof -
  have laws: "curve_laws demo_jubjub" by (simp add: curve_laws_def demo_jubjub_def algebra_simps)
  have book: "node_contributions demo_book \<noteq> []" "length (node_contributions demo_book) = 2" by (simp_all add: demo_book_def)
  have "\<exists>m. rotation_message demo_sponge (forged_layout demo_to_le demo_jubjub (replicate 1096 0) [] 0) demo_book = Some m"
    by (simp add: rotation_message_def hash_hints_vk_def poseidon_hash_def get_at_def demo_sponge_def Let_def)
  then obtain m where "rotation_message demo_sponge (forged_layout demo_to_le demo_jubjub (replicate 1096 0) [] 0) demo_book = Some m"
    by blast
  from empty_selection_forgery [OF laws demo_codec book(1) this, of 1] book(2) show ?thesis by auto
qed

end
