(* ===== verification/Sentinel_Catch_Up.thy ===== *)
theory Sentinel_Catch_Up
  imports Sentinel_Run
begin

text \<open>
  The sentinel run again and again over the same source, as its schedule does: each run reads the state the one before
  it wrote. What the theorem shows: whatever the positive cap, the runs reach the newest block, have counted every block of the window
  once, and from then on a run reports that it is caught up and writes nothing.
\<close>

section \<open>Repeated runs\<close>

definition reading :: "sentinel_env \<Rightarrow> json \<Rightarrow> sentinel_env" where
  "reading V v = V\<lparr>read_state := \<lambda>_. Inr v\<rparr>"

fun reruns :: "bool \<Rightarrow> nat \<Rightarrow> (u64 \<Rightarrow> bytes \<Rightarrow> state \<Rightarrow> (string + state) option) \<Rightarrow> sentinel_env \<Rightarrow> string list \<Rightarrow> nat \<Rightarrow> json \<Rightarrow> json" where
  "reruns checks fuel check V args 0 v = v"
| "reruns checks fuel check V args (Suc k) v = reruns checks fuel check V args k
     (case sentinel_run checks fuel check (reading V v) args of (Some (_, v'), _) \<Rightarrow> v' | (None, _) \<Rightarrow> v)"

lemma reading_fields [simp]:
  "read_state (reading V v) p = Inr v" "unix_seconds (reading V v) = unix_seconds V" "write_state (reading V v) = write_state V"
  "env_var (reading V v) = env_var V" "gcloud (reading V v) = gcloud V" "ureq_get (reading V v) = ureq_get V"
  "read_dir_names (reading V v) = read_dir_names V" "path_exists (reading V v) = path_exists V" "read_path (reading V v) = read_path V"
  by (simp_all add: reading_def)

lemma reading_source [simp]: "choose_source (reading V v) args = choose_source V args"
  by (simp add: choose_source_def access_token_def cong: option.case_cong)

lemma reading_fetch [simp]: "fetch (reading V v) src = fetch V src"
  by (cases src; rule ext) simp_all

lemma reading_exists: "block_exists (reading V v) src = block_exists V src"
  by (cases src; rule ext) simp_all

lemma reading_newest [simp]: "newest fuel checks (reading V v) src b = newest fuel checks V src b"
  by (cases src) (hypsubst, unfold newest.simps reading_exists reading_fields, rule refl)+

lemma caught_up:
  assumes "choose_source V args = Inr src" "newest fuel checks V src new = Some (Inr new)" "unat new + 1 < 2 ^ 64"
    and "initialized (load v)" "last_block (load v) = Some new"
  shows "sentinel_run checks fuel check (reading V v) args = (None, Some (Inr SUCCESS))"
proof -
  have add: "build_add checks new 1 = Some (new + 1)" "unat (new + 1) = unat new + 1"
    using build_add_Some [of new 1 checks] assms(3) by simp_all
  then have "new < new + 1" by (simp add: word_less_nat_alt)
  with assms add(1) show ?thesis by (simp add: sentinel_run_def window_def ok_or_def)
qed

lemma reruns_caught_up:
  assumes "sentinel_run checks fuel check (reading V v) args = (None, Some (Inr SUCCESS))"
  shows "reruns checks fuel check V args k v = v"
  by (induction k) (simp_all add: assms)

section \<open>The runs catch up\<close>

text \<open>The blocks after a run's window are again a chain that fits what it wrote.\<close>

lemma rest_of_chain:
  assumes "holds_chain E hex hints get blk (inclusive lo new)" "lo \<le> hi" "hi < new" "unat new + 1 < 2 ^ 64"
    and "describes hex st (blk hi)"
  shows "holds_chain E hex hints get blk (inclusive (hi + 1) new) \<and> fits hex st (blk (hi + 1))"
proof -
  have le: "unat lo \<le> unat hi" "unat hi < unat new" using assms(2,3) by (simp_all add: word_le_nat_alt word_less_nat_alt)
  have next1: "unat (hi + 1) = unat hi + 1" using le(2) assms(4) by (simp add: unat_word_ariths)
  have "[unat lo..<Suc (unat new)] = [unat lo..<Suc (unat hi)] @ [Suc (unat hi)..<Suc (unat new)]"
    using upt_add_eq_append [of "unat lo" "Suc (unat hi)" "unat new - unat hi"] le by simp
  then have split: "inclusive lo new = inclusive lo hi @ inclusive (hi + 1) new"
    by (simp add: inclusive_def next1 del: upt_Suc)
  have "hi + 1 \<le> new" using le(2) next1 by (simp add: word_le_nat_alt)
  note inc = inclusive_facts [OF assms(2)] inclusive_facts [OF this]
  have hc: "holds_chain E hex hints get blk (inclusive (hi + 1) new)"
    using assms(1) by (auto simp: split holds_chain_def chained_append)
  have "sentinel_link hex (blk hi) (blk (hi + 1))"
    using assms(1) inc by (simp add: split holds_chain_def chained_append)
  moreover have "hi \<in> set (inclusive lo new)" using inc(3,4) by (metis Un_iff last_in_set set_append split)
  then have "layout_bytes (layout (blk hi)) < usize_limit" using assms(1) by (auto simp: holds_chain_def)
  ultimately have "fits hex st (blk (hi + 1))" using assms(5) by (auto simp: fits_def describes_def sentinel_link_def)
  with hc show ?thesis by blast
qed

text \<open>C24. Repeated runs catch up: over a source whose blocks from the first unverified one to the newest are an acceptable
  chain, \<open>k\<close> runs with a cap of \<open>max_blocks\<close> reach the newest block as soon as \<open>k * max_blocks\<close> covers the
  window; each of its blocks is then counted exactly once in the total, and every further run ends with success and
  leaves the state file alone.\<close>

theorem sentinel_catches_up:
  assumes "choose_source V args = Inr src" "unix_seconds V = Some secs" "\<And>p v. write_state V p v = Inr ()" "0 < max_blocks_of args"
    and "\<And>b. b = floor_block \<or> lo \<le> b \<and> b \<le> new \<Longrightarrow> newest fuel checks V src b = Some (Inr new)"
    and "window checks args (load v) = Some (Inr (floor_block, lo))" "lo \<le> new" "unat new + 32 < 2 ^ 64"
    and "total_of (load v) + (Suc (unat new) - unat lo) < 2 ^ 64"
    and "holds_chain E hex hints (fetch V src) blk (inclusive lo new)" "fits hex (load v) (blk lo)"
    and "unat new < unat lo + k * unat (max_blocks_of args)"
  shows "let v' = reruns checks fuel (check_block E hex hints) V args k v
    in last_block (load v') = Some new \<and> total_of (load v') = total_of (load v) + (Suc (unat new) - unat lo) \<and>
       sentinel_run checks fuel (check_block E hex hints) (reading V v') args = (None, Some (Inr SUCCESS))"
  using assms(5-12)
proof (induction k arbitrary: v floor_block lo)
  case 0
  then show ?case by (simp add: word_le_nat_alt)
next
  case (Suc k)
  let ?m = "unat (max_blocks_of args)"
  note progress = run_progress [of "reading V v" args src v secs checks floor_block lo fuel new E hex hints blk]
  obtain v' hi where run: "sentinel_run checks fuel (check_block E hex hints) (reading V v) args = (Some (state_path args, v'), Some (Inr SUCCESS))"
    and hi: "unat hi = min (unat new) (unat lo + ?m - 1)"
    and v': "last_block (load v') = Some hi" "describes hex (load v') (blk hi)" "initialized (load v')"
      "total_of (load v') = total_of (load v) + (Suc (unat hi) - unat lo)"
    using progress assms(1-4) Suc.prems by auto
  have m: "0 < ?m" and lo: "unat lo \<le> unat new" using assms(4) Suc.prems(3) by (simp_all add: word_less_nat_alt word_le_nat_alt)
  show ?case
  proof (cases "hi = new")
    case True
    have "newest fuel checks V src new = Some (Inr new)" using Suc.prems(1,3) by simp
    from caught_up [OF assms(1) this _ v'(3)] v'(1) True Suc.prems(4)
    have "sentinel_run checks fuel (check_block E hex hints) (reading V v') args = (None, Some (Inr SUCCESS))" by simp
    with reruns_caught_up [OF this] v' True show ?thesis by (simp add: run Let_def)
  next
    case False
    with hi lo m have hi': "unat hi + 1 = unat lo + ?m" "unat hi < unat new" by (auto simp: word_unat_eq_iff min_def split: if_splits)
    have one: "build_add checks hi 1 = Some (hi + 1)" "unat (hi + 1) = unat hi + 1"
      using build_add_Some [of hi 1 checks] hi'(2) Suc.prems(4) by simp_all
    have w: "window checks args (load v') = Some (Inr (hi, hi + 1))"
      using v'(1,3) one(1) by (simp add: window_def ok_or_def)
    have ord: "lo \<le> hi" "hi < new" "hi + 1 \<le> new" "unat new + 1 < 2 ^ 64"
      using hi' one(2) m Suc.prems(4) by (simp_all add: word_le_nat_alt word_less_nat_alt)
    from rest_of_chain [OF Suc.prems(6) ord(1,2,4) v'(2)]
    have rest: "holds_chain E hex hints (fetch V src) blk (inclusive (hi + 1) new)" "fits hex (load v') (blk (hi + 1))" by blast+
    have nw: "newest fuel checks V src b = Some (Inr new)" if "b = hi \<or> hi + 1 \<le> b \<and> b \<le> new" for b
      by (rule Suc.prems(1)) (use that ord one(2) in \<open>auto simp: word_le_nat_alt\<close>)
    have "total_of (load v') + (Suc (unat new) - unat (hi + 1)) < 2 ^ 64" "unat new < unat (hi + 1) + k * ?m"
      using Suc.prems(5,8) v'(4) hi' one(2) by simp_all
    from Suc.IH [OF nw w ord(3) Suc.prems(4) this(1) rest this(2)] v'(4) hi' one(2) lo m show ?thesis
      by (simp add: run Let_def)
  qed
qed

text \<open>The directory of one block: one run verifies it, the next is caught up.\<close>

lemma sentinel_catches_up_witness:
  "let v' = reruns True 27 (check_block demo_env demo_hex None) demo_dir demo_args 3 (save fresh_state)
   in last_block (load v') = Some 7 \<and> total_of (load v') = 1 \<and>
      sentinel_run True 27 (check_block demo_env demo_hex None) (reading demo_dir v') demo_args = (None, Some (Inr SUCCESS))"
proof -
  obtain m where m: "holds_chain demo_env demo_hex None (fetch demo_dir (Local ''d'')) (\<lambda>_. m) (inclusive 7 7)" "fits demo_hex fresh_state m"
    using demo_chain by blast
  have nw: "b = 7 \<or> 7 \<le> b \<and> b \<le> 7 \<Longrightarrow> newest 27 True demo_dir (Local ''d'') b = Some (Inr 7)" for b :: u64
  proof -
    assume "b = 7 \<or> 7 \<le> b \<and> b \<le> 7"
    then have "b = 7" by (metis order.antisym)
    then show ?thesis by (simp add: demo_window(2) del: newest.simps)
  qed
  show ?thesis
    using sentinel_catches_up [of demo_dir demo_args "Local ''d''" 0 7 7 7 27 True "save fresh_state" demo_env demo_hex None "\<lambda>_. m" 3,
        OF _ _ _ _ nw] m
    by (simp add: demo_simps Let_def del: fetch.simps newest.simps)
qed

end
