(* ===== verification/Examples.thy ===== *)
theory Examples
  imports Etl Block_Proof
begin

text \<open>
  The programs of \<open>examples/\<close>: what a user of the library writes. \<open>unwrap\<close> and \<open>expect\<close> make every failure a panic,
  so a program gives what it prints, or \<open>None\<close>. Listing a directory and reading a file are the fields of \<open>example_env\<close>;
  timing and the formatting of floating-point numbers are left out. What the theorems show: the chain check reports
  exactly whether the files are a chain and never indexes out of range, the fee report's totals are the
  sums of the fees as long as those fit in 64 bits, and counting on worker threads gives the sequential count.
\<close>

record example_env =
  ex_list :: "string \<Rightarrow> string + string list"
  ex_read :: "string \<Rightarrow> string + bytes"

definition read_parsed :: "externals \<Rightarrow> example_env \<Rightarrow> string \<Rightarrow> parsed_record_file option" where
  "read_parsed E V p = Option.bind (ok (ex_read V p)) (\<lambda>b. ok (parse_record_file E b))"

section \<open>\<open>chain_check.rs\<close>\<close>

definition chain_names :: "string list \<Rightarrow> string list" where
  "chain_names all = sort (filter (\<lambda>n. ends_with n ''.rcd.gz'') all)"

definition intact_line :: "parsed_record_file list \<Rightarrow> string" where
  "intact_line files =
     ''chain intact: '' @ show_nat (length files) @ '' files, blocks ''
     @ show_int (case files of [] \<Rightarrow> 0 | f # _ \<Rightarrow> prf_block_number f) @ ''..=''
     @ show_int (if files = [] then 0 else prf_block_number (last files)) @ '', gapless and un-reordered''"

definition break_line :: "chain_break \<Rightarrow> string \<Rightarrow> string" where
  "break_line e name = ''CHAIN BREAK at file #'' @ show_nat (break_index e) @ '' ('' @ name @ ''): '' @ reason e"

definition chain_check :: "externals \<Rightarrow> example_env \<Rightarrow> string list \<Rightarrow> string option" where
  "chain_check E V argv =
     Option.bind (get_at argv 1) (\<lambda>dir.
     Option.bind (ok (ex_list V dir)) (\<lambda>all.
       let names = chain_names all
       in Option.bind (those (map (\<lambda>n. read_parsed E V (dir @ ''/'' @ n)) names)) (\<lambda>files.
            case verify_running_hash_chain files of
              Inr _ \<Rightarrow> Some (intact_line files)
            | Inl e \<Rightarrow> map_option (break_line e) (get_at names (break_index e)))))"

section \<open>\<open>fee_report.rs\<close>\<close>

text \<open>\<open>DirEntry::path\<close> and \<open>Path::extension\<close>: what follows the last dot of the name, unless that is its first
  character.\<close>

definition entry_path :: "string \<Rightarrow> string \<Rightarrow> string" where
  "entry_path dir name = (if dir = [] \<or> ends_with dir ''/'' then dir @ name else dir @ ''/'' @ name)"

definition extension :: "string \<Rightarrow> string option" where
  "extension name =
     (let tail = rev (takeWhile (\<lambda>c. c \<noteq> CHR ''.'') (rev name))
      in if length name \<le> length tail + 1 then None else Some tail)"

text \<open>\<open>*map.entry(k).or_default() += fee\<close>.\<close>

definition add_entry :: "bool \<Rightarrow> string \<Rightarrow> u64 \<Rightarrow> (string, u64) btree_map \<Rightarrow> (string, u64) btree_map option" where
  "add_entry checks k fee m =
     map_option (\<lambda>s. bt_insert k s m) (build_add checks (case bt_get m k of None \<Rightarrow> 0 | Some s \<Rightarrow> s) fee)"

record fee_totals =
  by_payer :: "(string, u64) btree_map"
  by_type :: "(string, u64) btree_map"
  fee_total :: u64

fun add_fees :: "bool \<Rightarrow> fee_totals \<Rightarrow> parsed_transaction list \<Rightarrow> fee_totals option" where
  "add_fees checks t [] = Some t"
| "add_fees checks t (tx # txs) =
     Option.bind (add_entry checks (payer tx) (charged_fee_tinybar tx) (by_payer t)) (\<lambda>p.
     Option.bind (add_entry checks (tx_type tx) (charged_fee_tinybar tx) (by_type t)) (\<lambda>ty.
     Option.bind (build_add checks (fee_total t) (charged_fee_tinybar tx)) (\<lambda>s.
       add_fees checks \<lparr>by_payer = p, by_type = ty, fee_total = s\<rparr> txs)))"

fun fee_files :: "bool \<Rightarrow> externals \<Rightarrow> example_env \<Rightarrow> string \<Rightarrow> fee_totals \<Rightarrow> string list \<Rightarrow> fee_totals option" where
  "fee_files checks E V dir t [] = Some t"
| "fee_files checks E V dir t (name # names) =
     (if extension name \<noteq> Some ''gz'' then fee_files checks E V dir t names
      else Option.bind (read_parsed E V (entry_path dir name)) (\<lambda>f.
           Option.bind (add_fees checks t (prf_transactions f)) (\<lambda>t'. fee_files checks E V dir t' names)))"

text \<open>The rows of a printed table; \<open>iter\<close> is the order in which the hash map gives its entries.\<close>

definition top_rows :: "((string \<times> u64) list \<Rightarrow> (string \<times> u64) list) \<Rightarrow> nat \<Rightarrow> (string, u64) btree_map \<Rightarrow> (string \<times> u64) list" where
  "top_rows iter n m = take n (sort_key (\<lambda>(_, v). - int (unat v)) (iter m))"

definition fee_report :: "bool \<Rightarrow> ((string \<times> u64) list \<Rightarrow> (string \<times> u64) list) \<Rightarrow> externals \<Rightarrow> example_env \<Rightarrow> string list \<Rightarrow>
    (u64 \<times> (string \<times> u64) list \<times> (string \<times> u64) list) option" where
  "fee_report checks iter E V argv =
     Option.bind (get_at argv 1) (\<lambda>dir.
     Option.bind (ok (ex_list V dir)) (\<lambda>names.
     Option.bind (fee_files checks E V dir \<lparr>by_payer = [], by_type = [], fee_total = 0\<rparr> names) (\<lambda>t.
       Some (fee_total t, top_rows iter 10 (by_payer t), top_rows iter 8 (by_type t)))))"

section \<open>\<open>parse_dir.rs\<close>\<close>

definition count_transactions :: "externals \<Rightarrow> bytes list \<Rightarrow> nat option" where
  "count_transactions E bs = map_option sum_list (those (map (\<lambda>b. map_option (\<lambda>f. length (prf_transactions f)) (ok (parse_record_file E b))) bs))"

text \<open>\<open>chunks\<close> panics on a size of zero; \<open>parallelism\<close> is \<open>available_parallelism\<close>, at least one.\<close>

definition count_threaded :: "externals \<Rightarrow> nat \<Rightarrow> bytes list \<Rightarrow> nat option" where
  "count_threaded E parallelism bs =
     (let chunk = div_ceil (length bs) parallelism
      in if chunk = 0 then None else map_option sum_list (those (map (count_transactions E) (chunks chunk bs))))"

definition parse_dir :: "externals \<Rightarrow> nat \<Rightarrow> example_env \<Rightarrow> string list \<Rightarrow> (nat \<times> nat \<times> nat) option" where
  "parse_dir E parallelism V argv =
     Option.bind (get_at argv 1) (\<lambda>dir.
     Option.bind (ok (ex_list V dir)) (\<lambda>names.
     Option.bind (those (map (\<lambda>n. ok (ex_read V (entry_path dir n))) (filter (\<lambda>n. extension n = Some ''gz'') names))) (\<lambda>buffers.
     Option.bind (count_transactions E buffers) (\<lambda>tx.
     Option.bind (count_threaded E parallelism buffers) (\<lambda>tx'. Some (length buffers, tx, tx'))))))"

section \<open>\<open>parse_one.rs\<close>\<close>

definition middle_dot :: string where
  "middle_dot = map char_of [0xc2 :: nat, 0xb7]"

definition tinybar_sign :: string where
  "tinybar_sign = CHR ''t'' # map char_of [0xe2 :: nat, 0x84, 0x8f]"

text \<open>\<open>{:<w}\<close>\<close>

definition pad_right :: "nat \<Rightarrow> string \<Rightarrow> string" where
  "pad_right w s = s @ replicate (w - length s) CHR '' ''"

definition transaction_line :: "parsed_transaction \<Rightarrow> string" where
  "transaction_line tx =
     ''  '' @ consensus_timestamp tx @ '' '' @ pad_right 24 (tx_type tx) @ '' payer='' @ pad_right 10 (payer tx)
     @ '' fee='' @ show_u64 (charged_fee_tinybar tx) @ '' '' @ tinybar_sign @ '' '' @ result_name tx"

definition parse_one :: "externals \<Rightarrow> string \<Rightarrow> example_env \<Rightarrow> string list \<Rightarrow> string list option" where
  "parse_one E manifest_dir V argv =
     (let path = (case get_at argv 1 of Some p \<Rightarrow> p
                  | None \<Rightarrow> manifest_dir @ ''/tests/fixtures/v6/2022-07-13T08_46_11.304284003Z.rcd.gz'')
      in map_option (\<lambda>file.
           (''block '' @ show_int (prf_block_number file) @ '' '' @ middle_dot @ '' HAPI '' @ prf_hapi_version file @ '' '' @ middle_dot
             @ '' '' @ show_nat (length (prf_transactions file)) @ '' transaction(s)'')
           # map transaction_line (prf_transactions file))
         (read_parsed E V path))"

section \<open>\<open>verify_offline.rs\<close>\<close>

definition show_bool :: "bool \<Rightarrow> string" where
  "show_bool b = (if b then ''true'' else ''false'')"

definition verify_offline :: "externals \<Rightarrow> (bytes \<Rightarrow> string) \<Rightarrow> (string \<Rightarrow> bytes option) \<Rightarrow> string list option" where
  "verify_offline E hex fixture =
     Option.bind (fixture ''v6/2022-07-13T08_46_11.304284003Z.rcd.gz'') (\<lambda>rcd.
     Option.bind (fixture ''v6/2022-07-13T08_46_11.304284003Z.rcd_sig'') (\<lambda>sig.
     Option.bind (Option.bind (fixture ''test-v6-sidecar-4n.bin'') (\<lambda>b. ok (parse_address_book E b))) (\<lambda>book.
     Option.bind (ok (record_file_hash E rcd)) (\<lambda>hash.
     Option.bind (ok (parse_signature_file E sig)) (\<lambda>parsed_sig.
     Option.bind (bt_get book ''0.0.3'') (\<lambda>key.
     Option.bind (ok (verify_node_signature E hash (file_signature parsed_sig) key)) (\<lambda>good.
     Option.bind (ok (verify_metadata_signature E rcd sig key)) (\<lambda>meta.
       Some [''file hash        : '' @ hex hash,
             ''hash matches sig : '' @ show_bool (file_hash parsed_sig = hash),
             ''file signature   : '' @ show_bool good,
             ''metadata sig     : '' @ show_bool meta]))))))))"

section \<open>\<open>verify_block.rs\<close>\<close>

fun debug_path :: "proof_path \<Rightarrow> string" where
  "debug_path AggregateSchnorr = ''AggregateSchnorr''"
| "debug_path WrapsCompressedProof = ''WrapsCompressedProof''"
| "debug_path Unknown_Path = ''Unknown''"

definition report_lines :: "(bytes \<Rightarrow> string) \<Rightarrow> string \<Rightarrow> block_proof_material \<Rightarrow> block_proof_verification \<Rightarrow> string list" where
  "report_lines hex label m v =
     [label,
      ''  block number : '' @ show_u64 (block_number m),
      ''  block root   : '' @ hex (block_root m),
      ''  proof path   : '' @ debug_path (path (layout m)),
      ''  hinTS ok     : '' @ show_bool (Hints.all_passed (bpv_hints v))]
     @ (case bpv_schnorr v of None \<Rightarrow> []
        | Some s \<Rightarrow> [''  schnorr ok   : '' @ show_bool (schnorr_valid s) @ '' ('' @ show_nat (signer_count s) @ ''/''
            @ show_nat (total_nodes s) @ '' signers)''])
     @ (case bpv_wraps v of None \<Rightarrow> [] | Some w \<Rightarrow> [''  wraps ok     : '' @ show_bool (Wraps.all_passed w)])
     @ [''  VERIFIED     : '' @ show_bool (valid v) @ [CHR 0x0A]]"

definition report :: "externals \<Rightarrow> (bytes \<Rightarrow> string) \<Rightarrow> (block_proof_material \<Rightarrow> bootstrap \<Rightarrow> (error + block_proof_verification) option) \<Rightarrow>
    string \<Rightarrow> bytes \<Rightarrow> bytes option \<Rightarrow> string list option" where
  "report E hex verify label block genesis =
     Option.bind (Option.bind (extract_proof_material E block) ok) (\<lambda>m.
     Option.bind (Option.bind (resolve_bootstrap E m genesis ''pass the genesis block'') ok) (\<lambda>boot.
     Option.bind (Option.bind (verify m boot) ok) (\<lambda>v. Some (report_lines hex label m v))))"

definition verify_block_example :: "externals \<Rightarrow> (bytes \<Rightarrow> string) \<Rightarrow>
    (block_proof_material \<Rightarrow> bootstrap \<Rightarrow> (error + block_proof_verification) option) \<Rightarrow> (string \<Rightarrow> bytes option) \<Rightarrow> string list option" where
  "verify_block_example E hex verify fixture =
     Option.bind (fixture ''0.blk.gz'') (\<lambda>genesis.
     Option.bind (report E hex verify ''genesis block (aggregate Schnorr)'' genesis None) (\<lambda>out.
     Option.bind (fixture ''467.blk.gz'') (\<lambda>block.
     Option.bind (report E hex verify ''block 467 (WRAPS)'' block (Some genesis)) (\<lambda>out'. Some (out @ out')))))"

section \<open>The chain check reports the chain\<close>

text \<open>With every file of the directory readable the check prints a line and does not panic: that the chain is intact
  exactly when it is, and otherwise the name of the first file that does not follow its predecessor.\<close>

lemma chain_check_intact:
  assumes "ex_list V dir = Inr all"
    and "those (map (\<lambda>n. read_parsed E V (dir @ ''/'' @ n)) (chain_names all)) = Some files"
    and "chained record_link files"
  shows "chain_check E V (prog # dir # args) = Some (intact_line files)"
proof -
  have "verify_running_hash_chain files = Inr ()" using assms(3) by (simp add: verify_running_hash_chain_iff)
  with assms(1,2) show ?thesis by (simp add: chain_check_def get_at_def Let_def)
qed

lemma chain_check_broken:
  assumes "ex_list V dir = Inr all"
    and "those (map (\<lambda>n. read_parsed E V (dir @ ''/'' @ n)) (chain_names all)) = Some files"
    and "\<not> chained record_link files"
  shows "\<exists>b. 0 < break_index b \<and> break_index b < length files \<and> chained record_link (take (break_index b) files) \<and>
    \<not> record_link (files ! (break_index b - 1)) (files ! break_index b) \<and>
    chain_check E V (prog # dir # args) = Some (break_line b (chain_names all ! break_index b))"
proof (cases "verify_running_hash_chain files")
  case (Inr u)
  with assms(3) show ?thesis by (simp add: verify_running_hash_chain_iff [symmetric])
next
  case (Inl b)
  have "length files = length (chain_names all)" using assms(2) by (auto simp: those_Some_iff dest: list_all2_lengthD)
  with Inl running_hash_chain_first_break [OF Inl] assms(1,2) show ?thesis
    by (intro exI [of _ b]) (simp add: chain_check_def get_at_def Let_def verify_running_hash_chain_iff)
qed

section \<open>The fee totals\<close>

definition entry :: "(string, u64) btree_map \<Rightarrow> string \<Rightarrow> u64" where
  "entry m k = (case bt_get m k of None \<Rightarrow> 0 | Some s \<Rightarrow> s)"

definition fees_of :: "(parsed_transaction \<Rightarrow> bool) \<Rightarrow> parsed_transaction list \<Rightarrow> u64" where
  "fees_of P txs = sum_list (map charged_fee_tinybar (filter P txs))"

definition fee_sum :: "parsed_transaction list \<Rightarrow> nat" where
  "fee_sum txs = sum_list (map (\<lambda>tx. unat (charged_fee_tinybar tx)) txs)"

lemma fees_of_simps [simp]:
  "fees_of P [] = 0" "fees_of P (tx # txs) = (if P tx then charged_fee_tinybar tx else 0) + fees_of P txs"
  by (simp_all add: fees_of_def)

lemma fee_sum_simps [simp]:
  "fee_sum [] = 0" "fee_sum (tx # txs) = unat (charged_fee_tinybar tx) + fee_sum txs"
  "fee_sum (txs @ txs') = fee_sum txs + fee_sum txs'"
  by (simp_all add: fee_sum_def)

text \<open>The maps hold no entry above the total, so with overflow checks the total is the first sum that can overflow.\<close>

definition totals_ok :: "bool \<Rightarrow> fee_totals \<Rightarrow> bool" where
  "totals_ok checks t \<longleftrightarrow> bt_wf (by_payer t) \<and> bt_wf (by_type t) \<and>
     (checks \<longrightarrow> (\<forall>k. unat (entry (by_payer t) k) \<le> unat (fee_total t) \<and> unat (entry (by_type t) k) \<le> unat (fee_total t)))"

lemma add_entry_fits:
  assumes "bt_wf m" "checks \<longrightarrow> unat (entry m k) + unat fee < 2 ^ 64"
  shows "\<exists>m'. add_entry checks k fee m = Some m' \<and> bt_wf m' \<and> (\<forall>j. entry m' j = entry m j + (if j = k then fee else 0)) \<and>
    fst ` set m' = insert k (fst ` set m)"
proof -
  have "build_add checks (entry m k) fee = Some (entry m k + fee)" using assms(2) by (auto simp: build_add_def)
  then have "add_entry checks k fee m = Some (bt_insert k (entry m k + fee) m)" by (simp add: add_entry_def entry_def)
  moreover have "bt_wf (bt_insert k (entry m k + fee) m)" by (rule bt.wf_insert [OF assms(1)])
  moreover have "entry (bt_insert k (entry m k + fee) m) j = entry m j + (if j = k then fee else 0)" for j
    by (simp add: entry_def bt.get_insert [OF assms(1)])
  moreover have "fst ` set (bt_insert k (entry m k + fee) m) = insert k (fst ` set m)"
    by (simp add: bt_insert_def bt_upsert_keys)
  ultimately show ?thesis by blast
qed

lemma add_within:
  fixes a b t f :: u64
  assumes "unat a \<le> unat t" "unat t + unat f < 2 ^ 64"
  shows "unat (a + f) \<le> unat (t + f)" "unat a \<le> unat (t + f)" "unat (t + f) = unat t + unat f"
proof -
  have "unat (a + f) = unat a + unat f" using assms by (simp add: unat_word_ariths)
  moreover show s: "unat (t + f) = unat t + unat f" using assms by (simp add: unat_word_ariths)
  ultimately show "unat (a + f) \<le> unat (t + f)" "unat a \<le> unat (t + f)" using assms(1) by simp_all
qed

lemma add_fees_fits:
  assumes "totals_ok checks t" "checks \<longrightarrow> unat (fee_total t) + fee_sum txs < 2 ^ 64"
  shows "\<exists>t'. add_fees checks t txs = Some t' \<and> totals_ok checks t' \<and> fee_total t' = fee_total t + fees_of (\<lambda>_. True) txs \<and>
    (\<forall>k. entry (by_payer t') k = entry (by_payer t) k + fees_of (\<lambda>tx. payer tx = k) txs) \<and>
    (\<forall>k. entry (by_type t') k = entry (by_type t) k + fees_of (\<lambda>tx. tx_type tx = k) txs) \<and>
    fst ` set (by_payer t') = payer ` set txs \<union> fst ` set (by_payer t) \<and>
    fst ` set (by_type t') = tx_type ` set txs \<union> fst ` set (by_type t)"
  using assms
proof (induction txs arbitrary: t)
  case Nil
  then show ?case by simp
next
  case (Cons tx txs)
  let ?f = "charged_fee_tinybar tx"
  have wf: "bt_wf (by_payer t)" "bt_wf (by_type t)" using Cons(2) by (simp_all add: totals_ok_def)
  have le: "checks \<Longrightarrow> unat (entry (by_payer t) k) \<le> unat (fee_total t)" "checks \<Longrightarrow> unat (entry (by_type t) k) \<le> unat (fee_total t)" for k
    using Cons(2) by (simp_all add: totals_ok_def)
  have fits: "checks \<Longrightarrow> unat (fee_total t) + unat ?f < 2 ^ 64" using Cons(3) by simp
  have "checks \<longrightarrow> unat (entry (by_payer t) (payer tx)) + unat ?f < 2 ^ 64"
    using le(1) [of "payer tx"] fits by linarith
  from add_entry_fits [OF wf(1) this] obtain p where p: "add_entry checks (payer tx) ?f (by_payer t) = Some p" "bt_wf p"
    "\<And>j. entry p j = entry (by_payer t) j + (if j = payer tx then ?f else 0)" "fst ` set p = insert (payer tx) (fst ` set (by_payer t))"
    by blast
  have "checks \<longrightarrow> unat (entry (by_type t) (tx_type tx)) + unat ?f < 2 ^ 64"
    using le(2) [of "tx_type tx"] fits by linarith
  from add_entry_fits [OF wf(2) this] obtain y where y: "add_entry checks (tx_type tx) ?f (by_type t) = Some y" "bt_wf y"
    "\<And>j. entry y j = entry (by_type t) j + (if j = tx_type tx then ?f else 0)" "fst ` set y = insert (tx_type tx) (fst ` set (by_type t))"
    by blast
  have total: "build_add checks (fee_total t) ?f = Some (fee_total t + ?f)" using fits by (auto simp: build_add_def)
  let ?t = "\<lparr>by_payer = p, by_type = y, fee_total = fee_total t + ?f\<rparr>"
  have ok: "totals_ok checks ?t"
    using p(2) y(2) fits le by (simp add: totals_ok_def p(3) y(3) add_within)
  have room: "checks \<longrightarrow> unat (fee_total ?t) + fee_sum txs < 2 ^ 64"
    using Cons(3) add_within(3) [OF order_refl fits] by (auto simp: add.assoc)
  from Cons(1) [OF ok room] obtain t' where t': "add_fees checks ?t txs = Some t'" "totals_ok checks t'"
    "fee_total t' = fee_total t + ?f + fees_of (\<lambda>_. True) txs"
    "\<And>k. entry (by_payer t') k = entry p k + fees_of (\<lambda>tx. payer tx = k) txs"
    "\<And>k. entry (by_type t') k = entry y k + fees_of (\<lambda>tx. tx_type tx = k) txs"
    "fst ` set (by_payer t') = payer ` set txs \<union> fst ` set p" "fst ` set (by_type t') = tx_type ` set txs \<union> fst ` set y"
    by auto
  have "add_fees checks t (tx # txs) = Some t'" using p(1) y(1) total t'(1) by simp
  with t' p(3,4) y(3,4) show ?case by (intro exI [of _ t']) (simp add: add.assoc)
qed

lemma add_fees_overflows:
  "2 ^ 64 \<le> unat (fee_total t) + fee_sum txs \<Longrightarrow> add_fees True t txs = None"
proof (induction txs arbitrary: t)
  case Nil
  then show ?case using unsigned_less [of "fee_total t", where ?'a = nat] by simp
next
  case (Cons tx txs)
  show ?case
  proof (cases "2 ^ 64 \<le> unat (fee_total t) + unat (charged_fee_tinybar tx)")
    case True
    then show ?thesis by (simp add: build_add_def bind_eq_None_conv)
  next
    case False
    then have "unat (fee_total t + charged_fee_tinybar tx) = unat (fee_total t) + unat (charged_fee_tinybar tx)"
      using add_within(3) [OF order_refl] by simp
    with Cons show ?thesis by (simp add: build_add_def bind_eq_None_conv)
  qed
qed

lemma add_fees_append: "add_fees checks t (xs @ ys) = Option.bind (add_fees checks t xs) (\<lambda>t'. add_fees checks t' ys)"
  by (induction xs arbitrary: t) (simp_all add: bind_assoc)

lemma fee_files_eq:
  "those (map (\<lambda>n. read_parsed E V (entry_path dir n)) (filter (\<lambda>n. extension n = Some ''gz'') names)) = Some fs \<Longrightarrow>
   fee_files checks E V dir t names = add_fees checks t (concat (map prf_transactions fs))"
  by (induction names arbitrary: fs t)
    (auto simp: add_fees_append split: option.splits if_splits)

text \<open>The entries a map should have: for each key of the transactions the sum of its fees.\<close>

definition table :: "(parsed_transaction \<Rightarrow> string) \<Rightarrow> parsed_transaction list \<Rightarrow> (string \<times> u64) set" where
  "table key txs = (\<lambda>k. (k, fees_of (\<lambda>tx. key tx = k) txs)) ` key ` set txs"

lemma table_of_entries:
  assumes "bt_wf m" "fst ` set m = key ` set txs" "\<And>k. entry m k = fees_of (\<lambda>tx. key tx = k) txs"
  shows "set m = table key txs"
proof -
  have "distinct (map fst m)" using assms(1) by (simp add: bt_wf_def strict_sorted_iff)
  then have "snd e = fees_of (\<lambda>tx. key tx = fst e) txs" if "e \<in> set m" for e
    using that assms(3) [of "fst e"] by (simp add: entry_def bt_get_def map_of_is_SomeI [of m "fst e" "snd e"])
  then have "set m = (\<lambda>k. (k, fees_of (\<lambda>tx. key tx = k) txs)) ` fst ` set m"
    by (force simp: image_iff)
  then show ?thesis by (simp add: table_def assms(2))
qed

lemma fees_of_exact:
  assumes "fee_sum txs < 2 ^ 64"
  shows "unat (fees_of P txs) = fee_sum (filter P txs) \<and> fee_sum (filter P txs) \<le> fee_sum txs"
  using assms
proof (induction txs)
  case (Cons tx txs)
  then have "unat (fees_of P txs) = fee_sum (filter P txs)" "fee_sum (filter P txs) \<le> fee_sum txs" by simp_all
  with Cons(2) show ?case by (simp add: unat_word_ariths)
qed simp

text \<open>C40. The fee report adds up exactly: over any listing whose record files can be read, a build with overflow checks
  panics when the fees of all transactions together pass 64 bits, and otherwise the program prints their sum and two
  tables, with one row for each payer and each transaction type that occurs, holding the sum of its fees; below 2^64
  those are the sums of the integers, in any build.\<close>

theorem fee_report_exact:
  assumes "ex_list V dir = Inr names"
    and "those (map (\<lambda>n. read_parsed E V (entry_path dir n)) (filter (\<lambda>n. extension n = Some ''gz'') names)) = Some fs"
  shows "let txs = concat (map prf_transactions fs) in
    (if checks \<and> 2 ^ 64 \<le> fee_sum txs then fee_report checks iter E V (prog # dir # args) = None
     else \<exists>p ty. fee_report checks iter E V (prog # dir # args) =
         Some (fees_of (\<lambda>_. True) txs, top_rows iter 10 p, top_rows iter 8 ty) \<and>
       set p = table payer txs \<and> distinct (map fst p) \<and> set ty = table tx_type txs \<and> distinct (map fst ty)) \<and>
    (fee_sum txs < 2 ^ 64 \<longrightarrow> unat (fees_of (\<lambda>_. True) txs) = fee_sum txs \<and>
       (\<forall>P. unat (fees_of P txs) = fee_sum (filter P txs)))"
proof -
  define txs where "txs = concat (map prf_transactions fs)"
  let ?t = "\<lparr>by_payer = [], by_type = [], fee_total = 0\<rparr>"
  have run: "fee_report checks iter E V (prog # dir # args) = map_option (\<lambda>t. (fee_total t, top_rows iter 10 (by_payer t), top_rows iter 8 (by_type t)))
      (add_fees checks ?t txs)"
    by (simp add: fee_report_def get_at_def assms(1) fee_files_eq [OF assms(2)] txs_def map_conv_bind_option comp_def)
  have t: "totals_ok checks ?t" by (simp add: totals_ok_def entry_def bt_get_def bt.wf_empty)
  have "(if checks \<and> 2 ^ 64 \<le> fee_sum txs then fee_report checks iter E V (prog # dir # args) = None
     else \<exists>p ty. fee_report checks iter E V (prog # dir # args) =
         Some (fees_of (\<lambda>_. True) txs, top_rows iter 10 p, top_rows iter 8 ty) \<and>
       set p = table payer txs \<and> distinct (map fst p) \<and> set ty = table tx_type txs \<and> distinct (map fst ty))"
  proof (cases "checks \<and> 2 ^ 64 \<le> fee_sum txs")
    case True
    then have "add_fees checks ?t txs = None" using add_fees_overflows [of ?t txs] by simp
    with True show ?thesis unfolding run by simp
  next
    case False
    then obtain t' where t': "add_fees checks ?t txs = Some t'" "bt_wf (by_payer t')" "bt_wf (by_type t')"
      "fee_total t' = fees_of (\<lambda>_. True) txs" "\<And>k. entry (by_payer t') k = fees_of (\<lambda>tx. payer tx = k) txs"
      "\<And>k. entry (by_type t') k = fees_of (\<lambda>tx. tx_type tx = k) txs"
      "fst ` set (by_payer t') = payer ` set txs" "fst ` set (by_type t') = tx_type ` set txs"
      using add_fees_fits [OF t, of txs] by (auto simp: totals_ok_def entry_def bt_get_def)
    have "distinct (map fst (by_payer t'))" "distinct (map fst (by_type t'))"
      using t'(2,3) by (simp_all add: bt_wf_def strict_sorted_iff)
    moreover have "set (by_payer t') = table payer txs" "set (by_type t') = table tx_type txs"
      by (rule table_of_entries; rule t')+
    moreover have "fee_report checks iter E V (prog # dir # args) =
        Some (fees_of (\<lambda>_. True) txs, top_rows iter 10 (by_payer t'), top_rows iter 8 (by_type t'))"
      unfolding run t'(1) by (simp add: t'(4))
    ultimately show ?thesis unfolding if_not_P [OF False] by blast
  qed
  moreover have "fee_sum txs < 2 ^ 64 \<longrightarrow> unat (fees_of (\<lambda>_. True) txs) = fee_sum txs \<and>
      (\<forall>P. unat (fees_of P txs) = fee_sum (filter P txs))"
    using fees_of_exact [of txs] by simp
  ultimately show ?thesis unfolding txs_def [symmetric] Let_def by (rule conjI)
qed

section \<open>The threaded count\<close>

lemma those_append: "those (xs @ ys) = Option.bind (those xs) (\<lambda>x. map_option (\<lambda>y. x @ y) (those ys))"
  by (induction xs) (auto split: option.split simp: option.map_ident option.map_comp comp_def map_conv_bind_option bind_assoc)

lemma count_append:
  "count_transactions E (xs @ ys) =
     Option.bind (count_transactions E xs) (\<lambda>a. map_option (\<lambda>b. a + b) (count_transactions E ys))"
  by (simp add: count_transactions_def those_append)
    (auto simp: map_conv_bind_option bind_assoc comp_def)

lemma count_concat:
  "map_option sum_list (those (map (count_transactions E) bss)) = count_transactions E (concat bss)"
proof (induction bss)
  case Nil
  then show ?case by (simp add: count_transactions_def)
next
  case (Cons bs bss)
  then show ?case
    by (auto simp: count_append option.map_comp comp_def split: option.split simp flip: Cons)
qed

text \<open>Counting on worker threads gives the sequential count, whatever their number; but a directory without record
  files panics where the sequential count is zero.\<close>

lemma count_threaded_eq:
  assumes "0 < parallelism"
  shows "count_threaded E parallelism bs = (if bs = [] then None else count_transactions E bs)"
proof (cases "bs = []")
  case True
  then show ?thesis using assms by (simp add: count_threaded_def div_ceil_def Let_def)
next
  case False
  then have "0 < length bs" by simp
  then have "parallelism \<le> length bs + parallelism - 1" by linarith
  then have "0 < div_ceil (length bs) parallelism" using assms by (simp add: div_ceil_def div_greater_zero_iff)
  then show ?thesis using False by (simp add: count_threaded_def Let_def count_concat concat_chunks)
qed

text \<open>A directory of one record file, of one transaction with a fee of 5.\<close>

definition demo_fees :: externals where
  "demo_fees = demo\<lparr>dec_record_stream_file := (\<lambda>b. Inr \<lparr>rsf_hapi_proto_version = None,
     rsf_start_object_running_hash = None, rsf_record_stream_items = [\<lparr>rsi_transaction = None,
       rsi_record = Some \<lparr>rec_receipt_status = Some 22, rec_consensus_timestamp = None, rec_transaction_id = None,
         rec_transaction_fee = 5, rec_transfer_list = None, rec_token_transfer_lists = []\<rparr>\<rparr>],
     rsf_end_object_running_hash = None, rsf_block_number = 1\<rparr>)\<rparr>"

definition demo_listing :: example_env where
  "demo_listing = \<lparr>ex_list = (\<lambda>_. Inr [''a.txt'', ''b.rcd.gz'']), ex_read = (\<lambda>_. Inr [0, 0, 0, 6])\<rparr>"

lemma fee_report_exact_witness:
  "\<exists>p ty. fee_report True (\<lambda>m. m) demo_fees demo_listing [''fee_report'', ''d''] = Some (5, p, ty)"
proof -
  obtain f where f: "read_parsed demo_fees demo_listing ''d/b.rcd.gz'' = Some f"
    "map charged_fee_tinybar (prf_transactions f) = [5]"
    by (simp add: read_parsed_def demo_listing_def parse_record_file_def inflate_def is_gzip_def GZIP_MAGIC_def
        i32_from_be_bytes_def be_nat_def demo_fees_def parse_item_def Let_def)
  have names: "ex_list demo_listing ''d'' = Inr [''a.txt'', ''b.rcd.gz'']" by (simp add: demo_listing_def)
  have "those (map (\<lambda>n. read_parsed demo_fees demo_listing (entry_path ''d'' n))
      (filter (\<lambda>n. extension n = Some ''gz'') [''a.txt'', ''b.rcd.gz''])) = Some [f]"
    using f(1) by (simp add: extension_def entry_path_def ends_with_def suffix_def)
  from fee_report_exact [OF names this, of True "\<lambda>m. m" "''fee_report''" "[]"] f(2)
  show ?thesis by (auto simp: fee_sum_def fees_of_def Let_def)
qed

end
