(* ===== verification/Fuzz_Targets.thy ===== *)
theory Fuzz_Targets
  imports Block_Proof
begin

text \<open>
  The fuzz targets of \<open>fuzz/fuzz_targets\<close> that reach code which could panic: \<open>parse_proof\<close>, which extracts the proof
  material of arbitrary bytes, and \<open>verify_proof\<close>, which goes on to verify it. A target has no result; \<open>None\<close> is the
  panic the fuzzer looks for. The theorem settles what the fuzzer samples: on any input the whole path panics only
  in the arithmetic of the hinTS verification.
\<close>

section \<open>The targets\<close>

definition parse_proof :: "externals \<Rightarrow> bytes \<Rightarrow> unit option" where
  "parse_proof E bytes = map_option (\<lambda>_. ()) (extract_proof_material E bytes)"

definition verify_proof :: "bool \<Rightarrow> externals \<Rightarrow>
    ('b::field, 'bq::zero, 'b1::ab_group_add, 'b2::ab_group_add) bls \<Rightarrow> ('n::zero, 's) sponge_lib \<Rightarrow>
    ('j, 'e::ab_group_add) jubjub \<Rightarrow> ('n, 'nq::zero, 'n1::ab_group_add, 'n2::ab_group_add) bn254 \<Rightarrow>
    bytes \<Rightarrow> bytes \<Rightarrow> unit option" where
  "verify_proof checks E B P J N GENESIS bytes =
     Option.bind (extract_proof_material E bytes) (\<lambda>m.
       case m of
         Inl _ \<Rightarrow> Some ()
       | Inr material \<Rightarrow>
           if path (layout material) = Unknown_Path then Some ()
           else Option.bind (resolve_bootstrap E material (Some GENESIS) ''genesis'') (\<lambda>b.
             case b of
               Inl _ \<Rightarrow> Some ()
             | Inr boot \<Rightarrow> map_option (\<lambda>_. ()) (verify_block_proof checks B P J N material boot)))"

section \<open>What cannot panic\<close>

text \<open>\<open>squeeze_field_elements(n)\<close> gives \<open>n\<close> elements.\<close>

definition squeeze_law :: "('p, 's) sponge_lib \<Rightarrow> bool" where
  "squeeze_law P \<longleftrightarrow> (\<forall>s n. length (squeeze P s n) = n)"

lemma hash_hints_vk_total: "squeeze_law P \<Longrightarrow> hash_hints_vk P vk \<noteq> None"
  by (simp add: hash_hints_vk_def poseidon_hash_def get_at_def squeeze_law_def)

lemma verify_schnorr_total: "squeeze_law P \<Longrightarrow> verify_schnorr P J lay boot \<noteq> None"
proof
  assume "squeeze_law P" "verify_schnorr P J lay boot = None"
  then show False using hash_hints_vk_total [of P]
    by (auto simp: verify_schnorr_def rotation_message_def and_then_panic_eq_None_iff Let_def split: if_splits)
qed

lemma verify_wraps_total: "squeeze_law P \<Longrightarrow> verify_wraps P N lay boot \<noteq> None"
proof
  assume "squeeze_law P" "verify_wraps P N lay boot = None"
  then show False using hash_hints_vk_total [of P]
    by (auto simp: verify_wraps_def and_then_panic_eq_None_iff split: option.splits if_splits)
qed

lemma extract_total:
  assumes "\<And>raw. inflate E bytes = Inr raw \<Longrightarrow> length raw < 2 ^ 64"
  shows "extract_proof_material E bytes \<noteq> None"
proof (cases "and_then (inflate E bytes) scan_block_items")
  case (Inl e)
  then show ?thesis by (simp add: extract_proof_material_def scan_block_def)
next
  case (Inr items)
  then obtain raw where raw: "inflate E bytes = Inr raw" "scan_block_items raw = Inr items"
    by (auto simp: and_then_eq_Inr_iff)
  have "length items < 2 ^ 64" using scan_block_items_kinds(2) [OF raw(2)] assms [OF raw(1)] by linarith
  from scan_loop_total [OF this, of E] Inr show ?thesis by (simp add: extract_proof_material_def scan_block_def)
qed

text \<open>C39. The fuzz target panics only in the hinTS verification, and there only in a multiplication or a subtraction with
  overflow checks or in a division by zero: reading the block, its layout, resolving the bootstrap and the
  Schnorr and WRAPS verification never panic, whatever the bytes, under a hash of 32 bytes and a sponge that gives as many elements as
  asked, for inputs that fit in memory.\<close>

theorem verify_proof_target_panics:
  assumes "\<And>b. length (sha256 B b) = 32" "squeeze_law P"
    and "\<And>raw. inflate E bytes = Inr raw \<Longrightarrow> length raw < 2 ^ 64" "\<And>raw. inflate E GENESIS = Inr raw \<Longrightarrow> length raw < 2 ^ 64"
  shows "parse_proof E bytes = Some () \<and>
    (verify_proof checks E B P J N GENESIS bytes = None \<longrightarrow>
      (\<exists>material vk sig. extract_proof_material E bytes = Some (Inr material) \<and>
        path (layout material) \<noteq> Unknown_Path \<and>
        deserialize_vk B (hints_verification_key (layout material)) = Inr vk \<and>
        deserialize_signature B (hints_signature (layout material)) = Inr sig \<and>
        ((checks \<and> (\<exists>w. weight_value B (sg_agg_weight sig) = Some w \<and> 2 ^ 128 \<le> 3 * w)) \<or>
         (\<exists>r omega. fiat_shamir_challenge B vk sig = Some r \<and> fr_root_of_unity B (vk_n vk) = Some omega \<and>
            (checks \<and> vk_n vk = 0 \<or> fr_from_u64 B (vk_n vk) = 0 \<or> r = omega ^ unat (vk_n vk - 1))))))"
proof (intro conjI impI)
  obtain m where m: "extract_proof_material E bytes = Some m" using extract_total [OF assms(3)] by blast
  then show "parse_proof E bytes = Some ()" by (simp add: parse_proof_def)
  assume none: "verify_proof checks E B P J N GENESIS bytes = None"
  have boot: "resolve_bootstrap E material (Some GENESIS) hint \<noteq> None" for material hint
    using extract_total [OF assms(4)] by (auto simp: resolve_bootstrap_def split: option.splits)
  obtain material where material: "m = Inr material" "path (layout material) \<noteq> Unknown_Path"
    using none m by (cases m) (auto simp: verify_proof_def split: if_splits)
  obtain b where b: "resolve_bootstrap E material (Some GENESIS) ''genesis'' = Some b" using boot by blast
  from none m material b obtain boot where "verify_block_proof checks B P J N material boot = None"
    by (cases b) (auto simp: verify_proof_def)
  with m material have ex: "extract_proof_material E bytes = Some (Inr material)" "path (layout material) \<noteq> Unknown_Path"
    "verify_block_proof checks B P J N material boot = None" by simp_all
  have "verify_hints checks B (layout material) (block_root material) = None"
    using ex(3) verify_schnorr_total [OF assms(2), of J "layout material" boot] verify_wraps_total [OF assms(2), of N "layout material" boot]
    by (auto simp: verify_block_proof_def verify_proof_over_root_def and_then_panic_eq_None_iff split: proof_path.splits)
  from verify_hints_panics [OF assms(1) this] ex
  show "\<exists>material vk sig. extract_proof_material E bytes = Some (Inr material) \<and>
      path (layout material) \<noteq> Unknown_Path \<and>
      deserialize_vk B (hints_verification_key (layout material)) = Inr vk \<and>
      deserialize_signature B (hints_signature (layout material)) = Inr sig \<and>
      ((checks \<and> (\<exists>w. weight_value B (sg_agg_weight sig) = Some w \<and> 2 ^ 128 \<le> 3 * w)) \<or>
       (\<exists>r omega. fiat_shamir_challenge B vk sig = Some r \<and> fr_root_of_unity B (vk_n vk) = Some omega \<and>
          (checks \<and> vk_n vk = 0 \<or> fr_from_u64 B (vk_n vk) = 0 \<or> r = omega ^ unat (vk_n vk - 1))))"
    by blast
qed

section \<open>An input that panics\<close>

text \<open>A genesis block whose proof is the demonstration signature, with a challenge that hits the last point of its
  domain of one point.\<close>

definition fuzz_env :: externals where
  "fuzz_env = demo_env\<lparr>
     dec_block_item := (\<lambda>b. if b = [0x4a, 0] then Inr (Some (BlockProof (Some (SignedBlockProof
       (hints_verification_key demo_layout @ hints_signature demo_layout @ suffix_bytes demo_layout)))))
       else dec_block_item demo_env b),
     dec_hapi_transaction_body := (\<lambda>_. Inr \<lparr>tb_transaction_id = None, tb_data = Some (LedgerIdPublication
       \<lparr>pub_ledger_id = [7], pub_history_proof_verification_key = [], pub_node_contributions = []\<rparr>)\<rparr>)\<rparr>"

definition fuzz_bls :: "(gf2, int, gf2, gf2) bls" where
  "fuzz_bls = demo_bls\<lparr>fr_from_be := \<lambda>b. 1\<rparr>"

lemma fuzz_layout:
  "classify_layout (hints_verification_key demo_layout @ hints_signature demo_layout @ suffix_bytes demo_layout) = demo_layout"
  by (simp add: classify_layout_def demo_layout_def slice_def FIXED_PREFIX_LENGTH_def HINTS_VK_LENGTH_def
      HINTS_SIG_LENGTH_def SCHNORR_SUFFIX_LENGTH_def Let_def)

lemma fuzz_decode:
  "dec_block_item fuzz_env [0x0a, 0] = dec_block_item demo_env [0x0a, 0]"
  "dec_block_item fuzz_env [0x22, 1, 5] = dec_block_item demo_env [0x22, 1, 5]"
  "dec_block_item fuzz_env [0x62, 0] = dec_block_item demo_env [0x62, 0]"
  "dec_block_item fuzz_env [0x4a, 0] = Inr (Some (BlockProof (Some (SignedBlockProof
     (hints_verification_key demo_layout @ hints_signature demo_layout @ suffix_bytes demo_layout)))))"
  "inflate fuzz_env demo_block = Inr demo_block" "sha384 fuzz_env = sha384 demo_env"
  "bootstrap_from fuzz_env b = Some \<lparr>ledger_id = [7], history_proof_verification_key = [], node_contributions = []\<rparr>"
  using demo_block_inflate
  by (simp_all add: fuzz_env_def inflate_def bootstrap_from_def demo_env_def demo_def split: if_splits)

lemma fuzz_extract:
  "\<exists>m b. extract_proof_material fuzz_env demo_block = Some (Inr m) \<and> layout m = demo_layout \<and> material_bootstrap m = Some b"
proof -
  have "\<exists>st. fold_panic (scan_item fuzz_env) scan_start [\<lparr>field_number = 1, item_bytes = [0x0a, 0]\<rparr>,
     \<lparr>field_number = 4, item_bytes = [0x22, 1, 5]\<rparr>, \<lparr>field_number = 9, item_bytes = [0x4a, 0]\<rparr>,
     \<lparr>field_number = 12, item_bytes = [0x62, 0]\<rparr>] = Some (Inr st) \<and>
     header st = Some \<lparr>bh_number = 7, bh_hapi_proto_version = None, bh_block_timestamp = None\<rparr> \<and> footer st \<noteq> None \<and>
     block_signature st = Some (hints_verification_key demo_layout @ hints_signature demo_layout @ suffix_bytes demo_layout) \<and>
     scan_bootstrap st \<noteq> None"
    by (simp add: scan_item_def hash_item_def view_item_def scan_start_def fuzz_decode demo_decode demo_add_leaf
        signed_block_signature_def)
  then show ?thesis
    by (auto simp: extract_proof_material_def scan_block_def fuzz_decode demo_block_scan finish_scan_def fuzz_layout Let_def)
qed

lemma verify_proof_target_panics_witness:
  "verify_proof False fuzz_env fuzz_bls demo_zero_sponge demo_jubjub demo_bn demo_block demo_block = None \<and>
   (\<exists>material vk sig r. extract_proof_material fuzz_env demo_block = Some (Inr material) \<and>
      deserialize_vk fuzz_bls (hints_verification_key (layout material)) = Inr vk \<and>
      deserialize_signature fuzz_bls (hints_signature (layout material)) = Inr sig \<and>
      fiat_shamir_challenge fuzz_bls vk sig = Some r)"
proof -
  obtain m b where m: "extract_proof_material fuzz_env demo_block = Some (Inr m)" "layout m = demo_layout"
    "material_bootstrap m = Some b" using fuzz_extract by blast
  have "verify_block_proof False fuzz_bls demo_zero_sponge demo_jubjub demo_bn m b = None"
    by (simp add: verify_block_proof_def verify_proof_over_root_def m(2) fuzz_bls_def demo_hints_panic)
  moreover have "path (layout m) \<noteq> Unknown_Path" by (simp add: m(2) demo_layout_def)
  ultimately have none: "verify_proof False fuzz_env fuzz_bls demo_zero_sponge demo_jubjub demo_bn demo_block demo_block = None"
    by (simp add: verify_proof_def m(1,3) resolve_bootstrap_def)
  have len: "\<And>b. length (sha256 fuzz_bls b) = 32" by (simp add: fuzz_bls_def demo_bls_def)
  have sponge: "squeeze_law demo_zero_sponge" by (simp add: squeeze_law_def demo_zero_sponge_def)
  have fits: "\<And>raw. inflate fuzz_env demo_block = Inr raw \<Longrightarrow> length raw < 2 ^ 64"
    by (simp add: fuzz_decode) (simp add: demo_block_bytes)
  from verify_proof_target_panics [of fuzz_bls demo_zero_sponge fuzz_env demo_block demo_block False demo_jubjub demo_bn,
      OF len sponge fits fits] none
  show ?thesis by blast
qed

end
