(* ===== verification/Unit_Tests.thy ===== *)
theory Unit_Tests
  imports Json Etl
begin

text \<open>
  The unit tests of \<open>src/block/merkle.rs\<close>, \<open>src/json.rs\<close>, \<open>src/cli/etl/parquet.rs\<close> and \<open>src/lib.rs\<close>, run on the model: a test is
  the conjunction of what it asserts, and its lemma says that the model passes it. The tests of the trees pass
  for every hash function, and the test that tampers with a leaf fails only on a collision of the hash.
\<close>

section \<open>\<open>merkle.rs\<close>\<close>

definition to_be_bytes :: "u64 \<Rightarrow> bytes" where
  "to_be_bytes w = map (\<lambda>i. ucast (drop_bit (8 * i) w)) (rev [0..<8])"

definition leaf :: "(bytes \<Rightarrow> bytes) \<Rightarrow> nat \<Rightarrow> bytes" where
  "leaf sha i = hash_leaf sha (to_be_bytes (of_nat i))"

definition leaves :: "(bytes \<Rightarrow> bytes) \<Rightarrow> nat \<Rightarrow> bytes list" where
  "leaves sha n = map (leaf sha) [0..<n]"

definition merkle_root_matches_streaming_hasher :: "(bytes \<Rightarrow> bytes) \<Rightarrow> bool" where
  "merkle_root_matches_streaming_hasher sha \<longleftrightarrow>
     list_all (\<lambda>n. let ls = leaves sha n in merkle_root sha ls \<noteq> None \<and> merkle_root sha ls = streaming_root sha ls) [1..<261]"

text \<open>\<open>witness_for(..).unwrap()\<close>, with what the test asserts of the witness.\<close>

definition witness_satisfies :: "(bytes \<Rightarrow> bytes) \<Rightarrow> bytes list \<Rightarrow> nat \<Rightarrow> (merkle_witness \<Rightarrow> bool) \<Rightarrow> bool" where
  "witness_satisfies sha ls i P = (case witness_for sha ls i of Some (Some w) \<Rightarrow> P w | _ \<Rightarrow> False)"

definition fold_reproduces_root_for_every_leaf_test :: "(bytes \<Rightarrow> bytes) \<Rightarrow> bool" where
  "fold_reproduces_root_for_every_leaf_test sha \<longleftrightarrow>
     list_all (\<lambda>n. let ls = leaves sha n; expected = streaming_root sha ls
         in list_all (\<lambda>i. witness_satisfies sha ls i (\<lambda>w. Some (fold_witness sha (ls ! i) w) = expected)) [0..<n])
       ([1..<131] @ [255, 256, 257, 511, 512, 513, 1000, 1023, 1024, 1025])"

definition empty_tree_root_matches_streaming_hasher :: "(bytes \<Rightarrow> bytes) \<Rightarrow> bool" where
  "empty_tree_root_matches_streaming_hasher sha \<longleftrightarrow> merkle_root sha [] = Some (root sha streaming_default)"

definition single_leaf_witness_is_the_leaf :: "(bytes \<Rightarrow> bytes) \<Rightarrow> bool" where
  "single_leaf_witness_is_the_leaf sha \<longleftrightarrow>
     (let ls = leaves sha 1
      in witness_satisfies sha ls 0 (\<lambda>w. siblings w = [] \<and> left_peaks w = [] \<and> right_root w = None \<and>
           Some (fold_witness sha (ls ! 0) w) = streaming_root sha ls))"

definition tampered_leaf_fails :: "(bytes \<Rightarrow> bytes) \<Rightarrow> bool" where
  "tampered_leaf_fails sha \<longleftrightarrow>
     (let ls = leaves sha 37; expected = streaming_root sha ls; bad = (ls ! 11)[0 := ((ls ! 11) ! 0) XOR 0x01]
      in witness_satisfies sha ls 11 (\<lambda>w. Some (fold_witness sha bad w) \<noteq> expected))"

definition out_of_range_index_returns_none :: "(bytes \<Rightarrow> bytes) \<Rightarrow> bool" where
  "out_of_range_index_returns_none sha \<longleftrightarrow>
     (let ls = leaves sha 5
      in witness_for sha ls 5 = Some None \<and> witness_for sha ls 99 = Some None \<and> witness_for sha [] 0 = Some None)"

lemma length_leaves [simp]: "length (leaves sha n) = n"
  by (simp add: leaves_def)

lemma streaming_root_leaves: "n < 2000 \<Longrightarrow> streaming_root sha (leaves sha n) = Some (mth sha (leaves sha n))"
  by (rule streaming_root_mth) simp

lemma witness_satisfies_folds:
  assumes "i < length ls" "length ls < 2000" "\<And>w. fold_witness sha (ls ! i) w = mth sha ls \<Longrightarrow> witness_for sha ls i = Some (Some w) \<Longrightarrow> P w"
  shows "witness_satisfies sha ls i P"
proof -
  have "length ls < 2 ^ 64" using assms(2) by simp
  from witness_for_folds [OF assms(1) this, of sha] assms(3) show ?thesis by (auto simp: witness_satisfies_def)
qed

lemma merkle_root_matches_streaming_hasher_passes: "merkle_root_matches_streaming_hasher sha"
  by (simp add: merkle_root_matches_streaming_hasher_def list_all_iff streaming_root_leaves merkle_root_mth Let_def)

lemma fold_reproduces_root_for_every_leaf_test_passes: "fold_reproduces_root_for_every_leaf_test sha"
proof -
  have "witness_satisfies sha (leaves sha n) i (\<lambda>w. Some (fold_witness sha (leaves sha n ! i) w) = streaming_root sha (leaves sha n))"
    if "i < n" "n < 2000" for i n
    by (rule witness_satisfies_folds) (use that in \<open>simp_all add: streaming_root_leaves\<close>)
  then show ?thesis
    unfolding fold_reproduces_root_for_every_leaf_test_def Let_def list_all_iff by (simp add: ball_Un)
qed

lemma empty_tree_root_matches_streaming_hasher_passes: "empty_tree_root_matches_streaming_hasher sha"
  using merkle_root_mth [of "[]" sha]
  by (simp add: empty_tree_root_matches_streaming_hasher_def root_def streaming_default_def mth.simps)

lemma out_of_range_index_returns_none_passes: "out_of_range_index_returns_none sha"
  by (simp add: out_of_range_index_returns_none_def witness_for_def)

text \<open>The test of the tampered leaf fails only with two leaves that one path folds to one root, which is a collision of
  the hash by \<open>fold_witness_binding\<close>.\<close>

lemma tampered_leaf_fails_or_collides:
  assumes "sha384_len sha" "\<not> tampered_leaf_fails sha"
  shows "\<exists>w bad. witness_for sha (leaves sha 37) 11 = Some (Some w) \<and> bad \<noteq> leaves sha 37 ! 11 \<and>
    fold_witness sha bad w = fold_witness sha (leaves sha 37 ! 11) w"
proof -
  let ?ls = "leaves sha 37"
  let ?bad = "(?ls ! 11)[0 := ((?ls ! 11) ! 0) XOR 0x01]"
  have len: "length (?ls ! 11) = 48" using assms(1) by (simp add: leaves_def leaf_def hash_leaf_def sha384_len_def)
  obtain w where w: "witness_for sha ?ls 11 = Some (Some w)" "fold_witness sha (?ls ! 11) w = mth sha ?ls"
    using witness_for_folds [of 11 ?ls sha] by auto
  have "?bad ! 0 \<noteq> ?ls ! 11 ! 0"
  proof
    assume "?bad ! 0 = ?ls ! 11 ! 0"
    then have "bit (?ls ! 11 ! 0 XOR 1) 0 = bit (?ls ! 11 ! 0) 0" using len by simp
    then show False by (simp add: bit_xor_iff)
  qed
  then have "?bad \<noteq> ?ls ! 11" by auto
  moreover have "fold_witness sha ?bad w = mth sha ?ls"
    using assms(2) w by (simp add: tampered_leaf_fails_def witness_satisfies_def streaming_root_leaves Let_def)
  ultimately show ?thesis using w by auto
qed

section \<open>\<open>json.rs\<close>\<close>

definition account :: "int \<Rightarrow> account_id option" where
  "account n = Some (Account_Id 0 0 n)"

definition tx_with_nfts :: "nft_transfer list \<Rightarrow> parsed_transaction" where
  "tx_with_nfts nfts = \<lparr>consensus_timestamp = ''1.000000002'', day = ''1970-01-01'', payer = ''0.0.100'',
     transaction_id = ''0.0.100@1.000000000'', tx_type = ''cryptoTransfer'', result_code = 22, result_name = ''SUCCESS'',
     charged_fee_tinybar = 0, transfers = [], token_transfers = [], nft_transfers = nfts\<rparr>"

definition nft_transfers_json_shape :: bool where
  "nft_transfers_json_shape \<longleftrightarrow>
     (let member = (\<lambda>v. case v of Object fs \<Rightarrow> map_of fs ''nftTransfers'' | _ \<Rightarrow> None);
          tok = Token_Id 0 0 5000;
          legs = [\<lparr>sender = account 100, receiver = account 200, token = tok, serial_number = 7, is_approval = True\<rparr>,
                  \<lparr>sender = None, receiver = account 200, token = tok, serial_number = 8, is_approval = False\<rparr>]
      in member (transaction_value (tx_with_nfts [])) = Some (Array []) \<and>
         member (transaction_value (tx_with_nfts legs)) = Some (Array
           [Object [(''sender'', String ''0.0.100''), (''receiver'', String ''0.0.200''), (''token'', String ''0.0.5000''),
                    (''serialNumber'', String ''7''), (''isApproval'', Bool True)],
            Object [(''sender'', String []), (''receiver'', String ''0.0.200''), (''token'', String ''0.0.5000''),
                    (''serialNumber'', String ''8''), (''isApproval'', Bool False)]]))"

lemma nft_transfers_json_shape_passes: "nft_transfers_json_shape"
  by (simp add: nft_transfers_json_shape_def transaction_value_def tx_with_nfts_def nft_value_def side_text_def account_def
      fmt_account_id_def fmt_token_id_def dotted_def show_int_def show_nat.simps Let_def)

section \<open>\<open>parquet.rs\<close>\<close>

definition nft :: "account_id option \<Rightarrow> account_id option \<Rightarrow> nft_transfer" where
  "nft s r = \<lparr>sender = s, receiver = r, token = Token_Id 0 0 5000, serial_number = 7, is_approval = False\<rparr>"

definition nft_transfer_makes_paired_delta_rows :: bool where
  "nft_transfer_makes_paired_delta_rows \<longleftrightarrow>
     nft_leg_rows ''1.000000002'' (nft (account 100) (account 200)) =
       [\<lparr>lr_consensus_timestamp = ''1.000000002'', lr_account = ''0.0.100'', lr_amount = -1, lr_token = Some ''0.0.5000#7''\<rparr>,
        \<lparr>lr_consensus_timestamp = ''1.000000002'', lr_account = ''0.0.200'', lr_amount = 1, lr_token = Some ''0.0.5000#7''\<rparr>]"

definition nft_mint_and_burn_emit_one_sided_rows :: bool where
  "nft_mint_and_burn_emit_one_sided_rows \<longleftrightarrow>
     (let mint = nft_leg_rows ''1.000000002'' (nft None (account 200));
          burn = nft_leg_rows ''1.000000002'' (nft (account 100) None)
      in length mint = 1 \<and> (lr_account (mint ! 0), lr_amount (mint ! 0)) = (''0.0.200'', 1) \<and>
         length burn = 1 \<and> (lr_account (burn ! 0), lr_amount (burn ! 0)) = (''0.0.100'', -1))"

lemma nft_rows_tests: "nft_transfer_makes_paired_delta_rows" "nft_mint_and_burn_emit_one_sided_rows"
  by (simp_all add: nft_transfer_makes_paired_delta_rows_def nft_mint_and_burn_emit_one_sided_rows_def nft_leg_rows_def nft_def
      account_def fmt_account_id_def fmt_token_id_def dotted_def show_int_def show_nat.simps Let_def)

section \<open>\<open>lib.rs\<close>\<close>

definition day_of_epoch_boundaries :: bool where
  "day_of_epoch_boundaries \<longleftrightarrow>
     day_of ''0.000000000'' = ''1970-01-01'' \<and> day_of ''86399.999999999'' = ''1970-01-01'' \<and>
     day_of ''86400.000000000'' = ''1970-01-02'' \<and> day_of ''1709164800.000000000'' = ''2024-02-29''"

text \<open>The dates of the four days, and the strings around them.\<close>

lemma civil_examples:
  "civil_from_days 0 = (1970, 1, 1)" "civil_from_days 1 = (1970, 1, 2)" "civil_from_days 19782 = (2024, 2, 29)"
  by code_simp+

lemma day_of_epoch_boundaries_passes: "day_of_epoch_boundaries"
  by (simp add: day_of_epoch_boundaries_def day_of_def day_from_seconds_def split_first_def parse_i64_def parse_digits_def
      digit_val_def in_i64_def civil_examples show_int_pad_def show_nat_pad_def show_nat.simps)

end
