(* ===== verification/Spec2Isabelle.thy ===== *)
theory Spec2Isabelle
  imports Node_Bindings Inclusion Schnorr_Forgery Sentinel_Catch_Up Examples Fuzz_Targets Unit_Tests
begin

text \<open>
  Verification development for \<open>hiero-streams-rs\<close>, the Rust library and command line tool that read and verify
  the two stream formats of the Hedera network: record files (signed node by node) and block streams
  (carrying one proof for the whole block).

  \<^bold>\<open>The program.\<close> Bytes come in, perhaps gzipped (\<open>inflate\<close>, \<open>detect_format\<close> in \<open>src/lib.rs\<close>). A record file is
  parsed by \<open>src/record/mod.rs\<close>, checked against its neighbours by the running-hash chain, and attested by the nodes'
  signature files under an address book (\<open>src/record/verify.rs\<close>). A block is scanned shallowly for its items
  (\<open>src/block/wire.rs\<close>), its merkle root is recomputed from the item bytes (\<open>src/block/merkle.rs\<close>,
  \<open>src/block/material.rs\<close>), and the proof over that root is verified: a hinTS threshold signature, and a Schnorr
  signature or a WRAPS proof that ties its key to the ledger (\<open>src/block/proof/\<close>). Both eras give the same
  transactions (\<open>src/transaction.rs\<close>, \<open>src/block/mod.rs\<close>) and one JSON shape (\<open>src/json.rs\<close>). On top are the command
  line (\<open>src/cli/mod.rs\<close>, \<open>src/cli/attest.rs\<close>), the ETL pipelines (\<open>src/cli/etl/\<close>), the sentinel that follows the
  live stream (\<open>src/cli/sentinel.rs\<close>) and the Node.js bindings (\<open>bindings/node/src/lib.rs\<close>).

  \<^bold>\<open>Theories and sources.\<close> Definitions keep the names of the Rust items; a loop of a function has the function's name
  with a suffix or the name of its step. State is a record that is passed and returned.
  \<^item> \<open>Prelude\<close>: machine integers, the error type, result combinators, checked arithmetic, slices, the collections
    \<open>result_simps\<close> and \<open>byte_simps\<close>. \<open>Fmt\<close>: \<open>format!\<close> of integers, splitting and parsing of text.
    \<open>BTree_Map\<close>: the standard library's ordered map behind the locale \<open>map_interface\<close>.
  \<^item> \<open>Proto\<close>: the fields the crate reads of the generated messages, and the record \<open>externals\<close> of library functions.
  \<^item> \<open>Wire\<close>: \<open>wire.rs\<close>; the locale \<open>reader\<close> (progress, prefix and composition laws of a byte reader) is interpreted for the
    varint, the length-delimited field and the whole field.
  \<^item> \<open>Transaction\<close>, \<open>Stream_Format\<close>, \<open>Record_Parse\<close>, \<open>Block_Parse\<close>, \<open>Json\<close>: \<open>transaction.rs\<close>, \<open>lib.rs\<close>,
    \<open>record/mod.rs\<close>, \<open>block/mod.rs\<close>, \<open>json.rs\<close>.
  \<^item> \<open>Merkle\<close>: \<open>merkle.rs\<close>; the locale \<open>leaf_accumulator\<close> is what a streaming hasher promises. \<open>Material\<close>: \<open>material.rs\<close>.
    \<open>Audit_Path\<close>: what the witnesses of both are; \<open>Inclusion\<close>: the inclusion check from end to end.
  \<^item> \<open>Chain\<close>: the locale \<open>linked\<close> of neighbour checks, interpreted for record files (\<open>Record_Verify\<close>), for the ETL's
    blocks (\<open>Etl\<close>) and for the sentinel's blocks (\<open>Sentinel_Run\<close>).
  \<^item> \<open>Record_Verify\<close>: \<open>record/verify.rs\<close>.
  \<^item> \<open>Pairing\<close>: the laws of the pairing libraries; \<open>Demo_Field\<close>: the field of the concrete instances. \<open>Hints\<close>, \<open>Schnorr\<close>,
    \<open>Wraps\<close>, \<open>Block_Proof\<close>: \<open>proof/hints.rs\<close>, \<open>proof/schnorr.rs\<close> and \<open>proof/poseidon.rs\<close>, \<open>proof/wraps.rs\<close>, \<open>proof/mod.rs\<close>.
  \<^item> \<open>Cli_Args\<close>, \<open>Cli\<close>, \<open>Attest\<close>, \<open>Etl\<close>, \<open>Sentinel\<close>, \<open>Sentinel_Run\<close>: \<open>src/cli/\<close>. \<open>Node_Bindings\<close>: the bindings.
    \<open>Sentinel_Catch_Up\<close>: the sentinel's runs one after the other.
  \<^item> \<open>Examples\<close>: the programs of \<open>examples/\<close>. \<open>Fuzz_Targets\<close>: the fuzz targets over the block proofs. \<open>Schnorr_Forgery\<close>,
    \<open>Unit_Tests\<close>: unit tests of the sources, which the model passes.

  \<^bold>\<open>Effects and errors.\<close> A fallible function gives \<open>Inl error\<close> or \<open>Inr value\<close> with the constructors and texts of the
  source. Where the code can panic (arithmetic of a debug build, an index, an \<open>expect\<close>) the result is an option and
  \<open>None\<close> is the panic; the parameter \<open>checks\<close> says whether the build checks overflow, and without it the words wrap.
  Files, requests, the environment and the clock are functions in \<open>sentinel_env\<close>, \<open>file_system\<close> and \<open>cli_env\<close>: a run reads
  one consistent state of them. A command gives what it prints, what it writes, and its exit code.

  \<^bold>\<open>What the lemmas show.\<close>
  \<^item> Blocks: scanning inverts encoding; streaming hasher, offline root and the recursive tree agree; the
    witness of any leaf reproduces the root and is the audit path of its leaf; a witness taken from a block recomputes the signed root, and an
    inclusion check that passes shows the block's own transaction unless the hash collides; reading a block never panics.
  \<^item> Proofs: what an accepted hinTS signature, Schnorr signature and WRAPS proof says in the exponents of the groups, and
    when \<open>verify_hints\<close> panics, which is the only way that reading and verifying a block's proof can panic; the forgery
    of nobody's signature satisfies the Schnorr equation and is refused; what a valid combined verdict says; the inclusion check,
    which sees neither the block nor an index, refines membership in the block, its error included.
  \<^item> Records: what an attestation says about the nodes; an accepted running-hash chain is gapless and is the only
    arrangement of its files.
  \<^item> Output: JSON values determine what they print; a reader of the Parquet schemas gets the rows and legs of a day back; the eras
    agree on a transaction in all but the name of its result, where five codes differ.
  \<^item> Pipelines: every transaction is written once, under its day (the day in the file name for records, its own for blocks), in order, whatever the
    number of threads; over any number
    of sentinel runs, errors included, the verified blocks are one gapless linked chain that the state file describes, what a run writes is the state after exactly the
    blocks it verified, the window is known for every cap and both builds, and a
    run over a fitting chain makes progress, so that repeated runs reach the newest block; the fee report adds up or panics; the exit codes of \<open>verify\<close>, \<open>attest\<close> and \<open>chain-info\<close> say what was verified.

  \<^bold>\<open>Termination and fuel.\<close> Loops over data are structural or have a measure. Two loops are driven by a server. The
  search for the newest block multiplies its distance by four from 1024, so 27 rounds leave the 64-bit range: 27 is
  enough for every range of blocks below \<open>2 ^ 61\<close>, and the theorem says that the search then returns. The pages of an
  address book are as many as the mirror serves: the number of pages is enough fuel, and no fuel is enough for a page that
  links to itself.

  \<^bold>\<open>Not modelled.\<close> Code that is not in the repository's sources is a parameter: prost's generated messages and decoders
  (\<open>build.rs\<close>), derived \<open>Debug\<close>, SHA-256, SHA-384, Blake2s, RSA, gzip, hex, the arkworks curves, pairings, hash to curve
  and Poseidon sponge, serde_json's parser and printer, ureq, napi and the Parquet writer; what the theorems need of
  them are the named laws \<open>gzip_laws\<close>, \<open>oneof_law\<close>, \<open>pairing_laws\<close>, \<open>bn_laws\<close>, \<open>curve_laws\<close>, \<open>scalar_codec\<close>, \<open>squeeze_law\<close> and \<open>sha384_len\<close>, each with an instance. Left out of the
  sources: text on the error stream and the usage text; the timing line and the progress output of the ETL; the
  scheduling of its worker threads (they share nothing, their results are concatenated in order); \<open>Valid::check\<close> of
  \<open>EthProof\<close>, which nothing reaches; timing and floating-point formatting in the examples; the fuzz targets that discard the
  result of one parser; the unit tests over recorded files and the integration tests, which drive the public functions on
  fixtures or over the network.
\<close>

end
